(* ===== verification/Prelude.thy ===== *)
theory Prelude imports Main begin

text \<open>
  What every theory of the development shares: the collections of simplification and
  introduction rules, generic facts on sums, options, lists and maps, and the few
  functions of the JavaScript string library the sources call
  (\<open>String.prototype.trim\<close>, \<open>String(n)\<close>, \<open>String.prototype.includes\<close>).
  A JavaScript string is modelled as a list of 8-bit code units.
\<close>

section \<open>Collections\<close>

named_theorems run_simps \<open>sequential execution of one asynchronous action\<close>
named_theorems stable_intros \<open>assertions that survive interference\<close>
named_theorems moves_intros \<open>functions all of whose actions are moves of one relation\<close>
named_theorems js_simps \<open>evaluation of JavaScript library functions\<close>

section \<open>Sums, options, lists and maps\<close>

text \<open>Sequencing of a synchronous computation that may throw.\<close>

fun bindE :: "'e + 'a \<Rightarrow> ('a \<Rightarrow> 'e + 'b) \<Rightarrow> 'e + 'b" where
  "bindE (Inl e) k = Inl e"
| "bindE (Inr a) k = k a"

lemma bindE_eq_Inr [simp]: "bindE m k = Inr b \<longleftrightarrow> (\<exists>a. m = Inr a \<and> k a = Inr b)"
  by (cases m) auto

lemma bindE_eq_Inl: "bindE m k = Inl e \<longleftrightarrow> m = Inl e \<or> (\<exists>a. m = Inr a \<and> k a = Inl e)"
  by (cases m) auto

definition isInr :: "'a + 'b \<Rightarrow> bool" where
  "isInr x = (case x of Inl _ \<Rightarrow> False | Inr _ \<Rightarrow> True)"

lemma isInr_simps [simp]: "isInr (Inl e) = False" "isInr (Inr a) = True"
  by (simp_all add: isInr_def)

lemma isInr_E: "isInr x \<Longrightarrow> (\<And>a. x = Inr a \<Longrightarrow> P) \<Longrightarrow> P"
  by (cases x) auto

text \<open>The left and right parts of a list of outcomes.\<close>

definition oks :: "('e + 'a) list \<Rightarrow> 'a list" where
  "oks xs = concat (map (\<lambda>x. case x of Inl _ \<Rightarrow> [] | Inr a \<Rightarrow> [a]) xs)"

lemma oks_simps [simp]: "oks [] = []" "oks (Inl e # xs) = oks xs" "oks (Inr a # xs) = a # oks xs"
  by (simp_all add: oks_def)

lemma length_oks_le: "length (oks xs) \<le> length xs"
proof (induction xs)
  case (Cons x xs)
  then show ?case by (cases x) auto
qed simp

lemma distinct_map_filter_le_one:
  assumes "\<And>i j. i < length xs \<Longrightarrow> j < length xs \<Longrightarrow> P (xs ! i) \<Longrightarrow> P (xs ! j) \<Longrightarrow> i = j"
  shows "length (filter P xs) \<le> 1"
  using assms
proof (induction xs)
  case (Cons x xs)
  have IH: "length (filter P xs) \<le> 1"
  proof (rule Cons.IH)
    fix i j
    assume "i < length xs" "j < length xs" "P (xs ! i)" "P (xs ! j)"
    then show "i = j" using Cons.prems [of "Suc i" "Suc j"] by simp
  qed
  show ?case
  proof (cases "P x")
    case True
    have "\<not> P (xs ! i)" if "i < length xs" for i
      using Cons.prems [of 0 "Suc i"] True that by auto
    then have "filter P xs = []"
      by (auto simp: filter_empty_conv in_set_conv_nth)
    then show ?thesis by simp
  next
    case False
    with IH show ?thesis by simp
  qed
qed simp

section \<open>JavaScript strings\<close>

definition is_js_space :: "char \<Rightarrow> bool" where
  "is_js_space c = ((of_char c :: nat) \<in> {9, 10, 11, 12, 13, 32, 160})"

definition js_trim :: "string \<Rightarrow> string" where
  "js_trim s = rev (dropWhile is_js_space (rev (dropWhile is_js_space s)))"

lemma dropWhile_rev_fixpoint:
  "s = [] \<or> \<not> P (hd s) \<Longrightarrow> s = [] \<or> \<not> P (last s) \<Longrightarrow> rev (dropWhile P (rev (dropWhile P s))) = s"
  by (cases s) (auto simp: hd_rev [symmetric] dropWhile_eq_self_iff)

lemma js_trim_hd: "js_trim s = [] \<or> \<not> is_js_space (hd (js_trim s))"
proof -
  let ?t = "dropWhile is_js_space s"
  have pre: "\<exists>u. ?t = js_trim s @ u"
    unfolding js_trim_def
    by (metis rev_append rev_rev_ident takeWhile_dropWhile_id)
  then obtain u where u: "?t = js_trim s @ u" by blast
  show ?thesis
  proof (cases "js_trim s = []")
    case False
    then have "hd ?t = hd (js_trim s)" and "?t \<noteq> []" using u by auto
    then show ?thesis using hd_dropWhile [of is_js_space s] by auto
  qed simp
qed

lemma js_trim_last: "js_trim s = [] \<or> \<not> is_js_space (last (js_trim s))"
  unfolding js_trim_def
  by (metis hd_dropWhile last_rev rev_is_Nil_conv)

lemma js_trim_idem [simp]: "js_trim (js_trim s) = js_trim s"
  using dropWhile_rev_fixpoint [OF js_trim_hd js_trim_last] by (simp only: js_trim_def [of "js_trim s"])

definition digit_char :: "nat \<Rightarrow> char" where
  "digit_char n = char_of (48 + n)"

definition digit_val :: "char \<Rightarrow> nat option" where
  "digit_val c = (let n = (of_char c :: nat) in if 48 \<le> n \<and> n \<le> 57 then Some (n - 48) else None)"

lemma digit_val_digit_char [simp]: "n < 10 \<Longrightarrow> digit_val (digit_char n) = Some n"
  by (simp add: digit_val_def digit_char_def)

fun show_nat :: "nat \<Rightarrow> string" where
  "show_nat n = (if n < 10 then [digit_char n] else show_nat (n div 10) @ [digit_char (n mod 10)])"

declare show_nat.simps [simp del]

fun read_digits :: "nat \<Rightarrow> string \<Rightarrow> nat \<times> string" where
  "read_digits acc [] = (acc, [])"
| "read_digits acc (c # cs) =
     (case digit_val c of None \<Rightarrow> (acc, c # cs) | Some d \<Rightarrow> read_digits (10 * acc + d) cs)"

definition starts_digit :: "string \<Rightarrow> bool" where
  "starts_digit s = (case s of [] \<Rightarrow> False | c # _ \<Rightarrow> digit_val c \<noteq> None)"

lemma read_digits_stop: "\<not> starts_digit s \<Longrightarrow> read_digits acc s = (acc, s)"
  by (cases s) (auto simp: starts_digit_def)

lemma read_digits_append:
  "\<forall>c \<in> set ds. digit_val c \<noteq> None \<Longrightarrow>
   read_digits acc (ds @ s) = read_digits (fst (read_digits acc ds)) s"
  by (induction ds arbitrary: acc) auto

lemma show_nat_digits: "\<forall>c \<in> set (show_nat n). digit_val c \<noteq> None"
proof (induction n rule: show_nat.induct)
  case (1 n)
  show ?case
  proof (cases "n < 10")
    case True
    then show ?thesis by (simp add: show_nat.simps [of n])
  next
    case False
    with "1.IH" show ?thesis by (simp add: show_nat.simps [of n])
  qed
qed

lemma read_show_nat_self: "fst (read_digits 0 (show_nat n)) = n"
proof (induction n rule: show_nat.induct)
  case (1 n)
  show ?case
  proof (cases "n < 10")
    case True
    then show ?thesis by (simp add: show_nat.simps [of n])
  next
    case False
    with "1.IH" show ?thesis
      by (simp add: show_nat.simps [of n] read_digits_append [OF show_nat_digits])
  qed
qed

lemma read_show_nat: "\<not> starts_digit s \<Longrightarrow> read_digits 0 (show_nat n @ s) = (n, s)"
  by (simp add: read_digits_append [OF show_nat_digits] read_show_nat_self read_digits_stop)

lemma show_nat_nonempty [simp]: "show_nat n \<noteq> []"
  by (subst show_nat.simps) simp

lemma show_nat_hd: "\<exists>c cs. show_nat n = c # cs \<and> digit_val c \<noteq> None"
  using show_nat_digits [of n] by (cases "show_nat n") auto

text \<open>\<open>String(n)\<close> of an integral number, and Lua's \<open>tonumber\<close> on such a string.\<close>

definition show_int :: "int \<Rightarrow> string" where
  "show_int i = (if i < 0 then CHR ''-'' # show_nat (nat (- i)) else show_nat (nat i))"

definition read_int :: "string \<Rightarrow> (int \<times> string) option" where
  "read_int s =
     (case s of
        [] \<Rightarrow> None
      | c # cs \<Rightarrow>
          (if c = CHR ''-'' then
             (if starts_digit cs then (case read_digits 0 cs of (n, r) \<Rightarrow> Some (- int n, r)) else None)
           else if starts_digit s then (case read_digits 0 s of (n, r) \<Rightarrow> Some (int n, r))
           else None))"

lemma digit_val_minus [simp]: "digit_val CHR ''-'' = None"
  by (simp add: digit_val_def)

lemma read_show_int: "\<not> starts_digit s \<Longrightarrow> read_int (show_int i @ s) = Some (i, s)"
proof -
  assume s: "\<not> starts_digit s"
  obtain c cs where c: "show_nat (nat \<bar>i\<bar>) = c # cs" "digit_val c \<noteq> None"
    using show_nat_hd by blast
  from s have r: "read_digits 0 ((c # cs) @ s) = (nat \<bar>i\<bar>, s)"
    using read_show_nat [OF s, of "nat \<bar>i\<bar>"] c(1) by simp
  from c(2) have st: "starts_digit ((c # cs) @ s)" by (simp add: starts_digit_def)
  show ?thesis
  proof (cases "i < 0")
    case True
    then have "show_int i = CHR ''-'' # c # cs" using c(1) by (simp add: show_int_def)
    then show ?thesis using r st True by (simp add: read_int_def del: read_digits.simps)
  next
    case False
    then have "show_int i = c # cs" using c(1) by (simp add: show_int_def)
    moreover have "c \<noteq> CHR ''-''" using c(2) by auto
    ultimately show ?thesis using r st False by (simp add: read_int_def del: read_digits.simps)
  qed
qed

definition tonumber :: "string \<Rightarrow> int option" where
  "tonumber s = (case read_int s of Some (i, []) \<Rightarrow> Some i | _ \<Rightarrow> None)"

lemma tonumber_show_int [simp, js_simps]: "tonumber (show_int i) = Some i"
  using read_show_int [of "[]" i] by (simp add: tonumber_def starts_digit_def)

text \<open>\<open>s.includes(sub)\<close>.\<close>

fun is_prefix :: "string \<Rightarrow> string \<Rightarrow> bool" where
  "is_prefix [] s = True"
| "is_prefix (c # cs) [] = False"
| "is_prefix (c # cs) (d # ds) = (c = d \<and> is_prefix cs ds)"

fun js_includes :: "string \<Rightarrow> string \<Rightarrow> bool" where
  "js_includes [] sub = (sub = [])"
| "js_includes (c # cs) sub = (is_prefix sub (c # cs) \<or> js_includes cs sub)"

definition char_upper :: "char \<Rightarrow> char" where
  "char_upper c =
     (let n = (of_char c :: nat) in if 97 \<le> n \<and> n \<le> 122 then char_of (n - 32) else c)"

definition js_upper :: "string \<Rightarrow> string" where
  "js_upper s = map char_upper s"

end
