(* ===== verification/Errors.thy ===== *)
theory Errors imports Prelude begin

text \<open>
  The values a promise can be rejected with (\<open>src/src/utils/custom-errors.ts\<close>) and
  what the Express error middleware makes of them
  (\<open>src/src/middlewares/error.middleware.ts\<close>).  \<open>AppError\<close> carries the HTTP status
  code; every other \<open>Error\<close> of the language or of a library is \<open>JsError\<close> with its
  message.  \<open>isOperational\<close> is \<open>true\<close> in every call of the constructor and is left out.
\<close>

section \<open>The error hierarchy\<close>

datatype exn = AppError (exn_message: string) (exn_status: nat) | JsError (exn_message: string)

definition NotFoundError :: "string \<Rightarrow> exn" where
  "NotFoundError message = AppError message 404"

definition BadRequestError :: "string \<Rightarrow> exn" where
  "BadRequestError message = AppError message 400"

definition ConflictError :: "string \<Rightarrow> exn" where
  "ConflictError message = AppError message 409"

definition RateLimitError :: "string \<Rightarrow> exn" where
  "RateLimitError message = AppError message 429"

lemmas app_error_defs = NotFoundError_def BadRequestError_def ConflictError_def RateLimitError_def

lemma app_errors_distinct [simp]:
  "NotFoundError m \<noteq> BadRequestError n" "BadRequestError m \<noteq> NotFoundError n"
  "NotFoundError m \<noteq> ConflictError n" "ConflictError m \<noteq> NotFoundError n"
  "BadRequestError m \<noteq> ConflictError n" "ConflictError m \<noteq> BadRequestError n"
  "NotFoundError m \<noteq> JsError n" "BadRequestError m \<noteq> JsError n" "ConflictError m \<noteq> JsError n"
  "JsError n \<noteq> NotFoundError m" "JsError n \<noteq> BadRequestError m" "JsError n \<noteq> ConflictError m"
  by (simp_all add: app_error_defs)

lemma app_errors_inject [simp]:
  "NotFoundError m = NotFoundError n \<longleftrightarrow> m = n"
  "BadRequestError m = BadRequestError n \<longleftrightarrow> m = n"
  "ConflictError m = ConflictError n \<longleftrightarrow> m = n"
  by (simp_all add: app_error_defs)

section \<open>The error middleware\<close>

datatype node_env = Development | Production | Test

record error_body =
  body_status :: string
  body_statusCode :: nat
  body_message :: string

text \<open>The HTTP status and the JSON body \<open>errorHandler\<close> answers with.\<close>

definition errorHandler :: "node_env \<Rightarrow> exn \<Rightarrow> nat \<times> error_body" where
  "errorHandler NODE_ENV err =
     (case err of
        AppError message statusCode \<Rightarrow>
          (statusCode,
           \<lparr>body_status = ''fail'', body_statusCode = statusCode, body_message = message\<rparr>)
      | JsError message \<Rightarrow>
          (500,
           \<lparr>body_status = ''error'', body_statusCode = 500,
            body_message = (if NODE_ENV = Production then ''Internal server error'' else message)\<rparr>))"

lemma errorHandler_status: "fst (errorHandler env err) = body_statusCode (snd (errorHandler env err))"
  by (cases err) (simp_all add: errorHandler_def)

lemma errorHandler_production_hides:
  "errorHandler Production (JsError m) = errorHandler Production (JsError m')"
  by (simp add: errorHandler_def)

end
