(* ===== verification/Json.thy ===== *)
theory Json imports Errors begin

text \<open>
  \<open>JSON.stringify\<close> and \<open>JSON.parse\<close> as the sources use them: the services publish objects
  of strings and integers and parse what comes back.  Numbers are integers (the sources
  write no other), strings are 8-bit code units, and an object is its list of members in
  insertion order; looking a member up finds the last one of that name, as the parser of
  the language does with duplicates.  \<open>parse_stringify\<close> is the round trip.
\<close>

section \<open>Values and printing\<close>

datatype json =
    JNull
  | JBool bool
  | JNum int
  | JStr string
  | JArr "json list"
  | JObj "(string \<times> json) list"

definition hex_digit :: "nat \<Rightarrow> char" where
  "hex_digit n = (if n < 10 then char_of (48 + n) else char_of (87 + n))"

definition escape_char :: "char \<Rightarrow> string" where
  "escape_char c =
     (let n = (of_char c :: nat) in
      if n = 34 then [CHR 0x5C, CHR 0x22]
      else if n = 92 then [CHR 0x5C, CHR 0x5C]
      else if n = 8 then [CHR 0x5C, CHR ''b'']
      else if n = 12 then [CHR 0x5C, CHR ''f'']
      else if n = 10 then [CHR 0x5C, CHR ''n'']
      else if n = 13 then [CHR 0x5C, CHR ''r'']
      else if n = 9 then [CHR 0x5C, CHR ''t'']
      else if n < 32 then [CHR 0x5C, CHR ''u'', CHR ''0'', CHR ''0'', hex_digit (n div 16), hex_digit (n mod 16)]
      else [c])"

definition json_quote :: "string \<Rightarrow> string" where
  "json_quote s = CHR 0x22 # concat (map escape_char s) @ [CHR 0x22]"

fun comma_join :: "string list \<Rightarrow> string" where
  "comma_join [] = []"
| "comma_join [x] = x"
| "comma_join (x # y # zs) = x @ CHR '','' # comma_join (y # zs)"

fun stringify :: "json \<Rightarrow> string" where
  "stringify JNull = ''null''"
| "stringify (JBool b) = (if b then ''true'' else ''false'')"
| "stringify (JNum i) = show_int i"
| "stringify (JStr s) = json_quote s"
| "stringify (JArr vs) = CHR ''['' # comma_join (map stringify vs) @ '']''"
| "stringify (JObj kvs) =
     CHR ''{'' # comma_join (map (\<lambda>(k, v). json_quote k @ CHR '':'' # stringify v) kvs) @ ''}''"

section \<open>Parsing\<close>

definition is_json_space :: "char \<Rightarrow> bool" where
  "is_json_space c = ((of_char c :: nat) \<in> {9, 10, 13, 32})"

definition skip_ws :: "string \<Rightarrow> string" where
  "skip_ws = dropWhile is_json_space"

definition hex_val :: "char \<Rightarrow> nat option" where
  "hex_val c =
     (let n = (of_char c :: nat) in
      if 48 \<le> n \<and> n \<le> 57 then Some (n - 48)
      else if 97 \<le> n \<and> n \<le> 102 then Some (n - 87)
      else if 65 \<le> n \<and> n \<le> 70 then Some (n - 55)
      else None)"

definition unescape :: "char \<Rightarrow> char option" where
  "unescape c =
     (let n = (of_char c :: nat) in
      if n = 34 \<or> n = 92 \<or> n = 47 then Some c
      else if c = CHR ''b'' then Some (char_of (8::nat))
      else if c = CHR ''f'' then Some (char_of (12::nat))
      else if c = CHR ''n'' then Some (char_of (10::nat))
      else if c = CHR ''r'' then Some (char_of (13::nat))
      else if c = CHR ''t'' then Some (char_of (9::nat))
      else None)"

text \<open>The characters of a string literal after the opening quote, and what follows the closing one.\<close>

fun parse_chars :: "string \<Rightarrow> (string \<times> string) option" where
  "parse_chars [] = None"
| "parse_chars (c # cs) =
     (if c = CHR 0x22 then Some ([], cs)
      else if c = CHR 0x5C then
        (case cs of
           [] \<Rightarrow> None
         | e # r \<Rightarrow>
             (case unescape e of
                Some d \<Rightarrow> map_option (map_prod ((#) d) id) (parse_chars r)
              | None \<Rightarrow>
                  (if e = CHR ''u'' then
                     (case r of
                        h1 # h2 # h3 # h4 # r' \<Rightarrow>
                          (case (hex_val h1, hex_val h2, hex_val h3, hex_val h4) of
                             (Some 0, Some 0, Some a, Some b) \<Rightarrow>
                               map_option (map_prod ((#) (char_of (16 * a + b))) id) (parse_chars r')
                           | _ \<Rightarrow> None)
                      | _ \<Rightarrow> None)
                   else None)))
      else if (of_char c :: nat) < 32 then None
      else map_option (map_prod ((#) c) id) (parse_chars cs))"

definition parse_word :: "string \<Rightarrow> json \<Rightarrow> string \<Rightarrow> (json \<times> string) option" where
  "parse_word w v s = (if is_prefix w s then Some (v, drop (length w) s) else None)"

fun parse_value :: "nat \<Rightarrow> string \<Rightarrow> (json \<times> string) option"
and parse_elems :: "nat \<Rightarrow> string \<Rightarrow> (json list \<times> string) option"
and parse_members :: "nat \<Rightarrow> string \<Rightarrow> ((string \<times> json) list \<times> string) option" where
  "parse_value 0 s = None"
| "parse_value (Suc n) s =
     (case skip_ws s of
        [] \<Rightarrow> None
      | c # cs \<Rightarrow>
          (if c = CHR 0x22 then map_option (map_prod JStr id) (parse_chars cs)
           else if c = CHR ''['' then
             (if is_prefix '']'' (skip_ws cs) then Some (JArr [], tl (skip_ws cs))
              else map_option (map_prod JArr id) (parse_elems n cs))
           else if c = CHR ''{'' then
             (if is_prefix ''}'' (skip_ws cs) then Some (JObj [], tl (skip_ws cs))
              else map_option (map_prod JObj id) (parse_members n cs))
           else if c = CHR ''n'' then parse_word ''null'' JNull (c # cs)
           else if c = CHR ''t'' then parse_word ''true'' (JBool True) (c # cs)
           else if c = CHR ''f'' then parse_word ''false'' (JBool False) (c # cs)
           else map_option (map_prod JNum id) (read_int (c # cs))))"
| "parse_elems 0 s = None"
| "parse_elems (Suc n) s =
     (case parse_value n s of
        None \<Rightarrow> None
      | Some (v, r) \<Rightarrow>
          (case skip_ws r of
             [] \<Rightarrow> None
           | c # r' \<Rightarrow>
               (if c = CHR '','' then map_option (map_prod ((#) v) id) (parse_elems n r')
                else if c = CHR '']'' then Some ([v], r')
                else None)))"
| "parse_members 0 s = None"
| "parse_members (Suc n) s =
     (case skip_ws s of
        [] \<Rightarrow> None
      | q # ks \<Rightarrow>
          (if q = CHR 0x22 then
             (case parse_chars ks of
                None \<Rightarrow> None
              | Some (k, r) \<Rightarrow>
                  (case skip_ws r of
                     [] \<Rightarrow> None
                   | c # r1 \<Rightarrow>
                       (if c = CHR '':'' then
                          (case parse_value n r1 of
                             None \<Rightarrow> None
                           | Some (v, r2) \<Rightarrow>
                               (case skip_ws r2 of
                                  [] \<Rightarrow> None
                                | d # r3 \<Rightarrow>
                                    (if d = CHR '','' then map_option (map_prod ((#) (k, v)) id) (parse_members n r3)
                                     else if d = CHR ''}'' then Some ([(k, v)], r3)
                                     else None)))
                        else None)))
           else None))"

definition json_parse :: "string \<Rightarrow> json option" where
  "json_parse s =
     (case parse_value (Suc (length s)) s of
        Some (v, r) \<Rightarrow> if skip_ws r = [] then Some v else None
      | None \<Rightarrow> None)"

text \<open>\<open>JSON.parse\<close> throws a \<open>SyntaxError\<close>; reading a member of \<open>null\<close> is a \<open>TypeError\<close>.\<close>

definition JSON_parse :: "string \<Rightarrow> exn + json" where
  "JSON_parse s = (case json_parse s of None \<Rightarrow> Inl (JsError ''SyntaxError'') | Some v \<Rightarrow> Inr v)"

fun js_get :: "json \<Rightarrow> string \<Rightarrow> exn + json option" where
  "js_get JNull k = Inl (JsError ''TypeError'')"
| "js_get (JObj kvs) k = Inr (map_of (rev kvs) k)"
| "js_get _ k = Inr None"

fun as_string :: "json option \<Rightarrow> string option" where
  "as_string (Some (JStr s)) = Some s"
| "as_string _ = None"

lemma as_string_eq_Some [simp]: "as_string v = Some s \<longleftrightarrow> v = Some (JStr s)"
  by (cases v rule: as_string.cases) auto

section \<open>The round trip\<close>

lemma skip_ws_hd: "s \<noteq> [] \<Longrightarrow> \<not> is_json_space (hd s) \<Longrightarrow> skip_ws s = s"
  by (cases s) (auto simp: skip_ws_def)

lemma skip_ws_Nil [simp]: "skip_ws [] = []"
  by (simp add: skip_ws_def)

lemma skip_ws_Cons: "\<not> is_json_space c \<Longrightarrow> skip_ws (c # s) = c # s"
  by (simp add: skip_ws_def)

lemma json_space_simps [simp]:
  "\<not> is_json_space CHR 0x22" "\<not> is_json_space CHR ''[''" "\<not> is_json_space CHR '']''"
  "\<not> is_json_space CHR ''{''" "\<not> is_json_space CHR ''}''" "\<not> is_json_space CHR '',''"
  "\<not> is_json_space CHR '':''" "\<not> is_json_space CHR ''n''" "\<not> is_json_space CHR ''t''"
  "\<not> is_json_space CHR ''f''" "\<not> is_json_space CHR ''-''"
  by (simp_all add: is_json_space_def)

lemmas skip_ws_simps [simp] = json_space_simps [THEN skip_ws_Cons]

lemma digit_not_space: "digit_val c \<noteq> None \<Longrightarrow> \<not> is_json_space c"
  by (auto simp: digit_val_def is_json_space_def Let_def split: if_splits)

lemma hex_val_hex_digit: "n < 16 \<Longrightarrow> hex_val (hex_digit n) = Some n"
  by (auto simp: hex_val_def hex_digit_def Let_def)

lemma of_char_eqD: "(of_char c :: nat) = n \<Longrightarrow> c = char_of n"
  by auto

lemma char_of_quotes [simp]: "char_of (34::nat) = CHR 0x22" "char_of (92::nat) = CHR 0x5C"
  by code_simp+

lemma parse_chars_escape:
  "parse_chars (escape_char c @ s) = map_option (map_prod ((#) c) id) (parse_chars s)"
proof -
  let ?n = "of_char c :: nat"
  consider (short) "?n \<in> {34, 92, 8, 12, 10, 13, 9}"
    | (ctrl) "?n \<notin> {34, 92, 8, 12, 10, 13, 9}" "?n < 32"
    | (plain) "?n \<notin> {34, 92}" "32 \<le> ?n"
    by fastforce
  then show ?thesis
  proof cases
    case short
    then show ?thesis
      by (elim insertE emptyE)
         (auto simp: escape_char_def unescape_def Let_def dest!: of_char_eqD)
  next
    case ctrl
    have "16 * (?n div 16) + ?n mod 16 = ?n" by simp
    then have c: "char_of (16 * (?n div 16) + ?n mod 16) = c" by simp
    have "escape_char c = [CHR 0x5C, CHR ''u'', CHR ''0'', CHR ''0'', hex_digit (?n div 16), hex_digit (?n mod 16)]"
      using ctrl by (simp add: escape_char_def Let_def)
    moreover have "hex_val (hex_digit (?n div 16)) = Some (?n div 16)"
      using ctrl by (intro hex_val_hex_digit) simp
    moreover have "hex_val (hex_digit (?n mod 16)) = Some (?n mod 16)"
      by (rule hex_val_hex_digit) simp
    moreover have "hex_val CHR ''0'' = Some 0" by (simp add: hex_val_def)
    moreover have "unescape CHR ''u'' = None" by (simp add: unescape_def)
    ultimately show ?thesis using c by simp
  next
    case plain
    then have "c \<noteq> CHR 0x22" "c \<noteq> CHR 0x5C" by auto
    with plain show ?thesis by (simp add: escape_char_def Let_def)
  qed
qed

lemma parse_chars_quote: "parse_chars (concat (map escape_char k) @ CHR 0x22 # s) = Some (k, s)"
  by (induction k) (simp_all add: parse_chars_escape)

lemma starts_digit_simps [simp]:
  "\<not> starts_digit (CHR '','' # s)" "\<not> starts_digit (CHR '']'' # s)" "\<not> starts_digit (CHR ''}'' # s)"
  "\<not> starts_digit []"
  by (simp_all add: starts_digit_def digit_val_def)

text \<open>The fuel a value needs, and that its text is at least that long.\<close>

fun json_fuel :: "json \<Rightarrow> nat" where
  "json_fuel (JArr vs) = Suc (sum_list (map (\<lambda>v. Suc (json_fuel v)) vs))"
| "json_fuel (JObj kvs) = Suc (sum_list (map (\<lambda>(k, v). Suc (json_fuel v)) kvs))"
| "json_fuel _ = 1"

lemma length_comma_join: "length (comma_join xs) + 1 = sum_list (map (\<lambda>x. Suc (length x)) xs) + (if xs = [] then 1 else 0)"
  by (induction xs rule: comma_join.induct) auto

lemma length_comma_join_ge: "sum_list (map (\<lambda>x. Suc (length x)) xs) \<le> length (comma_join xs) + 1"
  using length_comma_join [of xs] by simp

lemma json_fuel_le: "json_fuel v \<le> length (stringify v)"
proof (induction v rule: stringify.induct)
  case (3 i)
  then show ?case by (auto simp: show_int_def Suc_le_eq)
next
  case (5 vs)
  have "sum_list (map (\<lambda>v. Suc (json_fuel v)) vs) \<le> sum_list (map (\<lambda>v. Suc (length (stringify v))) vs)"
    using 5 by (intro sum_list_mono) auto
  also have "\<dots> \<le> length (comma_join (map stringify vs)) + 1"
    using length_comma_join_ge [of "map stringify vs"] by (simp add: o_def)
  finally show ?case by simp
next
  case (6 kvs)
  have "sum_list (map (\<lambda>(k, v). Suc (json_fuel v)) kvs)
      \<le> sum_list (map (\<lambda>(k, v). Suc (length (json_quote k @ CHR '':'' # stringify v))) kvs)"
    using 6 by (intro sum_list_mono) (fastforce simp: json_quote_def)
  also have "\<dots> \<le> length (comma_join (map (\<lambda>(k, v). json_quote k @ CHR '':'' # stringify v) kvs)) + 1"
    using length_comma_join_ge [of "map (\<lambda>(k, v). json_quote k @ CHR '':'' # stringify v) kvs"]
    by (simp add: o_def split_def)
  finally show ?case by simp
qed (auto simp: json_quote_def)

text \<open>A printed value starts with a character that is neither blank nor a closing bracket.\<close>

lemma stringify_hd: "\<exists>c cs. stringify v = c # cs \<and> \<not> is_json_space c \<and> c \<notin> {CHR '']'', CHR ''}''}"
proof (cases v)
  case (JNum i)
  obtain c cs where c: "show_nat (nat \<bar>i\<bar>) = c # cs" "digit_val c \<noteq> None" using show_nat_hd by blast
  then have "c \<notin> {CHR '']'', CHR ''}''}" by (auto simp: digit_val_def)
  with c JNum digit_not_space show ?thesis by (cases "i < 0") (auto simp: show_int_def)
qed (auto simp: json_quote_def)

lemma parse_value_array:
  assumes "vs \<noteq> []" and "sum_list (map (\<lambda>v. Suc (json_fuel v)) vs) \<le> n"
    and "\<And>v m s. v \<in> set vs \<Longrightarrow> json_fuel v \<le> m \<Longrightarrow> \<not> starts_digit s \<Longrightarrow>
      parse_value m (stringify v @ s) = Some (v, s)"
  shows "parse_elems n (comma_join (map stringify vs) @ CHR '']'' # s) = Some (vs, s)"
  using assms
proof (induction vs arbitrary: n)
  case (Cons v vs)
  then obtain m where n: "n = Suc m" "json_fuel v \<le> m" "sum_list (map (\<lambda>v. Suc (json_fuel v)) vs) \<le> m"
    by (cases n) auto
  show ?case
  proof (cases vs)
    case Nil
    have "parse_value m (stringify v @ CHR '']'' # s) = Some (v, CHR '']'' # s)"
      using Cons.prems(3) n(2) by simp
    then show ?thesis using Nil n(1) by simp
  next
    case (Cons u us)
    let ?r = "CHR '','' # comma_join (map stringify vs) @ CHR '']'' # s"
    have "parse_value m (stringify v @ ?r) = Some (v, ?r)"
      using Cons.prems(3) n(2) by simp
    moreover have "parse_elems m (comma_join (map stringify vs) @ CHR '']'' # s) = Some (vs, s)"
      using Cons.IH [of m] Cons.prems(3) n(3) Cons by simp
    ultimately show ?thesis using Cons n(1) by simp
  qed
qed simp

lemma parse_value_object:
  assumes "kvs \<noteq> []" and "sum_list (map (\<lambda>(k, v). Suc (json_fuel v)) kvs) \<le> n"
    and "\<And>k v m s. (k, v) \<in> set kvs \<Longrightarrow> json_fuel v \<le> m \<Longrightarrow> \<not> starts_digit s \<Longrightarrow>
      parse_value m (stringify v @ s) = Some (v, s)"
  shows "parse_members n (comma_join (map (\<lambda>(k, v). json_quote k @ CHR '':'' # stringify v) kvs) @ CHR ''}'' # s)
     = Some (kvs, s)"
  using assms
proof (induction kvs arbitrary: n)
  case (Cons kv kvs)
  obtain k v where kv: "kv = (k, v)" by force
  from Cons.prems(2) kv obtain m where n: "n = Suc m" "json_fuel v \<le> m"
    "sum_list (map (\<lambda>(k, v). Suc (json_fuel v)) kvs) \<le> m"
    by (cases n) auto
  have val: "parse_value m (stringify v @ r) = Some (v, r)" if "\<not> starts_digit r" for r
    by (rule Cons.prems(3) [of k v]) (use kv n(2) that in simp_all)
  show ?case
  proof (cases kvs)
    case Nil
    show ?thesis
      using Nil n(1) kv val [of "CHR ''}'' # s"] by (simp add: json_quote_def parse_chars_quote)
  next
    case (Cons u us)
    let ?rest = "comma_join (map (\<lambda>(k, v). json_quote k @ CHR '':'' # stringify v) kvs) @ CHR ''}'' # s"
    have "kvs \<noteq> []" using Cons by simp
    then have "parse_members m ?rest = Some (kvs, s)"
      using n(3) 
    proof (rule Cons.IH)
      fix k v m s
      assume "(k, v) \<in> set kvs" "json_fuel v \<le> m" "\<not> starts_digit s"
      then show "parse_value m (stringify v @ s) = Some (v, s)"
        by (intro Cons.prems(3) [of k v]) simp_all
    qed
    moreover have "comma_join (map (\<lambda>(k, v). json_quote k @ CHR '':'' # stringify v) (kv # kvs)) @ CHR ''}'' # s
       = CHR 0x22 # concat (map escape_char k) @ CHR 0x22 # CHR '':'' # stringify v @ CHR '','' # ?rest"
      using Cons kv by (simp add: json_quote_def)
    ultimately show ?thesis
      using n(1) kv val [of "CHR '','' # ?rest"] by (simp add: parse_chars_quote)
  qed
qed simp

lemma parse_value_stringify:
  "json_fuel v \<le> n \<Longrightarrow> \<not> starts_digit s \<Longrightarrow> parse_value n (stringify v @ s) = Some (v, s)"
proof (induction v arbitrary: n s rule: stringify.induct)
  case 1
  then show ?case by (cases n) (simp_all add: parse_word_def)
next
  case (2 b)
  then show ?case by (cases n) (simp_all add: parse_word_def)
next
  case (3 i)
  then obtain m where n: "n = Suc m" by (cases n) auto
  obtain c cs where c: "show_int i = c # cs" "digit_val c \<noteq> None \<or> c = CHR ''-''"
    using show_nat_hd [of "nat \<bar>i\<bar>"] by (cases "i < 0") (auto simp: show_int_def)
  from c(2) have "\<not> is_json_space c" using digit_not_space by auto
  moreover from c(2) have "c \<notin> {CHR 0x22, CHR ''['', CHR ''{'', CHR ''n'', CHR ''t'', CHR ''f''}"
    by (auto simp: digit_val_def)
  moreover have "read_int ((c # cs) @ s) = Some (i, s)"
    using read_show_int [OF 3(2), of i] c(1) by simp
  ultimately show ?case using n c(1) by (simp add: skip_ws_Cons)
next
  case (4 t)
  then show ?case by (cases n) (simp_all add: json_quote_def parse_chars_quote)
next
  case (5 vs)
  then obtain m where n: "n = Suc m" "sum_list (map (\<lambda>v. Suc (json_fuel v)) vs) \<le> m"
    by (cases n) auto
  show ?case
  proof (cases "vs = []")
    case True
    then show ?thesis using n(1) by simp
  next
    case False
    then obtain v us where vs: "vs = v # us" by (cases vs) auto
    obtain c cs where c: "stringify v = c # cs" "\<not> is_json_space c" "c \<noteq> CHR '']''"
      using stringify_hd [of v] by auto
    have "\<exists>cs'. comma_join (map stringify vs) @ CHR '']'' # s = c # cs'"
      using vs c(1) by (cases us) auto
    then have "\<not> is_prefix '']'' (skip_ws (comma_join (map stringify vs) @ CHR '']'' # s))"
      using c(2,3) by (auto simp: skip_ws_Cons)
    moreover have "parse_elems m (comma_join (map stringify vs) @ CHR '']'' # s) = Some (vs, s)"
      by (rule parse_value_array [OF False n(2)]) (rule 5(1))
    ultimately show ?thesis using n(1) by simp
  qed
next
  case (6 kvs)
  then obtain m where n: "n = Suc m" "sum_list (map (\<lambda>(k, v). Suc (json_fuel v)) kvs) \<le> m"
    by (cases n) auto
  show ?case
  proof (cases "kvs = []")
    case True
    then show ?thesis using n(1) by simp
  next
    case False
    let ?body = "comma_join (map (\<lambda>(k, v). json_quote k @ CHR '':'' # stringify v) kvs) @ CHR ''}'' # s"
    from False obtain kv us where kvs: "kvs = kv # us" by (cases kvs) auto
    have "\<exists>cs'. ?body = CHR 0x22 # cs'"
      using kvs by (cases us) (auto simp: json_quote_def split_def)
    then have "\<not> is_prefix ''}'' (skip_ws ?body)" by auto
    moreover have "parse_members m ?body = Some (kvs, s)"
      by (rule parse_value_object [OF False n(2)]) (rule 6(1), auto)
    ultimately show ?thesis using n(1) by simp
  qed
qed

text \<open>Parsing what was printed gives the value back, for every value of the model.\<close>

lemma parse_stringify [simp]: "json_parse (stringify v) = Some v"
proof -
  have "parse_value (Suc (length (stringify v))) (stringify v @ []) = Some (v, [])"
    using json_fuel_le [of v] by (intro parse_value_stringify) auto
  then show ?thesis by (simp add: json_parse_def)
qed

lemma JSON_parse_stringify [simp]: "JSON_parse (stringify v) = Inr v"
  by (simp add: JSON_parse_def)

lemma stringify_inject [simp]: "stringify v = stringify u \<longleftrightarrow> v = u"
  by (metis option.inject parse_stringify)

end
