(* ===== verification/Types.thy ===== *)
theory Types imports Json begin

text \<open>
  The data contracts of the engine: \<open>src/src/types/ticket.types.ts\<close>,
  \<open>src/src/types/events.types.ts\<close>, the rows the Prisma schema declares
  (\<open>src/prisma/schema/\<close>), the ISO form of a date, and the JSON text of the events.
  Instants are integers, milliseconds since the epoch, as \<open>Date.now()\<close> gives them.
\<close>

section \<open>Seats, requests and responses (ticket.types.ts)\<close>

datatype SeatState = AVAILABLE | HELD | SOLD

fun seat_state_text :: "SeatState \<Rightarrow> string" where
  "seat_state_text AVAILABLE = ''AVAILABLE''"
| "seat_state_text HELD = ''HELD''"
| "seat_state_text SOLD = ''SOLD''"

record SeatingMapSeat =
  ms_id :: string
  ms_section :: string
  ms_row :: string
  ms_number :: string
  ms_status :: SeatState

record SeatingMap =
  sm_eventId :: string
  sm_eventName :: string
  sm_startsAt :: string
  sm_seats :: "SeatingMapSeat list"

datatype SeatingMapMode = Direct | RedisProtected

record SeatingMapExecutionMeta =
  mode :: SeatingMapMode
  cacheHit :: bool
  lockAcquired :: bool
  waitedForLock :: bool
  databaseLoaded :: bool
  durationMs :: int

text \<open>
  The map of a result is a JavaScript value: one read from the cache is what \<open>JSON.parse\<close>
  gave, which the cast \<open>as SeatingMap\<close> does not check.  \<open>seating_map_value\<close> is the object
  of a map that was built from the database.
\<close>

record SeatingMapResult =
  smr_map :: json
  smr_meta :: SeatingMapExecutionMeta

definition seat_value :: "SeatingMapSeat \<Rightarrow> json" where
  "seat_value s = JObj
     [(''id'', JStr (ms_id s)), (''section'', JStr (ms_section s)), (''row'', JStr (ms_row s)),
      (''number'', JStr (ms_number s)), (''status'', JStr (seat_state_text (ms_status s)))]"

definition seating_map_value :: "SeatingMap \<Rightarrow> json" where
  "seating_map_value m = JObj
     [(''eventId'', JStr (sm_eventId m)), (''eventName'', JStr (sm_eventName m)),
      (''startsAt'', JStr (sm_startsAt m)), (''seats'', JArr (map seat_value (sm_seats m)))]"

record HoldSeatRequest =
  rq_eventId :: string
  rq_seatId :: string
  rq_userId :: string

text \<open>\<open>Partial<HoldSeatRequest>\<close>: a member may be missing or of any JSON type.\<close>

record HoldSeatPayload =
  pl_eventId :: "json option"
  pl_seatId :: "json option"
  pl_userId :: "json option"

record ReleaseSeatRequest = HoldSeatPayload +
  pl_holdId :: string

record ReleaseSeatResponse =
  rel_eventId :: string
  rel_seatId :: string
  rel_holdId :: string

record CreateOrderResponse =
  co_orderId :: string

record SeatHoldRecord =
  hr_holdId :: string
  hr_eventId :: string
  hr_seatId :: string
  hr_userId :: string
  hr_expiresAt :: string

datatype HoldSeatResponse =
    HoldSeatSuccess SeatHoldRecord
  | HoldSeatConflict string

fun hold_status_code :: "HoldSeatResponse \<Rightarrow> nat" where
  "hold_status_code (HoldSeatSuccess _) = 200"
| "hold_status_code (HoldSeatConflict _) = 409"

section \<open>Rows of the database (prisma/schema)\<close>

record seat_row =
  seat_id :: string
  seat_eventId :: string
  seat_section :: string
  seat_row_label :: string
  seat_number :: string
  seat_status :: SeatState

datatype OrderStatus = PROCESSING | BOOKED | FAILED

text \<open>The data of \<open>order.create\<close>, and a stored row with its generated \<open>id\<close>.\<close>

record order_data =
  ord_holdId :: string
  ord_eventId :: string
  ord_seatId :: string
  ord_userId :: string
  ord_expiresAt :: int
  ord_status :: OrderStatus

record order_row = order_data +
  ord_id :: string

record event_row =
  evt_id :: string
  evt_name :: string
  evt_startsAt :: int

section \<open>Order events (events.types.ts)\<close>

definition ORDER_STREAM_KEY :: string where
  "ORDER_STREAM_KEY = ''stream:orders''"

definition ORDER_CONSUMER_GROUP :: string where
  "ORDER_CONSUMER_GROUP = ''order-settlement-workers''"

definition ORDER_EVENT_TYPE :: string where
  "ORDER_EVENT_TYPE = ''order.created''"

definition ORDER_EVENT_SCHEMA_VERSION :: int where
  "ORDER_EVENT_SCHEMA_VERSION = 1"

record OrderCreatedEventPayload =
  oc_holdId :: string
  oc_orderId :: string
  oc_eventId :: string
  oc_seatId :: string
  oc_userId :: string
  oc_expiresAt :: string

text \<open>A stream entry as the worker sees it; \<open>fields\<close> is the record built from the flat reply.\<close>

record RedisStreamMessage =
  msg_id :: string
  msg_fields :: "string \<rightharpoonup> string"

text \<open>The object literal \<open>createOrder\<close> hands to \<open>JSON.stringify\<close>.\<close>

definition order_payload_json :: "OrderCreatedEventPayload \<Rightarrow> json" where
  "order_payload_json p = JObj
     [(''holdId'', JStr (oc_holdId p)), (''orderId'', JStr (oc_orderId p)),
      (''eventId'', JStr (oc_eventId p)), (''seatId'', JStr (oc_seatId p)),
      (''userId'', JStr (oc_userId p)), (''expiresAt'', JStr (oc_expiresAt p))]"

section \<open>Seat events on the WebSocket backplane (events.types.ts)\<close>

definition WS_SEAT_EVENTS_CHANNEL :: string where
  "WS_SEAT_EVENTS_CHANNEL = ''ws:seat-events''"

definition WEBSOCKET_SEAT_EVENT_SCHEMA_VERSION :: int where
  "WEBSOCKET_SEAT_EVENT_SCHEMA_VERSION = 1"

text \<open>
  The payloads the services publish.  \<open>HeldRecord\<close> is the whole hold record, which
  \<open>holdSeat\<close> passes; \<open>Held\<close> is the payload \<open>createOrder\<close> builds.
\<close>

datatype SeatEventPayload =
    HeldRecord SeatHoldRecord
  | Held (held_eventId: string) (held_seatId: string) (held_holdId: string) (held_expiresAt: string)
  | Booked (booked_eventId: string) (booked_seatId: string) (booked_orderId: string)
  | Released (released_eventId: string) (released_seatId: string) (released_holdId: string)
      (released_reason: string)

record WebSocketSeatEvent =
  we_eventId :: string
  we_schemaVersion :: int
  we_occurredAt :: string
  we_correlationId :: string
  we_payload :: SeatEventPayload

fun seat_event_type :: "SeatEventPayload \<Rightarrow> string" where
  "seat_event_type (HeldRecord _) = ''seat.held''"
| "seat_event_type (Held _ _ _ _) = ''seat.held''"
| "seat_event_type (Booked _ _ _) = ''seat.booked''"
| "seat_event_type (Released _ _ _ _) = ''seat.released''"

fun seat_payload_json :: "SeatEventPayload \<Rightarrow> json" where
  "seat_payload_json (HeldRecord r) = JObj
     [(''holdId'', JStr (hr_holdId r)), (''eventId'', JStr (hr_eventId r)),
      (''seatId'', JStr (hr_seatId r)), (''userId'', JStr (hr_userId r)),
      (''status'', JStr ''HELD''), (''expiresAt'', JStr (hr_expiresAt r))]"
| "seat_payload_json (Held e s h x) = JObj
     [(''eventId'', JStr e), (''seatId'', JStr s), (''holdId'', JStr h),
      (''status'', JStr ''HELD''), (''expiresAt'', JStr x)]"
| "seat_payload_json (Booked e s oid) = JObj
     [(''eventId'', JStr e), (''seatId'', JStr s), (''orderId'', JStr oid), (''status'', JStr ''SOLD'')]"
| "seat_payload_json (Released e s h rs) = JObj
     [(''eventId'', JStr e), (''seatId'', JStr s), (''holdId'', JStr h),
      (''status'', JStr ''AVAILABLE''), (''reason'', JStr rs)]"

definition seat_event_json :: "WebSocketSeatEvent \<Rightarrow> json" where
  "seat_event_json e = JObj
     [(''eventId'', JStr (we_eventId e)), (''eventType'', JStr (seat_event_type (we_payload e))),
      (''schemaVersion'', JNum (we_schemaVersion e)), (''occurredAt'', JStr (we_occurredAt e)),
      (''correlationId'', JStr (we_correlationId e)), (''payload'', seat_payload_json (we_payload e))]"

section \<open>Date.prototype.toISOString\<close>

definition pad :: "nat \<Rightarrow> int \<Rightarrow> string" where
  "pad n i = (let s = show_nat (nat i) in replicate (n - length s) CHR ''0'' @ s)"

text \<open>Year, month and day of a day number counted from 1970-01-01 (proleptic Gregorian calendar).\<close>

definition civil_of_days :: "int \<Rightarrow> int \<times> int \<times> int" where
  "civil_of_days z =
     (let z' = z + 719468;
          era = z' div 146097;
          doe = z' mod 146097;
          yoe = (doe - doe div 1460 + doe div 36524 - doe div 146096) div 365;
          doy = doe - (365 * yoe + yoe div 4 - yoe div 100);
          mp = (5 * doy + 2) div 153;
          d = doy - (153 * mp + 2) div 5 + 1;
          m = (if mp < 10 then mp + 3 else mp - 9);
          y = yoe + era * 400 + (if m \<le> 2 then 1 else 0)
      in (y, m, d))"

definition iso_year :: "int \<Rightarrow> string" where
  "iso_year y =
     (if 0 \<le> y \<and> y \<le> 9999 then pad 4 y
      else (if y < 0 then CHR ''-'' else CHR ''+'') # pad 6 \<bar>y\<bar>)"

definition toISOString :: "int \<Rightarrow> string" where
  "toISOString t =
     (let days = t div 86400000; ms = t mod 86400000;
          (y, m, d) = civil_of_days days
      in iso_year y @ CHR ''-'' # pad 2 m @ CHR ''-'' # pad 2 d @ CHR ''T'' #
         pad 2 (ms div 3600000) @ CHR '':'' # pad 2 (ms div 60000 mod 60) @ CHR '':'' #
         pad 2 (ms div 1000 mod 60) @ CHR ''.'' # pad 3 (ms mod 1000) @ ''Z'')"

end
