(* ===== verification/Proc.thy ===== *)
theory Proc imports Errors begin

text \<open>
  Asynchronous JavaScript functions.  Between two \<open>await\<close>s a function runs without
  interruption; at an \<open>await\<close> every other handler, every other process and the outside
  world may run.  An \<open>async\<close> function is therefore a \<^emph>\<open>resumption\<close>: it has returned,
  has thrown, or is about to perform one indivisible action on the shared world and
  then continues.  The same term has two readings: \<open>run\<close> executes it alone from a
  state (functional properties), and \<open>pool_step\<close> interleaves a list of them with an
  environment (concurrency properties, through the rely/guarantee judgement \<open>rg\<close>).
\<close>

section \<open>Resumptions\<close>

datatype ('w, 'a) proc =
    Ret 'a
  | Throw exn
  | Act "'w \<Rightarrow> 'w \<times> ('w, 'a) proc"

lemma proc_induct [case_names Ret Throw Act, induct type: proc]:
  assumes "\<And>a. P (Ret a)" and "\<And>e. P (Throw e)"
    and "\<And>f. (\<And>w w' q. f w = (w', q) \<Longrightarrow> P q) \<Longrightarrow> P (Act f)"
  shows "P p"
proof (induction p rule: proc.induct)
  case (Act f)
  show ?case
  proof (rule assms(3))
    fix w w' q
    assume f: "f w = (w', q)"
    have "f w \<in> range f" by simp
    moreover have "q \<in> Basic_BNFs.snds (f w)" unfolding f by (simp add: snds.simps)
    ultimately show "P q" by (rule Act)
  qed
qed (rule assms)+

text \<open>\<open>await p\<close> followed by the rest of the function.\<close>

primrec await :: "('w, 'a) proc \<Rightarrow> ('a \<Rightarrow> ('w, 'b) proc) \<Rightarrow> ('w, 'b) proc" where
  "await (Ret a) k = k a"
| "await (Throw e) k = Throw e"
| "await (Act f) k = Act (map_prod id (\<lambda>p. await p k) \<circ> f)"

text \<open>\<open>try { p } catch (e) { h }\<close>.\<close>

primrec catch :: "('w, 'a) proc \<Rightarrow> (exn \<Rightarrow> ('w, 'a) proc) \<Rightarrow> ('w, 'a) proc" where
  "catch (Ret a) h = Ret a"
| "catch (Throw e) h = h e"
| "catch (Act f) h = Act (map_prod id (\<lambda>p. catch p h) \<circ> f)"

text \<open>A settled promise, as \<open>Promise.allSettled\<close> reports it.\<close>

primrec settled :: "('w, 'a) proc \<Rightarrow> ('w, exn + 'a) proc" where
  "settled (Ret a) = Ret (Inr a)"
| "settled (Throw e) = Ret (Inl e)"
| "settled (Act f) = Act (map_prod id settled \<circ> f)"

definition rethrow :: "exn + 'a \<Rightarrow> ('w, 'a) proc" where
  "rethrow r = (case r of Inl e \<Rightarrow> Throw e | Inr a \<Rightarrow> Ret a)"

text \<open>\<open>try { p } finally { q }\<close>: an exception of \<open>q\<close> replaces the outcome of \<open>p\<close>.\<close>

definition finally_do :: "('w, 'a) proc \<Rightarrow> ('w, unit) proc \<Rightarrow> ('w, 'a) proc" where
  "finally_do p q = await (settled p) (\<lambda>r. await q (\<lambda>_. rethrow r))"

text \<open>An indivisible action that answers or throws, and one that reads the world.\<close>

definition atomic :: "('w \<Rightarrow> 'w \<times> (exn + 'a)) \<Rightarrow> ('w, 'a) proc" where
  "atomic f = Act (\<lambda>w. map_prod id rethrow (f w))"

definition reads :: "('w \<Rightarrow> 'a) \<Rightarrow> ('w, 'a) proc" where
  "reads f = Act (\<lambda>w. (w, Ret (f w)))"

definition modifies :: "('w \<Rightarrow> 'w) \<Rightarrow> ('w, unit) proc" where
  "modifies f = Act (\<lambda>w. (f w, Ret ()))"

text \<open>A synchronous computation that may throw.\<close>

definition sync :: "exn + 'a \<Rightarrow> ('w, 'a) proc" where
  "sync r = rethrow r"

section \<open>Running alone\<close>

primrec run :: "('w, 'a) proc \<Rightarrow> 'w \<Rightarrow> 'w \<times> (exn + 'a)" where
  "run (Ret a) = (\<lambda>w. (w, Inr a))"
| "run (Throw e) = (\<lambda>w. (w, Inl e))"
| "run (Act f) = (\<lambda>w. (\<lambda>(w', r). r w') ((map_prod id run \<circ> f) w))"

lemma run_Act: "run (Act f) w = (case f w of (w', p) \<Rightarrow> run p w')"
  by (simp add: case_prod_beta)

declare run.simps(3) [simp del]

lemma run_await:
  "run (await p k) w = (case run p w of (w', Inl e) \<Rightarrow> (w', Inl e) | (w', Inr a) \<Rightarrow> run (k a) w')"
proof (induction p arbitrary: w)
  case (Act f)
  obtain w' q where "f w = (w', q)" by force
  then show ?case using Act by (simp add: run_Act)
qed simp_all

lemma run_catch:
  "run (catch p h) w = (case run p w of (w', Inl e) \<Rightarrow> run (h e) w' | (w', Inr a) \<Rightarrow> (w', Inr a))"
proof (induction p arbitrary: w)
  case (Act f)
  obtain w' q where "f w = (w', q)" by force
  then show ?case using Act by (simp add: run_Act)
qed simp_all

lemma run_settled: "run (settled p) w = (case run p w of (w', r) \<Rightarrow> (w', Inr r))"
proof (induction p arbitrary: w)
  case (Act f)
  obtain w' q where "f w = (w', q)" by force
  then show ?case using Act by (simp add: run_Act)
qed simp_all

lemma run_rethrow: "run (rethrow r) w = (w, r)"
  by (cases r) (simp_all add: rethrow_def)

lemma run_finally:
  "run (finally_do p q) w =
     (case run p w of (w', r) \<Rightarrow>
        (case run q w' of (w'', Inl e) \<Rightarrow> (w'', Inl e) | (w'', Inr _) \<Rightarrow> (w'', r)))"
  by (simp add: finally_do_def run_await run_settled run_rethrow split: prod.splits sum.splits)

lemma run_atomic: "run (atomic f) w = f w"
  by (cases "f w") (simp add: atomic_def run_Act run_rethrow)

lemma run_reads: "run (reads f) w = (w, Inr (f w))"
  by (simp add: reads_def run_Act)

lemma run_modifies: "run (modifies f) w = (f w, Inr ())"
  by (simp add: modifies_def run_Act)

lemma run_sync: "run (sync r) w = (w, r)"
  by (simp add: sync_def run_rethrow)

lemmas run_rules [run_simps] =
  run_await run_catch run_settled run_rethrow run_finally run_atomic run_reads run_modifies run_sync

text \<open>Inversion: how a sequence returned, how it failed.\<close>

lemma run_await_Inr:
  "run (await p k) w = (w', Inr b) \<longleftrightarrow> (\<exists>w1 a. run p w = (w1, Inr a) \<and> run (k a) w1 = (w', Inr b))"
  by (auto simp: run_await split: prod.splits sum.splits)

lemma run_await_Inl:
  "run (await p k) w = (w', Inl e) \<longleftrightarrow>
     run p w = (w', Inl e) \<or> (\<exists>w1 a. run p w = (w1, Inr a) \<and> run (k a) w1 = (w', Inl e))"
  by (auto simp: run_await split: prod.splits sum.splits)

text \<open>Every asynchronous function of the model ends: \<open>run\<close> is total.\<close>

lemma run_returns: "\<exists>w' r. run p w = (w', r)"
  by (cases "run p w") auto

lemma await_assoc: "await (await p k) h = await p (\<lambda>x. await (k x) h)"
proof (induction p)
  case (Act f)
  then have "map_prod id (\<lambda>q. await (await q k) h) (f w) = map_prod id (\<lambda>q. await q (\<lambda>x. await (k x) h)) (f w)" for w
    by (cases "f w") auto
  then show ?case by (simp add: fun_eq_iff prod.map_comp o_def id_def)
qed simp_all

section \<open>Concurrent batches: Promise.all and Promise.allSettled\<close>

text \<open>
  \<open>par sched ps\<close> runs the processes of \<open>ps\<close> concurrently and settles each of them.  The
  list \<open>sched\<close> names the process that moves next; when it is used up, the processes that
  have not finished run to their end in list order.  Every finite interleaving of the
  batch is \<open>par sched ps\<close> for some \<open>sched\<close>.
\<close>

fun settle_all :: "('w, 'a) proc list \<Rightarrow> ('w, (exn + 'a) list) proc" where
  "settle_all [] = Ret []"
| "settle_all (p # ps) = await (settled p) (\<lambda>r. await (settle_all ps) (\<lambda>rs. Ret (r # rs)))"

primrec par :: "nat list \<Rightarrow> ('w, 'a) proc list \<Rightarrow> ('w, (exn + 'a) list) proc" where
  "par [] = settle_all"
| "par (i # is) = (\<lambda>ps.
     if i < length ps then
       (case ps ! i of
          Act f \<Rightarrow> Act (\<lambda>w. map_prod id (\<lambda>p'. par is (ps[i := p'])) (f w))
        | _ \<Rightarrow> par is ps)
     else par is ps)"

definition Promise_allSettled :: "nat list \<Rightarrow> ('w, 'a) proc list \<Rightarrow> ('w, (exn + 'a) list) proc" where
  "Promise_allSettled sched ps = par sched ps"

text \<open>
  \<open>Promise.all\<close>: the values in list order, or the first error of the list.  In JavaScript
  a rejection is reported as soon as it happens and the other members run on; the model
  reports the first of the list when all have ended.
\<close>

definition Promise_all :: "nat list \<Rightarrow> ('w, 'a) proc list \<Rightarrow> ('w, 'a list) proc" where
  "Promise_all sched ps =
     await (par sched ps) (\<lambda>rs.
       case find (\<lambda>r. \<not> isInr r) rs of Some (Inl e) \<Rightarrow> Throw e | _ \<Rightarrow> Ret (oks rs))"

lemma run_settle_all_length: "run (settle_all ps) w = (w', r) \<Longrightarrow> \<exists>rs. r = Inr rs \<and> length rs = length ps"
proof (induction ps arbitrary: w w' r)
  case (Cons p ps)
  obtain w1 r1 where p: "run p w = (w1, r1)" by force
  obtain w2 r2 where ps: "run (settle_all ps) w1 = (w2, r2)" by force
  from Cons.IH [OF ps] obtain rs where "r2 = Inr rs" "length rs = length ps" by blast
  with p ps Cons.prems show ?case by (auto simp: run_simps)
qed simp

lemma run_par_length: "run (par sched ps) w = (w', r) \<Longrightarrow> \<exists>rs. r = Inr rs \<and> length rs = length ps"
proof (induction sched arbitrary: ps w)
  case Nil
  then show ?case by (simp add: run_settle_all_length)
next
  case (Cons i sched)
  show ?case
  proof (cases "i < length ps")
    case True
    show ?thesis
    proof (cases "ps ! i")
      case (Act f)
      obtain w1 p1 where f: "f w = (w1, p1)" by force
      with Cons.prems True Act have "run (par sched (ps[i := p1])) w1 = (w', r)"
        by (simp add: run_Act)
      from Cons.IH [OF this] show ?thesis by simp
    qed (use Cons True in auto)
  qed (use Cons in auto)
qed

section \<open>Interleaving\<close>

text \<open>A pool is the shared world and the processes in flight.\<close>

inductive pool_step ::
  "('w \<Rightarrow> 'w \<Rightarrow> bool) \<Rightarrow> 'w \<times> ('w, 'a) proc list \<Rightarrow> 'w \<times> ('w, 'a) proc list \<Rightarrow> bool"
  for env where
  pool_run: "i < length ps \<Longrightarrow> ps ! i = Act f \<Longrightarrow> f w = (w', p') \<Longrightarrow>
    pool_step env (w, ps) (w', ps[i := p'])"
| pool_env: "env w w' \<Longrightarrow> pool_step env (w, ps) (w', ps)"

inductive_cases pool_stepE: "pool_step env (w, ps) c"

definition pool_steps ::
  "('w \<Rightarrow> 'w \<Rightarrow> bool) \<Rightarrow> 'w \<times> ('w, 'a) proc list \<Rightarrow> 'w \<times> ('w, 'a) proc list \<Rightarrow> bool" where
  "pool_steps env = (pool_step env)\<^sup>*\<^sup>*"

lemma pool_steps_induct [consumes 1, case_names refl step]:
  assumes "pool_steps env c c'"
    and "P c"
    and "\<And>d d'. pool_steps env c d \<Longrightarrow> P d \<Longrightarrow> pool_step env d d' \<Longrightarrow> P d'"
  shows "P c'"
proof (rule rtranclp_induct [OF assms(1) [unfolded pool_steps_def]])
  show "P c" by (rule assms(2))
next
  fix d d'
  assume "(pool_step env)\<^sup>*\<^sup>* c d" and step: "pool_step env d d'" and "P d"
  then have "pool_steps env c d" by (simp add: pool_steps_def)
  then show "P d'" using \<open>P d\<close> step by (rule assms(3))
qed

lemma pool_steps_refl [simp, intro]: "pool_steps env c c"
  by (simp add: pool_steps_def)

lemma pool_steps_into: "pool_step env c d \<Longrightarrow> pool_steps env d e \<Longrightarrow> pool_steps env c e"
  unfolding pool_steps_def by (rule converse_rtranclp_into_rtranclp)

text \<open>Running one process of the pool to its end is a sequence of pool steps.\<close>

lemma pool_steps_run:
  assumes "run p w = (w', Inr a)" and "i < length ps" and "ps ! i = p"
  shows "pool_steps env (w, ps) (w', ps[i := Ret a])"
  using assms
proof (induction p arbitrary: w ps)
  case (Ret b)
  have "w' = w" and "ps ! i = Ret a" using Ret.prems(1,3) by auto
  then have "ps[i := Ret a] = ps" by (metis list_update_id)
  with \<open>w' = w\<close> show ?case by simp
next
  case (Throw e)
  then show ?case by simp
next
  case (Act f)
  obtain w1 q where f: "f w = (w1, q)" by force
  then have "run q w1 = (w', Inr a)" using Act.prems(1) by (simp add: run_Act)
  then have "pool_steps env (w1, ps[i := q]) (w', (ps[i := q])[i := Ret a])"
    using Act.IH [OF f, of w1 "ps[i := q]"] Act.prems(2) by simp
  moreover have "pool_step env (w, ps) (w1, ps[i := q])"
    using Act.prems(2,3) f by (rule pool_run)
  ultimately show ?case by (simp add: pool_steps_into)
qed

text \<open>A batch is a sequence of pool steps: what \<open>par\<close> computes, some interleaving reaches.\<close>

lemma pool_steps_settle:
  assumes "run p w = (w', r)" and "i < length ps" and "ps ! i = p"
  shows "pool_steps env (w, ps) (w', ps[i := rethrow r])"
  using assms
proof (induction p arbitrary: w ps)
  case (Act f)
  obtain w1 q where f: "f w = (w1, q)" by force
  then have "run q w1 = (w', r)" using Act.prems(1) by (simp add: run_Act)
  then have "pool_steps env (w1, ps[i := q]) (w', (ps[i := q])[i := rethrow r])"
    using Act.IH [OF f, of w1 "ps[i := q]"] Act.prems(2) by simp
  moreover have "pool_step env (w, ps) (w1, ps[i := q])"
    using Act.prems(2,3) f by (rule pool_run)
  ultimately show ?case by (simp add: pool_steps_into)
next
  case (Ret a)
  then have "ps[i := rethrow r] = ps" by (auto simp: rethrow_def intro: list_update_same_conv [THEN iffD2])
  with Ret show ?case by simp
next
  case (Throw e)
  then have "ps[i := rethrow r] = ps" by (auto simp: rethrow_def intro: list_update_same_conv [THEN iffD2])
  with Throw show ?case by simp
qed

lemma settle_all_steps:
  "run (settle_all ps) w = (w', Inr rs) \<Longrightarrow> pool_steps env (w, qs @ ps) (w', qs @ map rethrow rs)"
proof (induction ps arbitrary: w qs rs)
  case (Cons p ps)
  obtain w1 r where p: "run p w = (w1, r)" by force
  with Cons.prems obtain rs' where rs: "run (settle_all ps) w1 = (w', Inr rs')" "rs = r # rs'"
    by (auto simp: run_simps split: prod.splits sum.splits)
  have "pool_steps env (w, qs @ p # ps) (w1, (qs @ p # ps)[length qs := rethrow r])"
    by (rule pool_steps_settle [OF p]) simp_all
  moreover have "pool_steps env (w1, (qs @ [rethrow r]) @ ps) (w', (qs @ [rethrow r]) @ map rethrow rs')"
    by (rule Cons.IH [OF rs(1)])
  ultimately have "pool_steps env (w, qs @ p # ps) (w', qs @ rethrow r # map rethrow rs')"
    unfolding pool_steps_def by simp
  with rs(2) show ?case by simp
qed simp

lemma par_steps: "run (par sched ps) w = (w', Inr rs) \<Longrightarrow> pool_steps env (w, ps) (w', map rethrow rs)"
proof (induction sched arbitrary: ps w)
  case Nil
  then show ?case using settle_all_steps [of ps w w' rs env "[]"] by simp
next
  case (Cons i sched)
  show ?case
  proof (cases "\<exists>f. i < length ps \<and> ps ! i = Act f")
    case True
    then obtain f where i: "i < length ps" "ps ! i = Act f" by blast
    obtain w1 q where f: "f w = (w1, q)" by force
    with Cons.prems i have "run (par sched (ps[i := q])) w1 = (w', Inr rs)" by (simp add: run_Act)
    from Cons.IH [OF this] pool_run [OF i f] show ?thesis by (metis pool_steps_into)
  next
    case False
    with Cons show ?thesis by (cases "ps ! i") (auto split: if_splits)
  qed
qed

end
