(* ===== verification/Rely_Guarantee.thy ===== *)
theory Rely_Guarantee imports Proc begin

text \<open>
  The rely/guarantee judgement for resumptions, its composition rules, and the theorem
  that lifts it to every interleaving of a pool.  \<open>rg R G Q E A p\<close> says: started in a state
  where \<open>A\<close> holds, and while the others only make moves of \<open>R\<close> (between any two actions
  of \<open>p\<close>), every action of \<open>p\<close> is a move of \<open>G\<close>; if \<open>p\<close> returns \<open>a\<close> then \<open>Q a\<close> holds from
  then on, and if it throws \<open>e\<close> then \<open>E e\<close> does.
\<close>

section \<open>Stable assertions\<close>

definition stable :: "('w \<Rightarrow> 'w \<Rightarrow> bool) \<Rightarrow> ('w \<Rightarrow> bool) \<Rightarrow> bool" where
  "stable R A = (\<forall>w w'. A w \<longrightarrow> R w w' \<longrightarrow> A w')"

lemma stableI: "(\<And>w w'. A w \<Longrightarrow> R w w' \<Longrightarrow> A w') \<Longrightarrow> stable R A"
  by (auto simp: stable_def)

lemma stableD: "stable R A \<Longrightarrow> A w \<Longrightarrow> R w w' \<Longrightarrow> A w'"
  by (auto simp: stable_def)

lemma stable_const [simp, stable_intros]: "stable R (\<lambda>_. P)"
  by (simp add: stable_def)

lemma stable_conj [stable_intros]: "stable R A \<Longrightarrow> stable R B \<Longrightarrow> stable R (\<lambda>w. A w \<and> B w)"
  by (auto simp: stable_def)

lemma stable_disj [stable_intros]: "stable R A \<Longrightarrow> stable R B \<Longrightarrow> stable R (\<lambda>w. A w \<or> B w)"
  by (auto simp: stable_def)

lemma stable_imp [stable_intros]: "(P \<Longrightarrow> stable R A) \<Longrightarrow> stable R (\<lambda>w. P \<longrightarrow> A w)"
  by (auto simp: stable_def)

lemma stable_ex [stable_intros]: "(\<And>x. stable R (A x)) \<Longrightarrow> stable R (\<lambda>w. \<exists>x. A x w)"
  unfolding stable_def by blast

section \<open>The judgement\<close>

inductive rg ::
  "('w \<Rightarrow> 'w \<Rightarrow> bool) \<Rightarrow> ('w \<Rightarrow> 'w \<Rightarrow> bool) \<Rightarrow> ('a \<Rightarrow> 'w \<Rightarrow> bool) \<Rightarrow> (exn \<Rightarrow> 'w \<Rightarrow> bool) \<Rightarrow>
   ('w \<Rightarrow> bool) \<Rightarrow> ('w, 'a) proc \<Rightarrow> bool"
  for R G Q E where
  rg_Ret: "stable R A \<Longrightarrow> (\<And>w. A w \<Longrightarrow> Q a w) \<Longrightarrow> rg R G Q E A (Ret a)"
| rg_Throw: "stable R A \<Longrightarrow> (\<And>w. A w \<Longrightarrow> E e w) \<Longrightarrow> rg R G Q E A (Throw e)"
| rg_Act: "stable R A \<Longrightarrow>
    (\<And>w. A w \<Longrightarrow> G w (fst (f w)) \<and> (\<exists>B. B (fst (f w)) \<and> rg R G Q E B (snd (f w)))) \<Longrightarrow>
    rg R G Q E A (Act f)"

inductive_cases rg_RetE: "rg R G Q E A (Ret a)"
inductive_cases rg_ThrowE: "rg R G Q E A (Throw e)"
inductive_cases rg_ActE: "rg R G Q E A (Act f)"

lemma rg_stable: "rg R G Q E A p \<Longrightarrow> stable R A"
  by (cases rule: rg.cases) auto

lemma rg_conseq:
  assumes "rg R G Q E A p" and "stable R A'" and "\<And>w. A' w \<Longrightarrow> A w"
  shows "rg R G Q E A' p"
  using assms(1)
proof (cases rule: rg.cases)
  case (rg_Ret a)
  then show ?thesis using assms by (auto intro: rg.rg_Ret)
next
  case (rg_Throw e)
  then show ?thesis using assms by (auto intro: rg.rg_Throw)
next
  case (rg_Act f)
  then show ?thesis using assms by (auto intro!: rg.rg_Act)
qed

lemma rg_weaken:
  assumes "rg R G Q E A p" and "\<And>a w. Q a w \<Longrightarrow> Q' a w" and "\<And>e w. E e w \<Longrightarrow> E' e w"
    and "\<And>w w'. G w w' \<Longrightarrow> G' w w'"
  shows "rg R G' Q' E' A p"
  using assms(1)
proof (induction rule: rg.induct)
  case (rg_Ret A a)
  then show ?case using assms(2) by (auto intro: rg.rg_Ret)
next
  case (rg_Throw A e)
  then show ?case using assms(3) by (auto intro: rg.rg_Throw)
next
  case (rg_Act A f)
  show ?case
    by (rule rg.rg_Act) (use rg_Act assms(4) in blast)+
qed

lemma rg_await:
  assumes "rg R G Q1 E A p" and "\<And>x. rg R G Q E (Q1 x) (k x)"
  shows "rg R G Q E A (await p k)"
  using assms(1)
proof (induction rule: rg.induct)
  case (rg_Ret A a)
  then show ?case using rg_conseq [OF assms(2)] by simp
next
  case (rg_Throw A e)
  then show ?case by (simp add: rg.rg_Throw)
next
  case (rg_Act A f)
  show ?case unfolding await.simps
  proof (rule rg.rg_Act)
    fix w
    assume "A w"
    with rg_Act.IH obtain B where B: "G w (fst (f w))" "B (fst (f w))"
      "rg R G Q E B (await (snd (f w)) k)" by blast
    then show "G w (fst ((map_prod id (\<lambda>p. await p k) \<circ> f) w)) \<and>
      (\<exists>B. B (fst ((map_prod id (\<lambda>p. await p k) \<circ> f) w)) \<and>
           rg R G Q E B (snd ((map_prod id (\<lambda>p. await p k) \<circ> f) w)))" by auto
  qed (rule rg_Act.hyps)
qed

lemma rg_catch:
  assumes "rg R G Q E1 A p" and "\<And>e. rg R G Q E (E1 e) (h e)"
  shows "rg R G Q E A (catch p h)"
  using assms(1)
proof (induction rule: rg.induct)
  case (rg_Ret A a)
  then show ?case by (simp add: rg.rg_Ret)
next
  case (rg_Throw A e)
  then show ?case using rg_conseq [OF assms(2)] by simp
next
  case (rg_Act A f)
  show ?case unfolding catch.simps
  proof (rule rg.rg_Act)
    fix w
    assume "A w"
    with rg_Act.IH obtain B where B: "G w (fst (f w))" "B (fst (f w))"
      "rg R G Q E B (catch (snd (f w)) h)" by blast
    then show "G w (fst ((map_prod id (\<lambda>p. catch p h) \<circ> f) w)) \<and>
      (\<exists>B. B (fst ((map_prod id (\<lambda>p. catch p h) \<circ> f) w)) \<and>
           rg R G Q E B (snd ((map_prod id (\<lambda>p. catch p h) \<circ> f) w)))" by auto
  qed (rule rg_Act.hyps)
qed

lemma rg_settled:
  assumes "rg R G Q1 E1 A p" and "\<And>a w. Q1 a w \<Longrightarrow> Q (Inr a) w" and "\<And>e w. E1 e w \<Longrightarrow> Q (Inl e) w"
  shows "rg R G Q E A (settled p)"
  using assms(1)
proof (induction rule: rg.induct)
  case (rg_Ret A a)
  then show ?case using assms(2) by (auto intro: rg.rg_Ret)
next
  case (rg_Throw A e)
  then show ?case using assms(3) by (auto intro: rg.rg_Ret)
next
  case (rg_Act A f)
  show ?case unfolding settled.simps
  proof (rule rg.rg_Act)
    fix w
    assume "A w"
    with rg_Act.IH obtain B where B: "G w (fst (f w))" "B (fst (f w))"
      "rg R G Q E B (settled (snd (f w)))" by blast
    then show "G w (fst ((map_prod id settled \<circ> f) w)) \<and>
      (\<exists>B. B (fst ((map_prod id settled \<circ> f) w)) \<and>
           rg R G Q E B (snd ((map_prod id settled \<circ> f) w)))" by auto
  qed (rule rg_Act.hyps)
qed

lemma rg_rethrow:
  assumes "stable R A" and "\<And>a w. r = Inr a \<Longrightarrow> A w \<Longrightarrow> Q a w" and "\<And>e w. r = Inl e \<Longrightarrow> A w \<Longrightarrow> E e w"
  shows "rg R G Q E A (rethrow r)"
  using assms by (cases r) (auto simp: rethrow_def intro: rg.intros)

text \<open>One indivisible action: its move, and what its answer establishes.\<close>

lemma rg_atomic:
  assumes "stable R A"
    and "\<And>w w' a. A w \<Longrightarrow> f w = (w', Inr a) \<Longrightarrow> G w w' \<and> Q a w'"
    and "\<And>w w' e. A w \<Longrightarrow> f w = (w', Inl e) \<Longrightarrow> G w w' \<and> E e w'"
    and "\<And>a. stable R (Q a)" and "\<And>e. stable R (E e)"
  shows "rg R G Q E A (atomic f)"
  unfolding atomic_def
proof (rule rg.rg_Act)
  fix w
  assume A: "A w"
  obtain w' r where f: "f w = (w', r)" by force
  show "G w (fst (map_prod id rethrow (f w))) \<and>
    (\<exists>B. B (fst (map_prod id rethrow (f w))) \<and> rg R G Q E B (snd (map_prod id rethrow (f w))))"
  proof (cases r)
    case (Inl e)
    with f assms(3) [OF A] have "G w w'" "E e w'" by auto
    moreover have "rg R G Q E (E e) (Throw e)" by (rule rg.rg_Throw) (rule assms(5))
    ultimately show ?thesis using f Inl by (auto simp: rethrow_def)
  next
    case (Inr a)
    with f assms(2) [OF A] have "G w w'" "Q a w'" by auto
    moreover have "rg R G Q E (Q a) (Ret a)" by (rule rg.rg_Ret) (rule assms(4))
    ultimately show ?thesis using f Inr by (auto simp: rethrow_def)
  qed
qed (rule assms(1))

lemma rg_atomic_move:
  assumes "rg R G Q E A (atomic f)" and "A w" and "f w = (w', x)"
  shows "G w w'"
  using assms(1) unfolding atomic_def by (rule rg_ActE) (use assms(2,3) in fastforce)

lemma rg_reads:
  assumes "stable R A" and "\<And>w. A w \<Longrightarrow> G w w \<and> Q (f w) w" and "\<And>a. stable R (Q a)"
  shows "rg R G Q E A (reads f)"
  unfolding reads_def
proof (rule rg.rg_Act)
  fix w
  assume A: "A w"
  have "rg R G Q E (Q (f w)) (Ret (f w))" by (rule rg.rg_Ret) (rule assms(3))
  then show "G w (fst (w, Ret (f w))) \<and>
      (\<exists>B. B (fst (w, Ret (f w))) \<and> rg R G Q E B (snd (w, Ret (f w))))"
    using assms(2) [OF A] by auto
qed (rule assms(1))

lemma rg_modifies:
  assumes "stable R A" and "\<And>w. A w \<Longrightarrow> G w (f w) \<and> Q () (f w)" and "stable R (Q ())"
  shows "rg R G Q E A (modifies f)"
  unfolding modifies_def
proof (rule rg.rg_Act)
  fix w
  assume A: "A w"
  have "rg R G Q E (Q ()) (Ret ())" by (rule rg.rg_Ret) (rule assms(3))
  then show "G w (fst (f w, Ret ())) \<and>
      (\<exists>B. B (fst (f w, Ret ())) \<and> rg R G Q E B (snd (f w, Ret ())))"
    using assms(2) [OF A] by auto
qed (rule assms(1))

text \<open>
  When everybody, the process included, makes moves of one relation: what that relation
  preserves can be carried along, and a batch keeps to it if its members do.
\<close>

lemma rg_keep:
  assumes "rg R G Q E A p" and "stable R C" and "stable G C"
  shows "rg R G (\<lambda>a w. Q a w \<and> C w) (\<lambda>e w. E e w \<and> C w) (\<lambda>w. A w \<and> C w) p"
  using assms(1)
proof (induction rule: rg.induct)
  case (rg_Ret A a)
  then show ?case using assms(2) by (intro rg.rg_Ret) (auto intro: stable_conj)
next
  case (rg_Throw A e)
  then show ?case using assms(2) by (intro rg.rg_Throw) (auto intro: stable_conj)
next
  case (rg_Act A f)
  show ?case
  proof (rule rg.rg_Act)
    fix w
    assume AC: "A w \<and> C w"
    with rg_Act.IH obtain B where B: "G w (fst (f w))" "B (fst (f w))"
      "rg R G (\<lambda>a w. Q a w \<and> C w) (\<lambda>e w. E e w \<and> C w) (\<lambda>w. B w \<and> C w) (snd (f w))" by blast
    moreover have "C (fst (f w))" using AC B(1) stableD [OF assms(3)] by blast
    ultimately show "G w (fst (f w)) \<and> (\<exists>B. B (fst (f w)) \<and>
        rg R G (\<lambda>a w. Q a w \<and> C w) (\<lambda>e w. E e w \<and> C w) B (snd (f w)))"
      by (intro conjI exI [of _ "\<lambda>w. B w \<and> C w"]) auto
  qed (use rg_Act.hyps assms(2) in \<open>auto intro: stable_conj\<close>)
qed

lemma rg_frame:
  "rg R R Q E A p \<Longrightarrow> stable R C \<Longrightarrow> rg R R (\<lambda>a w. Q a w \<and> C w) (\<lambda>e w. E e w \<and> C w) (\<lambda>w. A w \<and> C w) p"
  by (rule rg_keep)

lemma stable_all_members: "(\<And>i. i < n \<Longrightarrow> stable R (A i)) \<Longrightarrow> stable R (\<lambda>w. \<forall>i < n. A i w)"
  unfolding stable_def by blast

lemma rg_settle_all:
  assumes "\<forall>i < length ps. rg R R (\<lambda>a. P i (Inr a)) (\<lambda>e. P i (Inl e)) (A i) (ps ! i)" and "\<And>i r. stable R (P i r)"
  shows "rg R R (\<lambda>rs w. length rs = length ps \<and> (\<forall>i < length ps. P i (rs ! i) w)) (\<lambda>_ _. False)
    (\<lambda>w. \<forall>i < length ps. A i w) (settle_all ps)"
  using assms
proof (induction ps arbitrary: A P)
  case Nil
  show ?case by (auto intro!: rg.rg_Ret)
next
  case (Cons p ps)
  let ?C = "\<lambda>w. \<forall>i < length ps. A (Suc i) w"
  let ?Q = "\<lambda>rs w. length rs = length ps \<and> (\<forall>i < length ps. P (Suc i) (rs ! i) w)"
  have p: "rg R R (\<lambda>a. P 0 (Inr a)) (\<lambda>e. P 0 (Inl e)) (A 0) p" using Cons.prems(1) by force
  have rest: "\<forall>i < length ps. rg R R (\<lambda>a. P (Suc i) (Inr a)) (\<lambda>e. P (Suc i) (Inl e)) (A (Suc i)) (ps ! i)"
    using Cons.prems(1) by force
  have C: "stable R ?C" by (rule stable_all_members) (use rest rg_stable in blast)
  note tail = Cons.IH [of "\<lambda>i. P (Suc i)" "\<lambda>i. A (Suc i)", OF rest Cons.prems(2)]
  have Q: "stable R (?Q rs)" for rs
    by (rule stable_conj [OF stable_const stable_all_members]) (rule Cons.prems(2))
  have "rg R R (\<lambda>r w. ?C w \<and> P 0 r w) (\<lambda>_ _. False) (\<lambda>w. A 0 w \<and> ?C w) (settled p)"
    by (rule rg_settled [OF rg_frame [OF p C]]) auto
  then have "rg R R (\<lambda>rs w. length rs = length (p # ps) \<and> (\<forall>i < length (p # ps). P i (rs ! i) w)) (\<lambda>_ _. False)
    (\<lambda>w. A 0 w \<and> ?C w) (settle_all (p # ps))"
    unfolding settle_all.simps
  proof (rule rg_await)
    fix r
    have "rg R R (\<lambda>rs w. ?Q rs w \<and> P 0 r w) (\<lambda>_ _. False) (\<lambda>w. ?C w \<and> P 0 r w) (settle_all ps)"
      by (rule rg_weaken [OF rg_frame [OF tail Cons.prems(2)]]) auto
    then show "rg R R (\<lambda>rs w. length rs = length (p # ps) \<and> (\<forall>i < length (p # ps). P i (rs ! i) w)) (\<lambda>_ _. False)
      (\<lambda>w. ?C w \<and> P 0 r w) (await (settle_all ps) (\<lambda>rs. Ret (r # rs)))"
    proof (rule rg_await)
      fix rs
      show "rg R R (\<lambda>rs w. length rs = length (p # ps) \<and> (\<forall>i < length (p # ps). P i (rs ! i) w)) (\<lambda>_ _. False)
        (\<lambda>w. ?Q rs w \<and> P 0 r w) (Ret (r # rs))"
        by (rule rg.rg_Ret [OF stable_conj [OF Q Cons.prems(2)]]) (auto simp: less_Suc_eq_0_disj)
    qed
  qed
  moreover have "(\<lambda>w. A 0 w \<and> ?C w) = (\<lambda>w. \<forall>i < length (p # ps). A i w)"
    by (auto simp: fun_eq_iff less_Suc_eq_0_disj)
  ultimately show ?case by simp
qed

lemma rg_par:
  assumes "\<forall>i < length ps. rg R R (\<lambda>a. P i (Inr a)) (\<lambda>e. P i (Inl e)) (A i) (ps ! i)" and "\<And>i r. stable R (P i r)"
  shows "rg R R (\<lambda>rs w. length rs = length ps \<and> (\<forall>i < length ps. P i (rs ! i) w)) (\<lambda>_ _. False)
    (\<lambda>w. \<forall>i < length ps. A i w) (par sched ps)"
  using assms(1)
proof (induction sched arbitrary: ps A)
  case Nil
  show ?case unfolding par.simps by (rule rg_settle_all [OF Nil assms(2)])
next
  case (Cons j sched)
  let ?Q = "\<lambda>rs w. length rs = length ps \<and> (\<forall>i < length ps. P i (rs ! i) w)"
  show ?case
  proof (cases "j < length ps \<and> (\<exists>f. ps ! j = Act f)")
    case False
    with Cons.IH [OF Cons.prems] show ?thesis by (auto split: proc.split)
  next
    case True
    then obtain f where j: "j < length ps" and f: "ps ! j = Act f" by blast
    have st: "stable R (A i)" if "i < length ps" for i using Cons.prems that rg_stable by blast
    have "rg R R ?Q (\<lambda>_ _. False) (\<lambda>w. \<forall>i < length ps. A i w)
      (Act (\<lambda>w. map_prod id (\<lambda>p'. par sched (ps[j := p'])) (f w)))"
    proof (rule rg.rg_Act)
      show "stable R (\<lambda>w. \<forall>i < length ps. A i w)" by (rule stable_all_members) (rule st)
    next
      fix w
      assume all: "\<forall>i < length ps. A i w"
      have "rg R R (\<lambda>a. P j (Inr a)) (\<lambda>e. P j (Inl e)) (A j) (Act f)" using Cons.prems j f by auto
      then obtain B where B: "R w (fst (f w))" "B (fst (f w))"
        "rg R R (\<lambda>a. P j (Inr a)) (\<lambda>e. P j (Inl e)) B (snd (f w))"
        by (rule rg_ActE) (use all j in blast)
      let ?A = "A(j := B)" and ?ps = "ps[j := snd (f w)]"
      have "\<forall>i < length ?ps. rg R R (\<lambda>a. P i (Inr a)) (\<lambda>e. P i (Inl e)) (?A i) (?ps ! i)"
        using B(3) Cons.prems by (auto simp: nth_list_update)
      from Cons.IH [OF this]
      have "rg R R ?Q (\<lambda>_ _. False) (\<lambda>w. \<forall>i < length ?ps. ?A i w) (par sched ?ps)" by simp
      moreover have "\<forall>i < length ?ps. ?A i (fst (f w))"
        using all B stableD [OF st _ B(1)] by auto
      ultimately show "R w (fst (map_prod id (\<lambda>p'. par sched (ps[j := p'])) (f w))) \<and>
        (\<exists>B. B (fst (map_prod id (\<lambda>p'. par sched (ps[j := p'])) (f w))) \<and>
          rg R R ?Q (\<lambda>_ _. False) B (snd (map_prod id (\<lambda>p'. par sched (ps[j := p'])) (f w))))"
        using B(1) by (intro conjI exI [of _ "\<lambda>w. \<forall>i < length ?ps. ?A i w"]) (auto simp: case_prod_beta)
    qed
    with j f show ?thesis by simp
  qed
qed

lemma rg_par_moves:
  assumes "\<forall>i < length ps. rg R R (\<lambda>_ _. True) (\<lambda>_ _. True) (A i) (ps ! i)"
  shows "rg R R (\<lambda>_ _. True) (\<lambda>_ _. True) (\<lambda>w. \<forall>i < length ps. A i w) (par sched ps)"
  by (rule rg_weaken [OF rg_par [where P = "\<lambda>_ _ _. True", OF assms stable_const]]) auto

lemma rg_False: "rg R G Q E (\<lambda>_. False) p"
  by (cases p) (auto intro: rg.intros)

text \<open>Fewer interferences to survive.\<close>

lemma stable_antimono: "stable R A \<Longrightarrow> (\<And>w w'. R' w w' \<Longrightarrow> R w w') \<Longrightarrow> stable R' A"
  unfolding stable_def by blast

lemma rg_rely:
  assumes "rg R G Q E A p" and "\<And>w w'. R' w w' \<Longrightarrow> R w w'"
  shows "rg R' G Q E A p"
  using assms(1)
proof (induction rule: rg.induct)
  case (rg_Act A f)
  show ?case
  proof (rule rg.rg_Act)
    show "stable R' A" by (rule stable_antimono [OF rg_Act.hyps assms(2)])
  qed (use rg_Act.IH in blast)
qed (auto intro: rg.rg_Ret rg.rg_Throw stable_antimono [OF _ assms(2)])

section \<open>Functions that only make moves of one relation\<close>

text \<open>
  \<open>moves G p\<close>: every action of \<open>p\<close>, from any state and under any interference, is a move
  of \<open>G\<close>.
\<close>

definition moves :: "('w \<Rightarrow> 'w \<Rightarrow> bool) \<Rightarrow> ('w, 'a) proc \<Rightarrow> bool" where
  "moves G p \<longleftrightarrow> rg (\<lambda>_ _. True) G (\<lambda>_ _. True) (\<lambda>_ _. True) (\<lambda>_. True) p"

lemma moves_Ret [moves_intros]: "moves G (Ret a)"
  unfolding moves_def by (rule rg.rg_Ret) auto

lemma moves_Throw [moves_intros]: "moves G (Throw e)"
  unfolding moves_def by (rule rg.rg_Throw) auto

lemma moves_rethrow [moves_intros]: "moves G (rethrow r)"
  unfolding moves_def by (rule rg_rethrow) auto

lemma moves_sync [moves_intros]: "moves G (sync r)"
  unfolding sync_def by (rule moves_rethrow)

lemma moves_await [moves_intros]: "moves G p \<Longrightarrow> (\<And>x. moves G (k x)) \<Longrightarrow> moves G (await p k)"
  unfolding moves_def by (rule rg_await)

lemma moves_catch [moves_intros]: "moves G p \<Longrightarrow> (\<And>e. moves G (h e)) \<Longrightarrow> moves G (catch p h)"
  unfolding moves_def by (rule rg_catch)

lemma moves_settled [moves_intros]: "moves G p \<Longrightarrow> moves G (settled p)"
  unfolding moves_def by (rule rg_settled) auto

lemma moves_finally [moves_intros]: "moves G p \<Longrightarrow> moves G q \<Longrightarrow> moves G (finally_do p q)"
  unfolding finally_do_def by (intro moves_intros)

lemma moves_atomic: "(\<And>w. G w (fst (f w))) \<Longrightarrow> moves G (atomic f)"
  unfolding moves_def by (rule rg_atomic) (auto simp: fst_conv dest: arg_cong [of _ _ fst], (metis fst_conv)+)

lemma moves_reads [moves_intros]: "(\<And>w. G w w) \<Longrightarrow> moves G (reads f)"
  unfolding moves_def by (rule rg_reads) auto

lemma moves_modifies: "(\<And>w. G w (f w)) \<Longrightarrow> moves G (modifies f)"
  unfolding moves_def by (rule rg_modifies) auto

lemma moves_settle_all [moves_intros]: "(\<And>p. p \<in> set ps \<Longrightarrow> moves G p) \<Longrightarrow> moves G (settle_all ps)"
  by (induction ps) (auto intro: moves_intros)

lemma moves_mono: "moves H p \<Longrightarrow> (\<And>w w'. H w w' \<Longrightarrow> G w w') \<Longrightarrow> moves G p"
  unfolding moves_def by (erule rg_weaken) auto

lemma moves_ActD:
  assumes "moves G (Act f)"
  shows "G w (fst (f w))" and "moves G (snd (f w))"
proof -
  from assms have "G w (fst (f w)) \<and> (\<exists>B. B (fst (f w)) \<and> rg (\<lambda>_ _. True) G (\<lambda>_ _. True) (\<lambda>_ _. True) B (snd (f w)))"
    unfolding moves_def by (rule rg_ActE) blast
  then obtain B where "G w (fst (f w))" "B (fst (f w))"
    and B: "rg (\<lambda>_ _. True) G (\<lambda>_ _. True) (\<lambda>_ _. True) B (snd (f w))" by blast
  then show "G w (fst (f w))" by blast
  have "B v" for v using stableD [OF rg_stable [OF B] \<open>B (fst (f w))\<close>] by blast
  then have "B = (\<lambda>_. True)" by auto
  with B show "moves G (snd (f w))" by (simp add: moves_def)
qed

lemma moves_Act:
  assumes "\<And>w. G w (fst (f w))" and "\<And>w. moves G (snd (f w))"
  shows "moves G (Act f)"
  unfolding moves_def
proof (rule rg.rg_Act)
  fix w
  show "G w (fst (f w)) \<and> (\<exists>B. B (fst (f w)) \<and> rg (\<lambda>_ _. True) G (\<lambda>_ _. True) (\<lambda>_ _. True) B (snd (f w)))"
    using assms [of w] unfolding moves_def by auto
qed simp

lemma moves_par [moves_intros]: "(\<And>p. p \<in> set ps \<Longrightarrow> moves G p) \<Longrightarrow> moves G (par sched ps)"
proof (induction sched arbitrary: ps)
  case Nil
  then show ?case by (simp add: moves_settle_all)
next
  case (Cons i sched)
  show ?case
  proof (cases "i < length ps \<and> (\<exists>f. ps ! i = Act f)")
    case False
    with Cons show ?thesis by (auto split: proc.split)
  next
    case True
    then obtain f where i: "i < length ps" and f: "ps ! i = Act f" by blast
    then have m: "moves G (Act f)" using Cons.prems nth_mem by metis
    have "moves G (Act (\<lambda>w. map_prod id (\<lambda>p'. par sched (ps[i := p'])) (f w)))"
    proof (rule moves_Act)
      fix w
      have "moves G q" if "q \<in> set (ps[i := snd (f w)])" for q
        using that moves_ActD(2) [OF m] Cons.prems set_update_subset_insert [of ps i "snd (f w)"] by blast
      then show "moves G (snd (map_prod id (\<lambda>p'. par sched (ps[i := p'])) (f w)))"
        using Cons.IH [of "ps[i := snd (f w)]"] by (simp add: case_prod_beta)
    qed (simp add: moves_ActD(1) [OF m])
    with i f show ?thesis by simp
  qed
qed

lemma moves_Promise_all [moves_intros]:
  "(\<And>p. p \<in> set ps \<Longrightarrow> moves G p) \<Longrightarrow> moves G (Promise_all sched ps)"
  unfolding Promise_all_def
  by (intro moves_await moves_par) (auto split: option.split sum.split intro: moves_intros)

text \<open>What is shown of all moves may be added to what is shown under an assertion.\<close>

lemma rg_both:
  assumes "rg R G Q E A p" and "moves F p"
  shows "rg R (\<lambda>w w'. G w w' \<and> F w w') Q E A p"
  using assms
proof (induction rule: rg.induct)
  case (rg_Act A f)
  show ?case
  proof (rule rg.rg_Act)
    fix w
    assume "A w"
    with rg_Act.IH moves_ActD [OF rg_Act.prems, of w]
    show "(G w (fst (f w)) \<and> F w (fst (f w))) \<and>
      (\<exists>B. B (fst (f w)) \<and> rg R (\<lambda>w w'. G w w' \<and> F w w') Q E B (snd (f w)))" by blast
  qed (rule rg_Act.hyps)
qed (auto intro: rg.rg_Ret rg.rg_Throw)

lemma moves_both: "moves G p \<Longrightarrow> moves F p \<Longrightarrow> moves (\<lambda>w w'. G w w' \<and> F w w') p"
  unfolding moves_def [of G] moves_def [of "\<lambda>w w'. G w w' \<and> F w w'"] by (rule rg_both)

text \<open>Run alone, such a function is a chain of moves.\<close>

lemma moves_run:
  assumes "moves G p" and "run p w = (w', x)"
  shows "G\<^sup>*\<^sup>* w w'"
  using assms
proof (induction p arbitrary: w)
  case (Act f)
  obtain w1 q where f: "f w = (w1, q)" by force
  then have "run q w1 = (w', x)" using Act.prems(2) by (simp add: run_Act)
  moreover have "moves G q" using moves_ActD(2) [OF Act.prems(1), of w] f by simp
  ultimately have "G\<^sup>*\<^sup>* w1 w'" using Act.IH [OF f] by blast
  moreover have "G w w1" using moves_ActD(1) [OF Act.prems(1), of w] f by simp
  ultimately show ?case by (rule converse_rtranclp_into_rtranclp [rotated])
qed auto

text \<open>Such a function keeps every assertion that the moves keep.\<close>

lemma moves_rg:
  assumes "moves G p" and "stable G A"
  shows "rg G G (\<lambda>_. A) (\<lambda>_. A) A p"
proof -
  have "rg G G (\<lambda>_ _. True) (\<lambda>_ _. True) (\<lambda>_. True) p"
    using assms(1) unfolding moves_def by (rule rg_rely) simp
  from rg_frame [OF this assms(2)] show ?thesis by simp
qed

text \<open>The same beside others, when neither side touches what the assertion speaks of.\<close>

lemma moves_keep:
  assumes "moves H p" and "stable R A" and "stable H A" and "\<And>w w'. H w w' \<Longrightarrow> G w w'"
  shows "rg R G (\<lambda>_. A) (\<lambda>_. A) A p"
proof -
  have "rg R H (\<lambda>_ _. True) (\<lambda>_ _. True) (\<lambda>_. True) p"
    using assms(1) unfolding moves_def by (rule rg_rely) simp
  from rg_keep [OF this assms(2,3)] have "rg R H (\<lambda>_. A) (\<lambda>_. A) A p" by simp
  then show ?thesis by (rule rg_weaken) (use assms(4) in auto)
qed

lemma rg_await_moves:
  assumes "moves H p" and "stable R A" and "stable H A" and "\<And>w w'. H w w' \<Longrightarrow> G w w'" and "\<And>x. rg R G Q (\<lambda>_ _. True) A (k x)"
  shows "rg R G Q (\<lambda>_ _. True) A (await p k)"
proof (rule rg_await)
  show "rg R G (\<lambda>_. A) (\<lambda>_ _. True) A p"
    by (rule rg_weaken [OF moves_keep [OF assms(1-4)]]) auto
qed (rule assms(5))

section \<open>Every interleaving\<close>

text \<open>
  The interface between the processes of a pool: what process \<open>i\<close> guarantees is among what
  every other process relies on, and so are the moves of the environment.
\<close>

locale compatible =
  fixes R G :: "nat \<Rightarrow> 'w \<Rightarrow> 'w \<Rightarrow> bool" and env :: "'w \<Rightarrow> 'w \<Rightarrow> bool"
  assumes others: "i \<noteq> j \<Longrightarrow> G j w w' \<Longrightarrow> R i w w'"
    and outside: "env w w' \<Longrightarrow> R i w w'"
begin

definition holding ::
  "(nat \<Rightarrow> 'a \<Rightarrow> 'w \<Rightarrow> bool) \<Rightarrow> (nat \<Rightarrow> exn \<Rightarrow> 'w \<Rightarrow> bool) \<Rightarrow> 'w \<times> ('w, 'a) proc list \<Rightarrow> bool" where
  "holding Q E c = (\<forall>i < length (snd c). \<exists>A. A (fst c) \<and> rg (R i) (G i) (Q i) (E i) A (snd c ! i))"

lemma holdingD:
  "holding Q E (w, ps) \<Longrightarrow> i < length ps \<Longrightarrow>
    (\<And>A. A w \<Longrightarrow> rg (R i) (G i) (Q i) (E i) A (ps ! i) \<Longrightarrow> P) \<Longrightarrow> P"
  unfolding holding_def by auto

lemma holding_step:
  assumes "pool_step env c c'" and "holding Q E c"
  shows "holding Q E c' \<and> length (snd c') = length (snd c) \<and>
    (env (fst c) (fst c') \<or> (\<exists>i < length (snd c). G i (fst c) (fst c')))"
  using assms(1)
proof (cases rule: pool_step.cases)
  case (pool_run i ps f w w' p')
  note c = pool_run(1,2) and i = pool_run(3) and p = pool_run(4) and f = pool_run(5)
  from assms(2) have h: "holding Q E (w, ps)" by (simp only: c)
  obtain A where A: "A w" "rg (R i) (G i) (Q i) (E i) A (ps ! i)"
    using holdingD [OF h i] by blast
  then have "G i w (fst (f w)) \<and> (\<exists>B. B (fst (f w)) \<and> rg (R i) (G i) (Q i) (E i) B (snd (f w)))"
    unfolding p by (elim rg_ActE) blast
  then obtain B where G: "G i w w'" and B: "B w'" "rg (R i) (G i) (Q i) (E i) B p'"
    unfolding f by auto
  have "\<exists>A. A w' \<and> rg (R j) (G j) (Q j) (E j) A (ps[i := p'] ! j)" if j: "j < length ps" for j
  proof (cases "j = i")
    case True
    with B j show ?thesis by auto
  next
    case False
    obtain C where C: "C w" "rg (R j) (G j) (Q j) (E j) C (ps ! j)"
      using holdingD [OF h j] by blast
    from False G have "R j w w'" by (intro others) auto
    with C have "C w'" using stableD [OF rg_stable [OF C(2)]] by blast
    with C False show ?thesis by auto
  qed
  with G i show ?thesis unfolding c holding_def by auto
next
  case (pool_env w w' ps)
  note c = pool_env(1,2)
  from assms(2) have h: "holding Q E (w, ps)" by (simp only: c)
  have "\<exists>A. A w' \<and> rg (R j) (G j) (Q j) (E j) A (ps ! j)" if j: "j < length ps" for j
  proof -
    obtain C where C: "C w" "rg (R j) (G j) (Q j) (E j) C (ps ! j)"
      using holdingD [OF h j] by blast
    with outside [OF pool_env(3)] have "C w'" using stableD [OF rg_stable [OF C(2)]] by blast
    with C show ?thesis by auto
  qed
  with pool_env(3) show ?thesis unfolding c holding_def by auto
qed

lemma holding_steps:
  assumes "pool_steps env c c'" and "holding Q E c"
  shows "holding Q E c' \<and> length (snd c') = length (snd c)"
  using assms
proof (induction rule: pool_steps_induct)
  case (step d d')
  then show ?case using holding_step [of d d'] by auto
qed simp

lemma steps_invariant:
  assumes "pool_steps env c c'" and "holding Q E c" and "I (fst c)"
    and "\<And>i w w'. I w \<Longrightarrow> G i w w' \<Longrightarrow> I w'" and "\<And>w w'. I w \<Longrightarrow> env w w' \<Longrightarrow> I w'"
  shows "I (fst c')"
  using assms(1,2,3)
proof (induction rule: pool_steps_induct)
  case (step d d')
  then have "holding Q E d" and "I (fst d)" using holding_steps by blast+
  with holding_step [OF step.hyps(2)] assms(4,5) show ?case by blast
qed

text \<open>What the result of a finished process says about the current world.\<close>

lemma finished_returned:
  assumes "pool_steps env (w, ps) (w', ps')" and "holding Q E (w, ps)"
    and "i < length ps" and "ps' ! i = Ret a"
  shows "Q i a w'"
proof -
  from holding_steps [OF assms(1,2)] have "holding Q E (w', ps')" and "i < length ps'"
    using assms(3) by simp_all
  then obtain A where "A w'" "rg (R i) (G i) (Q i) (E i) A (ps' ! i)" using holdingD by blast
  with assms(4) show ?thesis by (auto elim: rg_RetE)
qed

lemma finished_threw:
  assumes "pool_steps env (w, ps) (w', ps')" and "holding Q E (w, ps)"
    and "i < length ps" and "ps' ! i = Throw e"
  shows "E i e w'"
proof -
  from holding_steps [OF assms(1,2)] have "holding Q E (w', ps')" and "i < length ps'"
    using assms(3) by simp_all
  then obtain A where "A w'" "rg (R i) (G i) (Q i) (E i) A (ps' ! i)" using holdingD by blast
  with assms(4) show ?thesis by (auto elim: rg_ThrowE)
qed

end

end
