(* ===== verification/Services.thy ===== *)
theory Services imports Types Rely_Guarantee begin

text \<open>
  What the engine is built on and does not contain: the Redis server and its client
  library, PostgreSQL through Prisma, the files of the Lua scripts.  They are parameters
  of the model: records of operations on an uninterpreted state.  The locales state the
  documented behaviour the sources rely on; nothing else is assumed.  A command can fail:
  its reply is \<open>exn + 'a\<close>, and \<open>delivers\<close> says that a failed command was either not
  executed or was executed and its answer lost.
\<close>

section \<open>Redis\<close>

text \<open>RESP replies of scripts: an integer or an array of integers.\<close>

datatype reply = RInt int | RArr "int list"

text \<open>The commands as the server executes them, for clients and for \<open>redis.call\<close> in scripts.\<close>

record 'r redis_server =
  GET :: "string \<Rightarrow> 'r \<Rightarrow> string option"
  SET_EX :: "string \<Rightarrow> string \<Rightarrow> int \<Rightarrow> 'r \<Rightarrow> 'r"
  SET_PX_NX :: "string \<Rightarrow> string \<Rightarrow> int \<Rightarrow> 'r \<Rightarrow> 'r \<times> bool"
  DEL :: "string \<Rightarrow> 'r \<Rightarrow> 'r \<times> int"
  TIME :: "'r \<Rightarrow> int"
  ZREMRANGEBYSCORE :: "string \<Rightarrow> int \<Rightarrow> int \<Rightarrow> 'r \<Rightarrow> 'r"
  ZADD :: "string \<Rightarrow> int \<Rightarrow> string \<Rightarrow> 'r \<Rightarrow> 'r"
  EXPIRE :: "string \<Rightarrow> int \<Rightarrow> 'r \<Rightarrow> 'r"
  ZCARD :: "string \<Rightarrow> 'r \<Rightarrow> int"
  cjson_encode :: "(string \<times> json) list \<Rightarrow> string"
  cjson_decode :: "string \<Rightarrow> json option"

text \<open>A stream entry is an id and field-value pairs; replies carry the pairs as a flat list.\<close>

type_synonym stream_entry = "string \<times> (string \<times> string) list"

definition flat_entry :: "stream_entry \<Rightarrow> string \<times> string list" where
  "flat_entry e = (fst e, concat (map (\<lambda>(f, v). [f, v]) (snd e)))"

text \<open>
  The commands as the client library (ioredis) offers them, over the network.  \<open>None\<close> as the
  answer of \<open>SCRIPT LOAD\<close> is a reply that is not a string.
\<close>

record 'r redis_client =
  c_get :: "string \<Rightarrow> 'r \<Rightarrow> 'r \<times> (exn + string option)"
  c_set_ex :: "string \<Rightarrow> string \<Rightarrow> int \<Rightarrow> 'r \<Rightarrow> 'r \<times> (exn + unit)"
  c_set_px_nx :: "string \<Rightarrow> string \<Rightarrow> int \<Rightarrow> 'r \<Rightarrow> 'r \<times> (exn + bool)"
  c_del :: "string \<Rightarrow> 'r \<Rightarrow> 'r \<times> (exn + int)"
  c_script_load :: "string \<Rightarrow> 'r \<Rightarrow> 'r \<times> (exn + string option)"
  c_evalsha :: "string \<Rightarrow> string list \<Rightarrow> string list \<Rightarrow> 'r \<Rightarrow> 'r \<times> (exn + reply)"
  c_eval :: "string \<Rightarrow> string list \<Rightarrow> string list \<Rightarrow> 'r \<Rightarrow> 'r \<times> (exn + reply)"
  c_publish :: "string \<Rightarrow> string \<Rightarrow> 'r \<Rightarrow> 'r \<times> (exn + int)"
  c_xadd :: "string \<Rightarrow> (string \<times> string) list \<Rightarrow> 'r \<Rightarrow> 'r \<times> (exn + string)"
  c_xgroup_create :: "string \<Rightarrow> string \<Rightarrow> 'r \<Rightarrow> 'r \<times> (exn + unit)"
  c_xreadgroup :: "string \<Rightarrow> string \<Rightarrow> string \<Rightarrow> nat \<Rightarrow> nat \<Rightarrow> 'r \<Rightarrow> 'r \<times> (exn + (string \<times> (string \<times> string list) list) list option)"
  c_xautoclaim :: "string \<Rightarrow> string \<Rightarrow> string \<Rightarrow> nat \<Rightarrow> nat \<Rightarrow> 'r \<Rightarrow> 'r \<times> (exn + (string \<times> string list) list)"
  c_xack :: "string \<Rightarrow> string \<Rightarrow> string \<Rightarrow> 'r \<Rightarrow> 'r \<times> (exn + int)"

datatype LuaScriptName = slidingWindow | releaseMutex | atomicSeatLock | releaseSeatScript

text \<open>The test by which the services recognise the reply to an unknown script digest.\<close>

definition isNoscriptError :: "exn \<Rightarrow> bool" where
  "isNoscriptError error = js_includes (js_upper (exn_message error)) ''NOSCRIPT''"

definition delivers :: "'r \<Rightarrow> 'r \<times> (exn + 'a) \<Rightarrow> 'r \<times> (exn + 'a) \<Rightarrow> bool" where
  "delivers r executed answer \<longleftrightarrow>
     answer = executed \<or>
     (\<exists>e. \<not> isNoscriptError e \<and> (answer = (r, Inl e) \<or> answer = (fst executed, Inl e)))"

lemma delivers_Inr: "delivers r executed (r', Inr a) \<Longrightarrow> executed = (r', Inr a)"
  by (auto simp: delivers_def)

lemma delivers_state: "delivers r executed (r', x) \<Longrightarrow> r' = r \<or> r' = fst executed"
  by (auto simp: delivers_def)

lemma delivers_refl [simp]: "delivers r x x"
  by (simp add: delivers_def)

section \<open>PostgreSQL through Prisma\<close>

text \<open>
  Reads leave the state alone.  The two transaction fields are \<open>prisma.$transaction\<close> at the
  result types the sources use; their argument is the callback, run on the transaction's
  client.
\<close>

record 'd prisma_client =
  pc_event_with_seat :: "string \<Rightarrow> string \<Rightarrow> 'd \<Rightarrow> exn + (event_row \<times> seat_row list) option"
  pc_event_with_seats :: "string \<Rightarrow> 'd \<Rightarrow> exn + (event_row \<times> seat_row list) option"
  pc_order_findUnique :: "string \<Rightarrow> 'd \<Rightarrow> exn + order_row option"
  pc_seat_updateMany :: "string \<Rightarrow> string \<Rightarrow> SeatState \<Rightarrow> SeatState \<Rightarrow> 'd \<Rightarrow> 'd \<times> (exn + nat)"
  pc_order_create :: "order_data \<Rightarrow> 'd \<Rightarrow> 'd \<times> (exn + order_row)"
  pc_order_update :: "string \<Rightarrow> OrderStatus \<Rightarrow> 'd \<Rightarrow> 'd \<times> (exn + order_row)"
  pc_transaction_order :: "('d \<Rightarrow> 'd \<times> (exn + order_row)) \<Rightarrow> 'd \<Rightarrow> 'd \<times> (exn + order_row)"
  pc_transaction_void :: "('d \<Rightarrow> 'd \<times> (exn + unit)) \<Rightarrow> 'd \<Rightarrow> 'd \<times> (exn + unit)"

section \<open>The shared world and the bundle of services\<close>

text \<open>
  \<open>w_digests\<close>, \<open>w_adapter_connected\<close> and \<open>w_consumer_running\<close> are module-level variables of
  a process; \<open>w_sent\<close> is the trace of the messages whose publication Redis confirmed, with
  their channels; \<open>w_clock\<close> is what \<open>Date.now()\<close> reads.
\<close>

record ('r, 'd) world =
  w_redis :: 'r
  w_db :: 'd
  w_clock :: int
  w_digests :: "LuaScriptName \<Rightarrow> string option"
  w_adapter_connected :: bool
  w_consumer_running :: bool
  w_sent :: "(string \<times> string) list"

record ('r, 'd) services =
  redis :: "'r redis_client"
  prisma :: "'d prisma_client"
  scriptFile :: "LuaScriptName \<Rightarrow> exn + string"

text \<open>One awaited command on Redis or on the database, the clock, and a read of the world.\<close>

definition redis_do :: "('r \<Rightarrow> 'r \<times> (exn + 'a)) \<Rightarrow> (('r, 'd) world, 'a) proc" where
  "redis_do c = atomic (\<lambda>w. case c (w_redis w) of (r, x) \<Rightarrow> (w\<lparr>w_redis := r\<rparr>, x))"

definition db_do :: "('d \<Rightarrow> 'd \<times> (exn + 'a)) \<Rightarrow> (('r, 'd) world, 'a) proc" where
  "db_do c = atomic (\<lambda>w. case c (w_db w) of (d, x) \<Rightarrow> (w\<lparr>w_db := d\<rparr>, x))"

definition db_read :: "('d \<Rightarrow> exn + 'a) \<Rightarrow> (('r, 'd) world, 'a) proc" where
  "db_read c = atomic (\<lambda>w. (w, c (w_db w)))"

definition Date_now :: "(('r, 'd) world, int) proc" where
  "Date_now = reads w_clock"

lemma run_redis_do [run_simps]:
  "run (redis_do c) w = (case c (w_redis w) of (r, x) \<Rightarrow> (w\<lparr>w_redis := r\<rparr>, x))"
  by (simp add: redis_do_def run_atomic)

lemma run_db_do [run_simps]:
  "run (db_do c) w = (case c (w_db w) of (d, x) \<Rightarrow> (w\<lparr>w_db := d\<rparr>, x))"
  by (simp add: db_do_def run_atomic)

lemma run_db_read [run_simps]: "run (db_read c) w = (w, c (w_db w))"
  by (simp add: db_read_def run_atomic)

lemma run_Date_now [run_simps]: "run Date_now w = (w, Inr (w_clock w))"
  by (simp add: Date_now_def run_reads)

section \<open>Contracts\<close>

text \<open>
  String keys with a time to live.  \<open>pttl\<close> is the remaining life in milliseconds and
  \<open>elapse n\<close> lets \<open>n\<close> milliseconds pass (no command runs, expired keys disappear).
  What the encoder of the scripts writes, its decoder reads back, up to the order of
  the members.
\<close>

definition same_members :: "(string \<times> json) list \<Rightarrow> (string \<times> json) list \<Rightarrow> bool" where
  "same_members kvs kvs' \<longleftrightarrow> map_of (rev kvs) = map_of (rev kvs')"

locale redis_strings =
  fixes S :: "'r redis_server"
    and pttl :: "string \<Rightarrow> 'r \<Rightarrow> nat option"
    and elapse :: "nat \<Rightarrow> 'r \<Rightarrow> 'r"
  assumes get_set_ex: "0 < t \<Longrightarrow> GET S k' (SET_EX S k v t r) = (if k' = k then Some v else GET S k' r)"
    and pttl_set_ex: "0 < t \<Longrightarrow> pttl k' (SET_EX S k v t r) = (if k' = k then Some (nat t * 1000) else pttl k' r)"
    and set_px_nx: "0 < t \<Longrightarrow> SET_PX_NX S k v t r = (r', ok) \<Longrightarrow>
      (if GET S k r = None
       then ok \<and> (\<forall>k'. GET S k' r' = (if k' = k then Some v else GET S k' r)) \<and>
         (\<forall>k'. pttl k' r' = (if k' = k then Some (nat t) else pttl k' r))
       else \<not> ok \<and> r' = r)"
    and del: "GET S k r \<noteq> None \<Longrightarrow> DEL S k r = (r', cnt) \<Longrightarrow>
      cnt = 1 \<and> (\<forall>k'. GET S k' r' = (if k' = k then None else GET S k' r)) \<and>
      (\<forall>k'. k' \<noteq> k \<longrightarrow> pttl k' r' = pttl k' r)"
    and del_missing: "GET S k r = None \<Longrightarrow> DEL S k r = (r', cnt) \<Longrightarrow>
      cnt = 0 \<and> (\<forall>k'. GET S k' r' = GET S k' r) \<and> (\<forall>k'. pttl k' r' = pttl k' r)"
    and get_elapse: "GET S k (elapse n r) =
      (case pttl k r of Some t \<Rightarrow> (if t \<le> n then None else GET S k r) | None \<Rightarrow> GET S k r)"
    and pttl_elapse: "GET S k (elapse n r) \<noteq> None \<Longrightarrow> pttl k (elapse n r) = map_option (\<lambda>t. t - n) (pttl k r)"
    and cjson: "\<exists>kvs'. cjson_decode S (cjson_encode S kvs) = Some (JObj kvs') \<and> same_members kvs kvs'"

text \<open>
  The tables the order flow touches.  Seats are looked up by \<open>id\<close>, orders by their unique
  \<open>holdId\<close>, events by \<open>id\<close>.  A statement that fails changes nothing.  A transaction runs
  its callback on the current state; it commits what the callback did, or changes nothing
  and rejects, with the callback's error if the callback threw.
\<close>

locale prisma_tables =
  fixes P :: "'d prisma_client"
    and seats :: "'d \<Rightarrow> string \<Rightarrow> seat_row option"
    and orders :: "'d \<Rightarrow> string \<Rightarrow> order_row option"
    and events :: "'d \<Rightarrow> string \<Rightarrow> event_row option"
  assumes event_with_seat: "pc_event_with_seat P ev sid d = Inr found \<Longrightarrow>
      found = (case events d ev of
             None \<Rightarrow> None
           | Some e \<Rightarrow> Some (e, case seats d sid of
               Some s \<Rightarrow> if seat_eventId s = ev then [s] else [] | None \<Rightarrow> []))"
    and order_findUnique: "pc_order_findUnique P h d = Inr found_order \<Longrightarrow> found_order = orders d h"
    and seat_update: "pc_seat_updateMany P sid ev st st' d = (d', Inr n) \<Longrightarrow>
      orders d' = orders d \<and> events d' = events d \<and>
      (case seats d sid of
         Some s \<Rightarrow>
           (if seat_eventId s = ev \<and> seat_status s = st
            then n = 1 \<and> seats d' = (seats d)(sid \<mapsto> s\<lparr>seat_status := st'\<rparr>)
            else n = 0 \<and> seats d' = seats d)
       | None \<Rightarrow> n = 0 \<and> seats d' = seats d)"
    and seat_update_fail: "pc_seat_updateMany P sid ev st st' d = (d', Inl e) \<Longrightarrow> d' = d"
    and order_create: "pc_order_create P data d = (d', Inr row) \<Longrightarrow>
      orders d (ord_holdId data) = None \<and> order_data.truncate row = data \<and>
      orders d' = (orders d)(ord_holdId data \<mapsto> row) \<and> seats d' = seats d \<and> events d' = events d"
    and order_create_fail: "pc_order_create P data d = (d', Inl e) \<Longrightarrow> d' = d"
    and order_update: "pc_order_update P h ost d = (d', Inr row) \<Longrightarrow>
      (\<exists>o'. orders d h = Some o' \<and> row = o'\<lparr>ord_status := ost\<rparr> \<and> orders d' = (orders d)(h \<mapsto> row)) \<and>
      seats d' = seats d \<and> events d' = events d"
    and order_update_fail: "pc_order_update P h ost d = (d', Inl e) \<Longrightarrow> d' = d"
    and transaction_order: "pc_transaction_order P body d = (d', x) \<Longrightarrow>
      (d', x) = body d \<and> isInr x \<or> (d' = d \<and> \<not> isInr x)"
    and transaction_order_throw: "body d = (d1, Inl e) \<Longrightarrow> pc_transaction_order P body d = (d', x) \<Longrightarrow>
      x = Inl e \<or> (\<exists>m. x = Inl (JsError m))"
    and transaction_void: "pc_transaction_void P bodyv d = (d', y) \<Longrightarrow>
      (d', y) = bodyv d \<and> isInr y \<or> (d' = d \<and> \<not> isInr y)"
    and transaction_void_throw: "bodyv d = (d1, Inl e) \<Longrightarrow> pc_transaction_void P bodyv d = (d', y) \<Longrightarrow>
      y = Inl e \<or> (\<exists>m. y = Inl (JsError m))"
    and hold_key: "orders d h = Some row \<Longrightarrow> ord_holdId row = h"
    and seat_key: "seats d sid = Some s \<Longrightarrow> seat_id s = sid"

end
