(* ===== verification/Lua_Scripts.thy ===== *)
theory Lua_Scripts imports Services begin

text \<open>
  The four scripts of \<open>src/src/scripts/lua/\<close>.  Redis runs a script without interruption,
  so each is a function of the server state: it returns the new state and its reply, or
  the error it stopped with.  \<open>KEYS\<close> and \<open>ARGV\<close> are lists of strings; the contract
  \<open>redis_remote\<close> ties \<open>EVALSHA\<close> and \<open>EVAL\<close> to them.
\<close>

section \<open>Lua values\<close>

text \<open>
  What \<open>cjson.decode\<close> returns is a JSON value.  Reading a field of a table gives \<open>nil\<close>
  when it is missing; of a string too; of a number, a boolean or \<open>cjson.null\<close> it raises.
\<close>

fun lua_field :: "json \<Rightarrow> string \<Rightarrow> exn + json option" where
  "lua_field (JObj kvs) k = Inr (map_of (rev kvs) k)"
| "lua_field (JArr vs) k = Inr None"
| "lua_field (JStr s) k = Inr None"
| "lua_field _ k = Inl (JsError ''ERR attempt to index a non-table value'')"

definition lua_truthy :: "json \<Rightarrow> bool" where
  "lua_truthy v \<longleftrightarrow> v \<noteq> JBool False"

definition cjson_error :: exn where
  "cjson_error = JsError ''ERR cjson could not decode the value''"

definition arity_error :: exn where
  "arity_error = JsError ''ERR bad argument''"

section \<open>atomic\_seat\_lock.lua\<close>

definition held_members :: "string \<Rightarrow> string \<Rightarrow> int \<Rightarrow> int \<Rightarrow> (string \<times> json) list" where
  "held_members user_id hold_id created expires =
     [(''status'', JStr ''HELD''), (''userId'', JStr user_id), (''holdId'', JStr hold_id),
      (''createdAt'', JNum created), (''expiresAt'', JNum expires)]"

fun atomic_seat_lock :: "'r redis_server \<Rightarrow> string list \<Rightarrow> string list \<Rightarrow> 'r \<Rightarrow> 'r \<times> (exn + reply)" where
  "atomic_seat_lock S (key # _) (user_id # hold_id # ttl # _) r =
     (case tonumber ttl of
        None \<Rightarrow> (r, Inr (RInt 0))
      | Some ttl_seconds \<Rightarrow>
          (if ttl_seconds \<le> 0 then (r, Inr (RInt 0))
           else
             (case GET S key r of
                None \<Rightarrow>
                  (let payload = cjson_encode S
                         (held_members user_id hold_id (TIME S r) (TIME S r + ttl_seconds))
                   in (SET_EX S key payload ttl_seconds r, Inr (RInt 1)))
              | Some current_value \<Rightarrow>
                  (case cjson_decode S current_value of
                     None \<Rightarrow> (r, Inl cjson_error)
                   | Some parsed \<Rightarrow>
                       (if lua_truthy parsed
                        then (case lua_field parsed ''status'' of
                                Inl e \<Rightarrow> (r, Inl e)
                              | Inr _ \<Rightarrow> (r, Inr (RInt 0)))
                        else (r, Inr (RInt 0)))))))"
| "atomic_seat_lock S _ _ r = (r, Inl arity_error)"

section \<open>release\_seat.lua\<close>

text \<open>
  The guard \<open>parsed and parsed.status == 'HELD' and parsed.userId == user\_id and \<dots>\<close>.
\<close>

definition owned_hold :: "json \<Rightarrow> string \<Rightarrow> string \<Rightarrow> exn + bool" where
  "owned_hold parsed user_id hold_id =
     (if \<not> lua_truthy parsed then Inr False
      else bindE (lua_field parsed ''status'') (\<lambda>status.
           bindE (lua_field parsed ''userId'') (\<lambda>user.
           bindE (lua_field parsed ''holdId'') (\<lambda>hold.
             Inr (status = Some (JStr ''HELD'') \<and> user = Some (JStr user_id) \<and>
                  hold = Some (JStr hold_id))))))"

fun release_seat :: "'r redis_server \<Rightarrow> string list \<Rightarrow> string list \<Rightarrow> 'r \<Rightarrow> 'r \<times> (exn + reply)" where
  "release_seat S (key # _) (user_id # hold_id # _) r =
     (case GET S key r of
        None \<Rightarrow> (r, Inr (RInt 0))
      | Some current_value \<Rightarrow>
          (case cjson_decode S current_value of
             None \<Rightarrow> (r, Inl cjson_error)
           | Some parsed \<Rightarrow>
               (case owned_hold parsed user_id hold_id of
                  Inl e \<Rightarrow> (r, Inl e)
                | Inr owned \<Rightarrow>
                    (if owned then (case DEL S key r of (r', n) \<Rightarrow> (r', Inr (RInt n)))
                     else (r, Inr (RInt 0))))))"
| "release_seat S _ _ r = (r, Inl arity_error)"

section \<open>release\_mutex.lua\<close>

fun release_mutex :: "'r redis_server \<Rightarrow> string list \<Rightarrow> string list \<Rightarrow> 'r \<Rightarrow> 'r \<times> (exn + reply)" where
  "release_mutex S (key # _) (token # _) r =
     (if GET S key r = Some token then (case DEL S key r of (r', n) \<Rightarrow> (r', Inr (RInt n)))
      else (r, Inr (RInt 0)))"
| "release_mutex S _ _ r = (r, Inl arity_error)"

section \<open>sliding\_window.lua\<close>

fun sliding_window :: "'r redis_server \<Rightarrow> string list \<Rightarrow> string list \<Rightarrow> 'r \<Rightarrow> 'r \<times> (exn + reply)" where
  "sliding_window S (key # _) (arg_now # arg_window # arg_limit # member # arg_ttl # _) r =
     (case (tonumber arg_now, tonumber arg_window, tonumber arg_limit, tonumber arg_ttl) of
        (Some now, Some window, Some limit, Some ttl_seconds) \<Rightarrow>
          (let window_start = now - window;
               r1 = ZREMRANGEBYSCORE S key 0 window_start r;
               r2 = ZADD S key now member r1;
               r3 = EXPIRE S key ttl_seconds r2;
               request_count = ZCARD S key r3;
               allowed = (if request_count \<le> limit then 1 else 0);
               remaining = max (limit - request_count) 0;
               reset_at = now + window
           in (r3, Inr (RArr [allowed, remaining, reset_at, request_count])))
      | _ \<Rightarrow> (r, Inl arity_error))"
| "sliding_window S _ _ r = (r, Inl arity_error)"

fun lua_script :: "'r redis_server \<Rightarrow> LuaScriptName \<Rightarrow> string list \<Rightarrow> string list \<Rightarrow> 'r \<Rightarrow> 'r \<times> (exn + reply)" where
  "lua_script S slidingWindow = sliding_window S"
| "lua_script S releaseMutex = release_mutex S"
| "lua_script S atomicSeatLock = atomic_seat_lock S"
| "lua_script S releaseSeatScript = release_seat S"

section \<open>Scripts over the network\<close>

text \<open>
  The client's commands deliver what the server's do.  \<open>EVALSHA\<close> with the digest of a
  script file runs that script, or replies \<open>NOSCRIPT\<close> and runs nothing (the server keeps
  the scripts in a volatile cache); \<open>EVAL\<close> with the text always runs it; \<open>SCRIPT LOAD\<close>
  answers the digest and changes no key.
\<close>

locale redis_remote = redis_strings S pttl elapse
  for S :: "'r redis_server" and pttl and elapse +
  fixes svc :: "('r, 'd) services" and sha1 :: "string \<Rightarrow> string"
  assumes evalsha_remote: "scriptFile svc nm = Inr text \<Longrightarrow>
      delivers r (lua_script S nm keys args r) (c_evalsha (redis svc) (sha1 text) keys args r) \<or>
      (\<exists>e. isNoscriptError e \<and> c_evalsha (redis svc) (sha1 text) keys args r = (r, Inl e))"
    and eval_remote: "scriptFile svc nm = Inr text \<Longrightarrow>
      delivers r (lua_script S nm keys args r) (c_eval (redis svc) text keys args r)"
    and script_load_remote: "c_script_load (redis svc) text r = (r', answer) \<Longrightarrow>
      (\<forall>d. answer = Inr (Some d) \<longrightarrow> d = sha1 text) \<and> (\<forall>k. GET S k r' = GET S k r) \<and> (\<forall>k. pttl k r' = pttl k r)"
    and get_remote: "delivers r (r, Inr (GET S k r)) (c_get (redis svc) k r)"
    and set_ex_remote: "delivers r (SET_EX S k v t r, Inr ()) (c_set_ex (redis svc) k v t r)"
    and set_px_nx_remote: "delivers r (map_prod id Inr (SET_PX_NX S k v t r)) (c_set_px_nx (redis svc) k v t r)"
    and del_remote: "delivers r (map_prod id Inr (DEL S k r)) (c_del (redis svc) k r)"

text \<open>The digests a process registered are those of the script files.\<close>

definition registered :: "('r, 'd) services \<Rightarrow> (string \<Rightarrow> string) \<Rightarrow> ('r, 'd) world \<Rightarrow> bool" where
  "registered svc sha1 w \<longleftrightarrow>
     (\<forall>nm. \<exists>text. scriptFile svc nm = Inr text \<and> w_digests w nm = Some (sha1 text))"

lemma registeredE:
  assumes "registered svc sha1 w"
  obtains source where "scriptFile svc nm = Inr source" "w_digests w nm = Some (sha1 source)"
  using assms unfolding registered_def by blast

section \<open>What a hold looks like\<close>

text \<open>The value under a seat key is the record of a hold of that user with that hold id.\<close>

definition hold_value :: "'r redis_server \<Rightarrow> string \<Rightarrow> string \<Rightarrow> string \<Rightarrow> bool" where
  "hold_value S v user_id hold_id \<longleftrightarrow>
     (\<exists>kvs. cjson_decode S v = Some (JObj kvs) \<and> map_of (rev kvs) ''status'' = Some (JStr ''HELD'') \<and>
        map_of (rev kvs) ''userId'' = Some (JStr user_id) \<and> map_of (rev kvs) ''holdId'' = Some (JStr hold_id))"

definition held_by :: "'r redis_server \<Rightarrow> string \<Rightarrow> string \<Rightarrow> string \<Rightarrow> 'r \<Rightarrow> bool" where
  "held_by S key user_id hold_id r \<longleftrightarrow> (\<exists>v. GET S key r = Some v \<and> hold_value S v user_id hold_id)"

lemma hold_value_unique: "hold_value S v u h \<Longrightarrow> hold_value S v u' h' \<Longrightarrow> u = u' \<and> h = h'"
  by (auto simp: hold_value_def)

lemma held_by_unique: "held_by S k u h r \<Longrightarrow> held_by S k u' h' r \<Longrightarrow> u = u' \<and> h = h'"
  by (auto simp: held_by_def dest: hold_value_unique)

lemma owned_hold_value:
  assumes "cjson_decode S v = Some (JObj kvs)"
  shows "owned_hold (JObj kvs) user_id hold_id = Inr (hold_value S v user_id hold_id)"
  using assms by (auto simp: owned_hold_def hold_value_def lua_truthy_def)

text \<open>Every value under a seat key was written by \<open>atomic_seat_lock\<close>.\<close>

definition well_held :: "'r redis_server \<Rightarrow> string \<Rightarrow> 'r \<Rightarrow> bool" where
  "well_held S key r \<longleftrightarrow> (\<forall>v. GET S key r = Some v \<longrightarrow> (\<exists>kvs. cjson_decode S v = Some (JObj kvs)))"

lemma held_by_well_held: "held_by S key u h r \<Longrightarrow> well_held S key r"
  by (auto simp: held_by_def hold_value_def well_held_def)

context redis_strings begin

lemma hold_value_encode: "hold_value S (cjson_encode S (held_members u h c x)) u h"
proof -
  obtain kvs' where k: "cjson_decode S (cjson_encode S (held_members u h c x)) = Some (JObj kvs')"
    and s: "same_members (held_members u h c x) kvs'" using cjson by blast
  from s have "map_of (rev kvs') = map_of (rev (held_members u h c x))"
    by (simp add: same_members_def)
  then show ?thesis using k by (simp add: hold_value_def held_members_def)
qed

text \<open>The lock script on a free key, and on a taken one.\<close>

lemma atomic_seat_lock_free:
  assumes "GET S key r = None" and "0 < ttl"
  shows "\<exists>v. atomic_seat_lock S [key] [u, h, show_int ttl] r = (SET_EX S key v ttl r, Inr (RInt 1)) \<and>
    hold_value S v u h"
  using assms hold_value_encode by (auto simp: Let_def)

lemma atomic_seat_lock_taken:
  assumes "GET S key r \<noteq> None" and "well_held S key r"
  shows "atomic_seat_lock S [key] [u, h, show_int ttl] r = (r, Inr (RInt 0))"
  using assms by (auto simp: well_held_def lua_truthy_def)

lemma release_seat_owned:
  assumes "held_by S key u h r"
  shows "\<exists>r'. release_seat S [key] [u, h] r = (r', Inr (RInt 1)) \<and>
    (\<forall>k'. GET S k' r' = (if k' = key then None else GET S k' r))"
proof -
  from assms obtain v kvs where v: "GET S key r = Some v" "cjson_decode S v = Some (JObj kvs)"
    "hold_value S v u h" by (auto simp: held_by_def hold_value_def)
  obtain r' n where d: "DEL S key r = (r', n)" by force
  then have "n = 1" "\<forall>k'. GET S k' r' = (if k' = key then None else GET S k' r)"
    using del [of key r r' n] v(1) by auto
  with v d show ?thesis by (auto simp: owned_hold_value [OF v(2)])
qed

lemma release_seat_foreign:
  assumes "\<not> held_by S key u h r" and "well_held S key r"
  shows "release_seat S [key] [u, h] r = (r, Inr (RInt 0))"
proof (cases "GET S key r")
  case (Some v)
  then obtain kvs where v: "cjson_decode S v = Some (JObj kvs)" using assms(2) by (auto simp: well_held_def)
  have "\<not> hold_value S v u h" using assms(1) Some by (auto simp: held_by_def)
  with Some v show ?thesis by (simp add: owned_hold_value [OF v])
qed simp

end

end
