(* ===== verification/Ref_Store.thy ===== *)
theory Ref_Store imports Lua_Scripts "HOL-Library.List_Lexorder" "HOL-Library.Char_ord" begin

text \<open>
  A reference Redis and a reference database: concrete functions that satisfy every
  contract of \<open>Services\<close> and \<open>Lua_Scripts\<close>, so that the contracts are consistent and each
  property of the development can be shown at a concrete input.  No property depends on
  these definitions.
\<close>

section \<open>Redis\<close>

record ref_redis =
  rs_str :: "string \<Rightarrow> (string \<times> nat option) option"
  rs_z :: "string \<Rightarrow> string \<Rightarrow> int option"
  rs_zttl :: "string \<Rightarrow> nat option"
  rs_cached :: bool
  rs_time :: int
  rs_entries :: "(string \<times> string) list list"
  rs_undelivered :: "string list option"
  rs_pel :: "string list"

definition ref_get :: "string \<Rightarrow> ref_redis \<Rightarrow> string option" where
  "ref_get k r = map_option fst (rs_str r k)"

definition ref_set :: "string \<Rightarrow> string \<Rightarrow> nat option \<Rightarrow> ref_redis \<Rightarrow> ref_redis" where
  "ref_set k v t r = r\<lparr>rs_str := (rs_str r)(k \<mapsto> (v, t))\<rparr>"

definition ref_del :: "string \<Rightarrow> ref_redis \<Rightarrow> ref_redis \<times> int" where
  "ref_del k r = (r\<lparr>rs_str := (rs_str r)(k := None)\<rparr>, if rs_str r k = None then 0 else 1)"

definition ref_pttl :: "string \<Rightarrow> ref_redis \<Rightarrow> nat option" where
  "ref_pttl k r = (case rs_str r k of Some (_, t) \<Rightarrow> t | None \<Rightarrow> None)"

definition ref_age :: "nat \<Rightarrow> (string \<times> nat option) option \<Rightarrow> (string \<times> nat option) option" where
  "ref_age n x =
     (case x of
        Some (v, Some t) \<Rightarrow> if t \<le> n then None else Some (v, Some (t - n))
      | y \<Rightarrow> y)"

text \<open>A sorted set is the map from its members to their scores; its life is kept beside it.\<close>

definition ref_zgone :: "nat \<Rightarrow> string \<Rightarrow> ref_redis \<Rightarrow> bool" where
  "ref_zgone n k r = (case rs_zttl r k of Some t \<Rightarrow> t \<le> n | None \<Rightarrow> False)"

definition ref_elapse :: "nat \<Rightarrow> ref_redis \<Rightarrow> ref_redis" where
  "ref_elapse n r = r\<lparr>rs_str := (\<lambda>k. ref_age n (rs_str r k)),
     rs_z := (\<lambda>k. if ref_zgone n k r then Map.empty else rs_z r k),
     rs_zttl := (\<lambda>k. if ref_zgone n k r then None else map_option (\<lambda>t. t - n) (rs_zttl r k)),
     rs_time := rs_time r + int (n div 1000)\<rparr>"

definition ref_zset :: "string \<Rightarrow> (string \<Rightarrow> int option) \<Rightarrow> ref_redis \<Rightarrow> ref_redis" where
  "ref_zset k z r = r\<lparr>rs_z := (rs_z r)(k := z)\<rparr>"

definition ref_server :: "ref_redis redis_server" where
  "ref_server = \<lparr>
     GET = ref_get,
     SET_EX = (\<lambda>k v t. ref_set k v (Some (nat t * 1000))),
     SET_PX_NX = (\<lambda>k v t r. if ref_get k r = None then (ref_set k v (Some (nat t)) r, True) else (r, False)),
     DEL = ref_del,
     TIME = rs_time,
     ZREMRANGEBYSCORE = (\<lambda>k lo hi r. ref_zset k
       (\<lambda>m. case rs_z r k m of Some s \<Rightarrow> if lo \<le> s \<and> s \<le> hi then None else Some s | None \<Rightarrow> None) r),
     ZADD = (\<lambda>k s m r. ref_zset k ((rs_z r k)(m \<mapsto> s)) r),
     EXPIRE = (\<lambda>k t r. r\<lparr>rs_zttl := (rs_zttl r)(k \<mapsto> nat t * 1000)\<rparr>),
     ZCARD = (\<lambda>k r. int (card (dom (rs_z r k)))),
     cjson_encode = (\<lambda>kvs. stringify (JObj kvs)),
     cjson_decode = json_parse\<rparr>"

definition ref_text :: "LuaScriptName \<Rightarrow> string" where
  "ref_text nm =
     (case nm of slidingWindow \<Rightarrow> ''sw'' | releaseMutex \<Rightarrow> ''rm'' | atomicSeatLock \<Rightarrow> ''asl'' | releaseSeatScript \<Rightarrow> ''rs'')"

definition ref_sha1 :: "string \<Rightarrow> string" where
  "ref_sha1 s = CHR ''#'' # s"

definition ref_script :: "string \<Rightarrow> LuaScriptName option" where
  "ref_script s = find (\<lambda>nm. ref_text nm = s) [slidingWindow, releaseMutex, atomicSeatLock, releaseSeatScript]"

definition ref_eval :: "string \<Rightarrow> string list \<Rightarrow> string list \<Rightarrow> ref_redis \<Rightarrow> ref_redis \<times> (exn + reply)" where
  "ref_eval s keys args r =
     (case ref_script s of
        Some nm \<Rightarrow> lua_script ref_server nm keys args r
      | None \<Rightarrow> (r, Inl (JsError ''ERR Error compiling script'')))"

definition noscript :: exn where
  "noscript = JsError ''NOSCRIPT No matching script. Please use EVAL.''"

definition ref_evalsha :: "string \<Rightarrow> string list \<Rightarrow> string list \<Rightarrow> ref_redis \<Rightarrow> ref_redis \<times> (exn + reply)" where
  "ref_evalsha d keys args r = (if rs_cached r then ref_eval (tl d) keys args r else (r, Inl noscript))"

text \<open>The id of a stream entry is its position.\<close>

definition ref_entries :: "ref_redis \<Rightarrow> stream_entry list" where
  "ref_entries r = map (\<lambda>i. (show_nat i, rs_entries r ! i)) [0..<length (rs_entries r)]"

definition ref_batch :: "string list \<Rightarrow> ref_redis \<Rightarrow> (string \<times> string list) list" where
  "ref_batch ids r = map flat_entry (filter (\<lambda>e. fst e \<in> set ids) (ref_entries r))"

definition ref_client :: "ref_redis redis_client" where
  "ref_client = \<lparr>
     c_get = (\<lambda>k r. (r, Inr (ref_get k r))),
     c_set_ex = (\<lambda>k v t r. (SET_EX ref_server k v t r, Inr ())),
     c_set_px_nx = (\<lambda>k v t r. map_prod id Inr (SET_PX_NX ref_server k v t r)),
     c_del = (\<lambda>k r. map_prod id Inr (DEL ref_server k r)),
     c_script_load = (\<lambda>s r. (r\<lparr>rs_cached := True\<rparr>, Inr (Some (ref_sha1 s)))),
     c_evalsha = ref_evalsha,
     c_eval = ref_eval,
     c_publish = (\<lambda>ch m r. (r, Inr 1)),
     c_xadd = (\<lambda>k fs r. let i = show_nat (length (rs_entries r)) in
       (r\<lparr>rs_entries := rs_entries r @ [fs],
          rs_undelivered := map_option (\<lambda>u. u @ [i]) (rs_undelivered r)\<rparr>, Inr i)),
     c_xgroup_create = (\<lambda>k g r.
       (case rs_undelivered r of
          None \<Rightarrow> (r\<lparr>rs_undelivered := Some []\<rparr>, Inr ())
        | Some _ \<Rightarrow> (r, Inl (JsError ''BUSYGROUP Consumer Group name already exists'')))),
     c_xreadgroup = (\<lambda>k g c n b r.
       (case rs_undelivered r of
          None \<Rightarrow> (r, Inl (JsError ''NOGROUP No such key or consumer group''))
        | Some u \<Rightarrow>
            (if u = [] then (r, Inr None)
             else (r\<lparr>rs_undelivered := Some (drop n u), rs_pel := rs_pel r @ take n u\<rparr>,
                   Inr (Some [(k, ref_batch (take n u) r)]))))),
     c_xautoclaim = (\<lambda>k g c idle n r. (r, Inr (take n (ref_batch (rs_pel r) r)))),
     c_xack = (\<lambda>k g i r. (r\<lparr>rs_pel := filter (\<lambda>j. j \<noteq> i) (rs_pel r)\<rparr>, Inr 1))\<rparr>"

definition ref_redis0 :: ref_redis where
  "ref_redis0 = \<lparr>rs_str = (\<lambda>_. None), rs_z = (\<lambda>_. Map.empty), rs_zttl = Map.empty, rs_cached = True, rs_time = 1000,
     rs_entries = [], rs_undelivered = Some [], rs_pel = []\<rparr>"

section \<open>The database\<close>

record ref_db =
  rd_seats :: "string \<Rightarrow> seat_row option"
  rd_seat_ids :: "string list"
  rd_orders :: "string \<Rightarrow> order_row option"
  rd_events :: "string \<Rightarrow> event_row option"

definition ref_seats :: "ref_db \<Rightarrow> string \<Rightarrow> seat_row option" where
  "ref_seats d i =
     (if i \<in> set (rd_seat_ids d) then map_option (\<lambda>s. s\<lparr>seat_id := i\<rparr>) (rd_seats d i) else None)"

definition ref_orders :: "ref_db \<Rightarrow> string \<Rightarrow> order_row option" where
  "ref_orders d h = map_option (\<lambda>row. row\<lparr>ord_holdId := h\<rparr>) (rd_orders d h)"

text \<open>The seats of an event by section, row and number, in the byte order of their characters.\<close>

definition seat_sort_key :: "seat_row \<Rightarrow> string list" where
  "seat_sort_key s = [seat_section s, seat_row_label s, seat_number s]"

definition ref_seats_of :: "string \<Rightarrow> ref_db \<Rightarrow> seat_row list" where
  "ref_seats_of ev d =
     sort_key seat_sort_key (filter (\<lambda>s. seat_eventId s = ev) (List.map_filter (ref_seats d) (remdups (rd_seat_ids d))))"

definition ref_transaction :: "('d \<Rightarrow> 'd \<times> (exn + 'a)) \<Rightarrow> 'd \<Rightarrow> 'd \<times> (exn + 'a)" where
  "ref_transaction body d = (case body d of (d', Inr a) \<Rightarrow> (d', Inr a) | (_, Inl e) \<Rightarrow> (d, Inl e))"

definition ref_prisma :: "ref_db prisma_client" where
  "ref_prisma = \<lparr>
     pc_event_with_seat = (\<lambda>ev sid d. Inr (case rd_events d ev of
         None \<Rightarrow> None
       | Some e \<Rightarrow> Some (e, case ref_seats d sid of
           Some s \<Rightarrow> if seat_eventId s = ev then [s] else [] | None \<Rightarrow> []))),
     pc_event_with_seats = (\<lambda>ev d. Inr (map_option (\<lambda>e. (e, ref_seats_of ev d)) (rd_events d ev))),
     pc_order_findUnique = (\<lambda>h d. Inr (ref_orders d h)),
     pc_seat_updateMany = (\<lambda>sid ev st st' d.
       (case ref_seats d sid of
          Some s \<Rightarrow>
            (if seat_eventId s = ev \<and> seat_status s = st
             then (d\<lparr>rd_seats := (rd_seats d)(sid \<mapsto> s\<lparr>seat_status := st'\<rparr>)\<rparr>, Inr 1) else (d, Inr 0))
        | None \<Rightarrow> (d, Inr 0))),
     pc_order_create = (\<lambda>data d.
       (case ref_orders d (ord_holdId data) of
          Some _ \<Rightarrow> (d, Inl (JsError ''Unique constraint failed''))
        | None \<Rightarrow>
            (let row = order_data.extend data (order_row.fields (''order-'' @ ord_holdId data))
             in (d\<lparr>rd_orders := (rd_orders d)(ord_holdId data \<mapsto> row)\<rparr>, Inr row)))),
     pc_order_update = (\<lambda>h st d.
       (case ref_orders d h of
          None \<Rightarrow> (d, Inl (JsError ''Record to update not found''))
        | Some o' \<Rightarrow>
            (d\<lparr>rd_orders := (rd_orders d)(h \<mapsto> o'\<lparr>ord_status := st\<rparr>)\<rparr>, Inr (o'\<lparr>ord_status := st\<rparr>)))),
     pc_transaction_order = ref_transaction,
     pc_transaction_void = ref_transaction\<rparr>"

definition ref_services :: "(ref_redis, ref_db) services" where
  "ref_services = \<lparr>redis = ref_client, prisma = ref_prisma, scriptFile = (\<lambda>nm. Inr (ref_text nm))\<rparr>"

text \<open>One event with two seats; connected, with the scripts registered.\<close>

definition ref_seat :: "string \<Rightarrow> SeatState \<Rightarrow> seat_row" where
  "ref_seat i st = \<lparr>seat_id = i, seat_eventId = ''ev'', seat_section = ''A'', seat_row_label = ''1'',
     seat_number = i, seat_status = st\<rparr>"

definition ref_db0 :: ref_db where
  "ref_db0 = \<lparr>
     rd_seats = [''s1'' \<mapsto> ref_seat ''s1'' AVAILABLE, ''s2'' \<mapsto> ref_seat ''s2'' SOLD],
     rd_seat_ids = [''s1'', ''s2''], rd_orders = Map.empty,
     rd_events = [''ev'' \<mapsto> \<lparr>evt_id = ''ev'', evt_name = ''Demo'', evt_startsAt = 0\<rparr>]\<rparr>"

definition ref_world :: "(ref_redis, ref_db) world" where
  "ref_world = \<lparr>w_redis = ref_redis0, w_db = ref_db0, w_clock = 0,
     w_digests = (\<lambda>nm. Some (ref_sha1 (ref_text nm))), w_adapter_connected = True,
     w_consumer_running = False, w_sent = []\<rparr>"

section \<open>The contracts hold\<close>

lemma ref_server_simps [simp]:
  "GET ref_server = ref_get" "SET_EX ref_server k v t = ref_set k v (Some (nat t * 1000))"
  "SET_PX_NX ref_server k v t r = (if ref_get k r = None then (ref_set k v (Some (nat t)) r, True) else (r, False))"
  "DEL ref_server = ref_del" "TIME ref_server = rs_time"
  "cjson_encode ref_server kvs = stringify (JObj kvs)" "cjson_decode ref_server = json_parse"
  by (simp_all add: ref_server_def fun_eq_iff)

lemma ref_services_simps [simp]:
  "redis ref_services = ref_client" "prisma ref_services = ref_prisma"
  "scriptFile ref_services nm = Inr (ref_text nm)"
  by (simp_all add: ref_services_def)

lemma ref_set_get [simp]: "ref_get k' (ref_set k v t r) = (if k' = k then Some v else ref_get k' r)"
  by (simp add: ref_get_def ref_set_def)

lemma ref_script_text [simp]: "ref_script (ref_text nm) = Some nm"
  by (cases nm) (simp_all add: ref_script_def ref_text_def)

lemma isNoscript_noscript [simp]: "isNoscriptError noscript"
  by code_simp

interpretation ref_strings: redis_strings ref_server ref_pttl ref_elapse
proof unfold_locales
  fix k v and t :: int and r r' :: ref_redis and ok
  assume "0 < t" and "SET_PX_NX ref_server k v t r = (r', ok)"
  then show "if GET ref_server k r = None
    then ok \<and> (\<forall>k'. GET ref_server k' r' = (if k' = k then Some v else GET ref_server k' r)) \<and>
         (\<forall>k'. ref_pttl k' r' = (if k' = k then Some (nat t) else ref_pttl k' r))
    else \<not> ok \<and> r' = r"
    by (auto simp: ref_pttl_def ref_set_def ref_get_def split: if_splits)
next
  fix k r n
  show "GET ref_server k (ref_elapse n r) =
      (case ref_pttl k r of Some t \<Rightarrow> (if t \<le> n then None else GET ref_server k r) | None \<Rightarrow> GET ref_server k r)"
    by (auto simp: ref_get_def ref_elapse_def ref_age_def ref_pttl_def split: option.splits)
next
  fix k r n
  assume "GET ref_server k (ref_elapse n r) \<noteq> None"
  then show "ref_pttl k (ref_elapse n r) = map_option (\<lambda>t. t - n) (ref_pttl k r)"
    by (auto simp: ref_get_def ref_elapse_def ref_age_def ref_pttl_def split: option.splits if_splits)
next
  fix kvs
  have "cjson_decode ref_server (cjson_encode ref_server kvs) = Some (JObj kvs)"
    by (simp del: stringify.simps)
  then show "\<exists>kvs'. cjson_decode ref_server (cjson_encode ref_server kvs) = Some (JObj kvs') \<and> same_members kvs kvs'"
    by (auto simp: same_members_def)
qed (auto simp: ref_pttl_def ref_set_def ref_get_def ref_del_def same_members_def split: if_splits)

interpretation ref_remote: redis_remote ref_server ref_pttl ref_elapse ref_services ref_sha1
proof unfold_locales
  fix nm source keys args and r :: ref_redis
  assume "scriptFile ref_services nm = Inr source"
  then have t: "source = ref_text nm" by simp
  then have e: "ref_eval source keys args r = lua_script ref_server nm keys args r"
    by (simp add: ref_eval_def)
  then show "delivers r (lua_script ref_server nm keys args r) (c_eval (redis ref_services) source keys args r)"
    by (simp add: ref_client_def)
  show "delivers r (lua_script ref_server nm keys args r)
      (c_evalsha (redis ref_services) (ref_sha1 source) keys args r) \<or>
      (\<exists>e. isNoscriptError e \<and> c_evalsha (redis ref_services) (ref_sha1 source) keys args r = (r, Inl e))"
    using e by (auto simp: ref_client_def ref_evalsha_def ref_sha1_def)
qed (auto simp: ref_client_def ref_get_def ref_pttl_def)

lemma order_extend_truncate [simp]: "order_data.truncate (order_data.extend data (order_row.fields i)) = data"
  by (simp add: order_data.defs)

lemma order_extend_simps [simp]: "ord_holdId (order_data.extend data (order_row.fields i)) = ord_holdId data"
  by (simp add: order_data.defs)

lemma ref_upd_views [simp]:
  "i \<in> set (rd_seat_ids d) \<Longrightarrow> ref_seats (d\<lparr>rd_seats := (rd_seats d)(i \<mapsto> s)\<rparr>) = (ref_seats d)(i \<mapsto> s\<lparr>seat_id := i\<rparr>)"
  "ref_orders (d\<lparr>rd_orders := (rd_orders d)(h \<mapsto> row)\<rparr>) = (ref_orders d)(h \<mapsto> row\<lparr>ord_holdId := h\<rparr>)"
  "ref_seats (d\<lparr>rd_orders := z\<rparr>) = ref_seats d" "ref_orders (d\<lparr>rd_seats := y\<rparr>) = ref_orders d"
  by (auto simp: ref_seats_def ref_orders_def fun_eq_iff)

lemma ref_seats_listed: "ref_seats d i = Some s \<Longrightarrow> i \<in> set (rd_seat_ids d)"
  by (auto simp: ref_seats_def split: if_splits)

lemma ref_keys: "ref_seats d i = Some s \<Longrightarrow> seat_id s = i" "ref_orders d h = Some row \<Longrightarrow> ord_holdId row = h"
  by (auto simp: ref_seats_def ref_orders_def split: if_splits)

lemma ref_seats_move:
  assumes "ref_seats d i = Some s"
  shows "ref_seats (d\<lparr>rd_seats := (rd_seats d)(i \<mapsto> s\<lparr>seat_status := st\<rparr>)\<rparr>) = (ref_seats d)(i \<mapsto> s\<lparr>seat_status := st\<rparr>)"
  using ref_seats_listed [OF assms] ref_keys(1) [OF assms] by (cases s) auto

interpretation ref_tables: prisma_tables ref_prisma ref_seats ref_orders rd_events
proof unfold_locales
  fix body :: "ref_db \<Rightarrow> ref_db \<times> (exn + order_row)" and d d' x
  assume "pc_transaction_order ref_prisma body d = (d', x)"
  then show "(d', x) = body d \<and> isInr x \<or> (d' = d \<and> \<not> isInr x)"
    by (auto simp: ref_prisma_def ref_transaction_def split: prod.splits sum.splits)
next
  fix body :: "ref_db \<Rightarrow> ref_db \<times> (exn + unit)" and d d' x
  assume "pc_transaction_void ref_prisma body d = (d', x)"
  then show "(d', x) = body d \<and> isInr x \<or> (d' = d \<and> \<not> isInr x)"
    by (auto simp: ref_prisma_def ref_transaction_def split: prod.splits sum.splits)
qed (auto simp: ref_prisma_def ref_transaction_def Let_def ref_keys ref_seats_move dest: ref_keys split: option.splits prod.splits sum.splits if_splits)

end
