(* ===== verification/Lua_Loader.thy ===== *)
theory Lua_Loader imports Ref_Store begin

text \<open>
  \<open>src/src/scripts/lua-loader.ts\<close>: the registry of script digests.  \<open>scriptSources\<close>
  lists the four scripts in the order the loader goes through them, \<open>w_digests\<close> is the
  module's \<open>scriptDigests\<close> map.
\<close>

section \<open>The registry\<close>

definition scriptSources :: "LuaScriptName list" where
  "scriptSources = [slidingWindow, releaseMutex, atomicSeatLock, releaseSeatScript]"

fun script_name :: "LuaScriptName \<Rightarrow> string" where
  "script_name slidingWindow = ''slidingWindow''"
| "script_name releaseMutex = ''releaseMutex''"
| "script_name atomicSeatLock = ''atomicSeatLock''"
| "script_name releaseSeatScript = ''releaseSeat''"

text \<open>The loop of \<open>loadLuaScripts\<close>: read the file, \<open>SCRIPT LOAD\<close> it, store the digest.\<close>

fun load_each :: "('r, 'd) services \<Rightarrow> LuaScriptName list \<Rightarrow> (('r, 'd) world, unit) proc" where
  "load_each svc [] = Ret ()"
| "load_each svc (name # names) =
     await (sync (scriptFile svc name)) (\<lambda>source.
     await (redis_do (c_script_load (redis svc) source)) (\<lambda>reply.
     (case reply of
        None \<Rightarrow> Throw (JsError (''Redis returned an invalid digest for Lua script: '' @ script_name name))
      | Some digest \<Rightarrow>
          await (modifies (\<lambda>w. w\<lparr>w_digests := (w_digests w)(name \<mapsto> digest)\<rparr>)) (\<lambda>_.
          load_each svc names))))"

definition loadLuaScripts :: "('r, 'd) services \<Rightarrow> (('r, 'd) world, unit) proc" where
  "loadLuaScripts svc = load_each svc scriptSources"

definition getLuaScriptSource :: "('r, 'd) services \<Rightarrow> LuaScriptName \<Rightarrow> (('r, 'd) world, string) proc" where
  "getLuaScriptSource svc name = sync (scriptFile svc name)"

definition getLuaScriptDigest :: "LuaScriptName \<Rightarrow> (('r, 'd) world, string) proc" where
  "getLuaScriptDigest name =
     atomic (\<lambda>w. (w, case w_digests w name of
        None \<Rightarrow> Inl (JsError (''Lua script has not been loaded: '' @ script_name name))
      | Some digest \<Rightarrow> Inr digest))"

lemma run_getLuaScriptDigest [run_simps]:
  "run (getLuaScriptDigest name) w = (w, case w_digests w name of
      None \<Rightarrow> Inl (JsError (''Lua script has not been loaded: '' @ script_name name))
    | Some digest \<Rightarrow> Inr digest)"
  by (simp add: getLuaScriptDigest_def run_atomic)

lemma run_getLuaScriptSource [run_simps]:
  "run (getLuaScriptSource svc name) w = (w, scriptFile svc name)"
  by (simp add: getLuaScriptSource_def run_sync)

lemma missing_digest_not_noscript [simp]:
  "\<not> isNoscriptError (JsError (''Lua script has not been loaded: '' @ script_name name))"
  by (cases name; simp; code_simp)

section \<open>Loading registers every script\<close>

definition registered_for :: "('r, 'd) services \<Rightarrow> (string \<Rightarrow> string) \<Rightarrow> LuaScriptName set \<Rightarrow> ('r, 'd) world \<Rightarrow> bool" where
  "registered_for svc sha1 names w \<longleftrightarrow>
     (\<forall>nm \<in> names. \<exists>src. scriptFile svc nm = Inr src \<and> w_digests w nm = Some (sha1 src))"

context redis_remote begin

lemma load_each_registers:
  assumes "run (load_each svc names) w = (w', Inr ())" and "registered_for svc sha1 done_names w"
  shows "registered_for svc sha1 (done_names \<union> set names) w'"
  using assms
proof (induction names arbitrary: w done_names)
  case Nil
  then show ?case by simp
next
  case (Cons name names)
  from Cons.prems(1) obtain src r' d where src: "scriptFile svc name = Inr src"
    and ld: "c_script_load (redis svc) src (w_redis w) = (r', Inr (Some d))"
    and rest: "run (load_each svc names)
      (w\<lparr>w_redis := r', w_digests := (w_digests w)(name \<mapsto> d)\<rparr>) = (w', Inr ())"
    by (auto simp: run_simps split: prod.splits sum.splits option.splits)
  from script_load_remote [OF ld] have "d = sha1 src" by simp
  then have "registered_for svc sha1 (insert name done_names)
      (w\<lparr>w_redis := r', w_digests := (w_digests w)(name \<mapsto> d)\<rparr>)"
    using Cons.prems(2) src by (auto simp: registered_for_def)
  from Cons.IH [OF rest this] show ?case by simp
qed

lemma loadLuaScripts_registers:
  assumes "run (loadLuaScripts svc) w = (w', Inr ())"
  shows "registered svc sha1 w'"
proof -
  have "registered_for svc sha1 {} w" by (simp add: registered_for_def)
  with assms have "registered_for svc sha1 (set scriptSources) w'"
    unfolding loadLuaScripts_def using load_each_registers by fastforce
  moreover have "nm \<in> set scriptSources" for nm by (cases nm) (simp_all add: scriptSources_def)
  ultimately show ?thesis by (auto simp: registered_def registered_for_def)
qed

end

end
