(* ===== verification/Seat_Lock.thy ===== *)
theory Seat_Lock imports Lua_Loader begin

text \<open>
  \<open>src/src/services/redis-lock.service.ts\<close>: temporary seat holds.  \<open>acquireSeatHold\<close> and
  \<open>releaseSeatHold\<close> run the seat scripts by digest and fall back to sending the text when
  the server does not know the digest.  The value of \<open>randomUUID()\<close> is an argument.  The
  lemmas relate a call to one execution of the script, and the concurrent part shows
  that of any number of simultaneous attempts on a free seat exactly one wins.
\<close>

section \<open>The service\<close>

text \<open>A JavaScript number with an integral value, or one of the three that are not finite.\<close>

datatype js_number = Finite int | NaN | Infinity | MinusInfinity

record SeatLockExecution =
  se_result :: reply
  se_holdId :: string
  se_ttlSeconds :: int
  se_expiresAt :: int

definition DEFAULT_TTL_SECONDS :: int where
  "DEFAULT_TTL_SECONDS = 600"

definition seatLockKey :: "string \<Rightarrow> string \<Rightarrow> string" where
  "seatLockKey eventId seatId = ''seat:'' @ eventId @ '':'' @ seatId"

definition getSeatLockKey :: "string \<Rightarrow> string \<Rightarrow> string" where
  "getSeatLockKey eventId seatId = seatLockKey eventId seatId"

definition effective_ttl :: "js_number \<Rightarrow> int" where
  "effective_ttl ttlSeconds =
     (case ttlSeconds of
        Finite n \<Rightarrow> if 0 < n then n else DEFAULT_TTL_SECONDS
      | _ \<Rightarrow> DEFAULT_TTL_SECONDS)"

definition acquireSeatHold ::
  "('r, 'd) services \<Rightarrow> string \<Rightarrow> string \<Rightarrow> string \<Rightarrow> string \<Rightarrow> js_number \<Rightarrow>
   (('r, 'd) world, SeatLockExecution) proc" where
  "acquireSeatHold svc randomUUID eventId seatId userId ttlSeconds =
     (let key = seatLockKey eventId seatId;
          holdId = randomUUID;
          effectiveTtl = effective_ttl ttlSeconds;
          execution = (\<lambda>result. await Date_now (\<lambda>now.
            Ret \<lparr>se_result = result, se_holdId = holdId, se_ttlSeconds = effectiveTtl,
                 se_expiresAt = now + effectiveTtl * 1000\<rparr>))
      in catch
           (await (getLuaScriptDigest atomicSeatLock) (\<lambda>digest.
            await (redis_do (c_evalsha (redis svc) digest [key] [userId, holdId, show_int effectiveTtl]))
              execution))
           (\<lambda>error.
              if \<not> isNoscriptError error then Throw error
              else
                await (getLuaScriptSource svc atomicSeatLock) (\<lambda>source.
                await (redis_do (c_eval (redis svc) source [key] [userId, holdId, show_int effectiveTtl]))
                  execution)))"

definition releaseSeatHold ::
  "('r, 'd) services \<Rightarrow> string \<Rightarrow> string \<Rightarrow> string \<Rightarrow> string \<Rightarrow> (('r, 'd) world, bool) proc" where
  "releaseSeatHold svc eventId seatId userId holdId =
     (let key = seatLockKey eventId seatId
      in catch
           (await (getLuaScriptDigest releaseSeatScript) (\<lambda>digest.
            await (redis_do (c_evalsha (redis svc) digest [key] [userId, holdId])) (\<lambda>result.
            Ret (result = RInt 1))))
           (\<lambda>error.
              if \<not> isNoscriptError error then Throw error
              else
                await (getLuaScriptSource svc releaseSeatScript) (\<lambda>source.
                await (redis_do (c_eval (redis svc) source [key] [userId, holdId])) (\<lambda>result.
                Ret (result = RInt 1)))))"

lemma effective_ttl_pos: "0 < effective_ttl t"
  by (cases t) (auto simp: effective_ttl_def DEFAULT_TTL_SECONDS_def)

section \<open>A call is one execution of the script\<close>

text \<open>Event ids without a colon keep the keys of different seats apart.\<close>

lemma seatLockKey_inject:
  assumes "CHR '':'' \<notin> set e" and "CHR '':'' \<notin> set e'" and "seatLockKey e s = seatLockKey e' s'"
  shows "e = e' \<and> s = s'"
proof -
  from assms(3) have eq: "e @ CHR '':'' # s = e' @ CHR '':'' # s'" by (simp add: seatLockKey_def)
  have "takeWhile (\<lambda>c. c \<noteq> CHR '':'') (e @ CHR '':'' # s) = e"
    using assms(1) by (subst takeWhile_append2) auto
  moreover have "takeWhile (\<lambda>c. c \<noteq> CHR '':'') (e' @ CHR '':'' # s') = e'"
    using assms(2) by (subst takeWhile_append2) auto
  ultimately have "e = e'" using eq by metis
  with eq show ?thesis by simp
qed

lemma seatLockKey_not_stream: "seatLockKey e s \<noteq> ORDER_STREAM_KEY"
  by (simp add: seatLockKey_def ORDER_STREAM_KEY_def)

definition lock_executed :: "'r redis_server \<Rightarrow> string \<Rightarrow> string \<Rightarrow> string \<Rightarrow> int \<Rightarrow> 'r \<Rightarrow> 'r \<times> (exn + reply)" where
  "lock_executed S key user hold ttl r = lua_script S atomicSeatLock [key] [user, hold, show_int ttl] r"

definition release_executed :: "'r redis_server \<Rightarrow> string \<Rightarrow> string \<Rightarrow> string \<Rightarrow> 'r \<Rightarrow> 'r \<times> (exn + reply)" where
  "release_executed S key user hold r = lua_script S releaseSeatScript [key] [user, hold] r"

lemma lua_error_not_noscript [simp]:
  "\<not> isNoscriptError cjson_error" "\<not> isNoscriptError arity_error"
  "\<not> isNoscriptError (JsError ''ERR attempt to index a non-table value'')"
  unfolding cjson_error_def arity_error_def by code_simp+

lemma lua_field_error: "lua_field v k = Inl e \<Longrightarrow> \<not> isNoscriptError e"
  by (cases "(v, k)" rule: lua_field.cases) auto

text \<open>A script that stops with an error has changed nothing.\<close>

lemma lock_executed_error: "lock_executed S key user hold ttl r = (r', Inl e) \<Longrightarrow> r' = r \<and> \<not> isNoscriptError e"
  by (auto simp: lock_executed_def Let_def split: option.splits if_splits sum.splits dest: lua_field_error)

lemma owned_hold_error: "owned_hold v u h = Inl e \<Longrightarrow> \<not> isNoscriptError e"
  by (auto simp: owned_hold_def bindE_eq_Inl split: if_splits dest: lua_field_error)

lemma release_executed_error: "release_executed S key user hold r = (r', Inl e) \<Longrightarrow> r' = r \<and> \<not> isNoscriptError e"
  by (auto simp: release_executed_def split: option.splits if_splits sum.splits prod.splits dest: owned_hold_error)

context redis_remote begin

lemma sha_outcome:
  assumes "scriptFile svc nm = Inr src" and "c_evalsha (redis svc) (sha1 src) keys args r = (r', x)"
    and "\<And>r1 e. lua_script S nm keys args r = (r1, Inl e) \<Longrightarrow> \<not> isNoscriptError e"
  shows "case x of Inr rep \<Rightarrow> lua_script S nm keys args r = (r', Inr rep)
    | Inl e \<Rightarrow> if isNoscriptError e then r' = r else r' = r \<or> r' = fst (lua_script S nm keys args r)"
proof -
  obtain r1 y where ex: "lua_script S nm keys args r = (r1, y)" by force
  show ?thesis
  proof (cases x)
    case (Inl e)
    have "y = Inl e' \<Longrightarrow> \<not> isNoscriptError e'" for e' using ex assms(3) by simp
    with evalsha_remote [OF assms(1), of r keys args] assms(2) ex Inl
    show ?thesis by (cases y) (auto simp: delivers_def)
  next
    case (Inr rep)
    with evalsha_remote [OF assms(1), of r keys args] assms(2) show ?thesis
      by (auto simp: delivers_def)
  qed
qed

lemma eval_outcome:
  assumes "scriptFile svc nm = Inr src" and "c_eval (redis svc) src keys args r = (r', x)"
  shows "case x of Inr rep \<Rightarrow> lua_script S nm keys args r = (r', Inr rep)
    | Inl e \<Rightarrow> r' = r \<or> r' = fst (lua_script S nm keys args r)"
proof (cases x)
  case (Inl e)
  with eval_remote [OF assms(1), of r keys args] assms(2) show ?thesis
    by (cases "lua_script S nm keys args r") (auto simp: delivers_def)
next
  case (Inr rep)
  with eval_remote [OF assms(1), of r keys args] assms(2) show ?thesis
    by (auto simp: delivers_def)
qed

lemma acquire_run:
  assumes "registered svc sha1 w"
    and "run (acquireSeatHold svc uuid ev seat user ttl) w = (w', x)"
  shows "\<exists>r'. w' = w\<lparr>w_redis := r'\<rparr> \<and>
    (case x of
       Inr ex \<Rightarrow> lock_executed S (seatLockKey ev seat) user uuid (effective_ttl ttl) (w_redis w) = (r', Inr (se_result ex)) \<and>
         ex = \<lparr>se_result = se_result ex, se_holdId = uuid, se_ttlSeconds = effective_ttl ttl,
               se_expiresAt = w_clock w + effective_ttl ttl * 1000\<rparr>
     | Inl e \<Rightarrow> r' = w_redis w \<or>
         r' = fst (lock_executed S (seatLockKey ev seat) user uuid (effective_ttl ttl) (w_redis w)))"
proof -
  let ?k = "seatLockKey ev seat" and ?r = "w_redis w"
  let ?args = "[user, uuid, show_int (effective_ttl ttl)]"
  obtain src where src: "scriptFile svc atomicSeatLock = Inr src"
    "w_digests w atomicSeatLock = Some (sha1 src)"
    using assms(1) by (rule registeredE)
  obtain r1 x1 where sha: "c_evalsha (redis svc) (sha1 src) [?k] ?args ?r = (r1, x1)" by force
  obtain r2 x2 where ev: "c_eval (redis svc) src [?k] ?args ?r = (r2, x2)" by force
  have d1: "case x1 of Inr rep \<Rightarrow> lock_executed S ?k user uuid (effective_ttl ttl) ?r = (r1, Inr rep)
      | Inl e \<Rightarrow> if isNoscriptError e then r1 = ?r
          else r1 = ?r \<or> r1 = fst (lock_executed S ?k user uuid (effective_ttl ttl) ?r)"
    unfolding lock_executed_def
    by (rule sha_outcome [OF src(1) sha]) (rule lock_executed_error [unfolded lock_executed_def, THEN conjunct2])
  have d2: "case x2 of Inr rep \<Rightarrow> lock_executed S ?k user uuid (effective_ttl ttl) ?r = (r2, Inr rep)
      | Inl e \<Rightarrow> r2 = ?r \<or> r2 = fst (lock_executed S ?k user uuid (effective_ttl ttl) ?r)"
    unfolding lock_executed_def by (rule eval_outcome [OF src(1) ev])
  show ?thesis
    using assms(2) src sha ev d1 d2
    by (auto simp: acquireSeatHold_def Let_def run_simps split: sum.splits if_splits)
qed

lemma release_run:
  assumes "registered svc sha1 w"
    and "run (releaseSeatHold svc ev seat user hold) w = (w', x)"
  shows "\<exists>r'. w' = w\<lparr>w_redis := r'\<rparr> \<and>
    (case x of
       Inr b \<Rightarrow> \<exists>rep. release_executed S (seatLockKey ev seat) user hold (w_redis w) = (r', Inr rep) \<and> b = (rep = RInt 1)
     | Inl e \<Rightarrow> r' = w_redis w \<or> r' = fst (release_executed S (seatLockKey ev seat) user hold (w_redis w)))"
proof -
  let ?k = "seatLockKey ev seat" and ?r = "w_redis w"
  obtain src where src: "scriptFile svc releaseSeatScript = Inr src"
    "w_digests w releaseSeatScript = Some (sha1 src)"
    using assms(1) by (rule registeredE)
  obtain r1 x1 where sha: "c_evalsha (redis svc) (sha1 src) [?k] [user, hold] ?r = (r1, x1)" by force
  obtain r2 x2 where ev: "c_eval (redis svc) src [?k] [user, hold] ?r = (r2, x2)" by force
  have d1: "case x1 of Inr rep \<Rightarrow> release_executed S ?k user hold ?r = (r1, Inr rep)
      | Inl e \<Rightarrow> if isNoscriptError e then r1 = ?r
          else r1 = ?r \<or> r1 = fst (release_executed S ?k user hold ?r)"
    unfolding release_executed_def
    by (rule sha_outcome [OF src(1) sha]) (rule release_executed_error [unfolded release_executed_def, THEN conjunct2])
  have d2: "case x2 of Inr rep \<Rightarrow> release_executed S ?k user hold ?r = (r2, Inr rep)
      | Inl e \<Rightarrow> r2 = ?r \<or> r2 = fst (release_executed S ?k user hold ?r)"
    unfolding release_executed_def by (rule eval_outcome [OF src(1) ev])
  show ?thesis
    using assms(2) src sha ev d1 d2
    by (auto simp: releaseSeatHold_def Let_def run_simps split: sum.splits if_splits)
qed

lemma lock_executed_free:
  assumes "GET S key r = None" and "0 < ttl"
  shows "\<exists>v. lock_executed S key u h ttl r = (SET_EX S key v ttl r, Inr (RInt 1)) \<and> hold_value S v u h"
  using atomic_seat_lock_free [OF assms, of u h] by (simp add: lock_executed_def)

lemma lock_executed_taken:
  assumes "GET S key r \<noteq> None" and "well_held S key r"
  shows "lock_executed S key u h ttl r = (r, Inr (RInt 0))"
  using atomic_seat_lock_taken [OF assms, of u h ttl] by (simp add: lock_executed_def)

lemma acquire_returns:
  assumes "registered svc sha1 w" and "well_held S (seatLockKey ev seat) (w_redis w)"
    and "run (acquireSeatHold svc uuid ev seat user ttl) w = (w', Inr ex)"
  shows "se_holdId ex = uuid \<and>
    (if GET S (seatLockKey ev seat) (w_redis w) = None
     then se_result ex = RInt 1 \<and> held_by S (seatLockKey ev seat) user uuid (w_redis w') \<and>
       pttl (seatLockKey ev seat) (w_redis w') = Some (nat (effective_ttl ttl) * 1000) \<and>
       (\<forall>k. k \<noteq> seatLockKey ev seat \<longrightarrow> GET S k (w_redis w') = GET S k (w_redis w))
     else se_result ex = RInt 0 \<and> w' = w)"
proof -
  let ?k = "seatLockKey ev seat"
  obtain r' where w': "w' = w\<lparr>w_redis := r'\<rparr>"
    and exec: "lock_executed S ?k user uuid (effective_ttl ttl) (w_redis w) = (r', Inr (se_result ex))"
    and ex: "ex = \<lparr>se_result = se_result ex, se_holdId = uuid, se_ttlSeconds = effective_ttl ttl,
               se_expiresAt = w_clock w + effective_ttl ttl * 1000\<rparr>"
    using acquire_run [OF assms(1,3)] by auto
  from ex have hold: "se_holdId ex = uuid" by (metis SeatLockExecution.select_convs(2))
  show ?thesis
  proof (cases "GET S ?k (w_redis w) = None")
    case True
    obtain v where v: "lock_executed S ?k user uuid (effective_ttl ttl) (w_redis w)
        = (SET_EX S ?k v (effective_ttl ttl) (w_redis w), Inr (RInt 1))" "hold_value S v user uuid"
      using lock_executed_free [OF True effective_ttl_pos] by blast
    with exec have "r' = SET_EX S ?k v (effective_ttl ttl) (w_redis w)" "se_result ex = RInt 1" by auto
    with True w' hold v(2) show ?thesis
      by (simp add: get_set_ex [OF effective_ttl_pos] pttl_set_ex [OF effective_ttl_pos] held_by_def)
  next
    case False
    with exec lock_executed_taken [OF False assms(2)] have "r' = w_redis w" "se_result ex = RInt 0" by auto
    with False w' hold show ?thesis by simp
  qed
qed

lemma acquire_failure:
  assumes "registered svc sha1 w" and "well_held S (seatLockKey ev seat) (w_redis w)"
    and "run (acquireSeatHold svc uuid ev seat user ttl) w = (w', Inl e)"
  shows "w' = w \<or>
    GET S (seatLockKey ev seat) (w_redis w) = None \<and> held_by S (seatLockKey ev seat) user uuid (w_redis w') \<and>
    (\<forall>k. k \<noteq> seatLockKey ev seat \<longrightarrow> GET S k (w_redis w') = GET S k (w_redis w))"
proof -
  let ?k = "seatLockKey ev seat"
  obtain r' where w': "w' = w\<lparr>w_redis := r'\<rparr>"
    and r': "r' = w_redis w \<or> r' = fst (lock_executed S ?k user uuid (effective_ttl ttl) (w_redis w))"
    using acquire_run [OF assms(1,3)] by auto
  show ?thesis
  proof (cases "GET S ?k (w_redis w) = None")
    case True
    obtain v where "lock_executed S ?k user uuid (effective_ttl ttl) (w_redis w)
        = (SET_EX S ?k v (effective_ttl ttl) (w_redis w), Inr (RInt 1))" "hold_value S v user uuid"
      using lock_executed_free [OF True effective_ttl_pos] by blast
    with True w' r' show ?thesis by (auto simp: get_set_ex [OF effective_ttl_pos] held_by_def)
  next
    case False
    with w' r' lock_executed_taken [OF False assms(2)] show ?thesis by simp
  qed
qed

lemma release_returns:
  assumes "registered svc sha1 w" and "well_held S (seatLockKey ev seat) (w_redis w)"
    and "run (releaseSeatHold svc ev seat user hold) w = (w', Inr b)"
  shows "b = held_by S (seatLockKey ev seat) user hold (w_redis w) \<and>
    (if b then \<forall>k. GET S k (w_redis w') = (if k = seatLockKey ev seat then None else GET S k (w_redis w))
     else w' = w)"
proof -
  let ?k = "seatLockKey ev seat"
  obtain r' rep where w': "w' = w\<lparr>w_redis := r'\<rparr>" and b: "b = (rep = RInt 1)"
    and exec: "release_seat S [?k] [user, hold] (w_redis w) = (r', Inr rep)"
    using release_run [OF assms(1,3)] by (auto simp: release_executed_def)
  show ?thesis
  proof (cases "held_by S ?k user hold (w_redis w)")
    case True
    with release_seat_owned [OF True] exec w' b show ?thesis by auto
  next
    case False
    with release_seat_foreign [OF False assms(2)] exec w' b show ?thesis by auto
  qed
qed

lemma release_failure:
  assumes "registered svc sha1 w" and "well_held S (seatLockKey ev seat) (w_redis w)"
    and "run (releaseSeatHold svc ev seat user hold) w = (w', Inl e)"
  shows "w' = w \<or>
    held_by S (seatLockKey ev seat) user hold (w_redis w) \<and>
    (\<forall>k. GET S k (w_redis w') = (if k = seatLockKey ev seat then None else GET S k (w_redis w)))"
proof -
  let ?k = "seatLockKey ev seat"
  obtain r' where w': "w' = w\<lparr>w_redis := r'\<rparr>"
    and r': "r' = w_redis w \<or> r' = fst (release_seat S [?k] [user, hold] (w_redis w))"
    using release_run [OF assms(1,3)] by (auto simp: release_executed_def simp del: release_seat.simps)
  show ?thesis
  proof (cases "held_by S ?k user hold (w_redis w)")
    case True
    with release_seat_owned [OF True] r' w' show ?thesis by (auto simp del: release_seat.simps)
  next
    case False
    with release_seat_foreign [OF False assms(2)] r' w' show ?thesis by (auto simp del: release_seat.simps)
  qed
qed

lemma hold_lifetime:
  assumes "held_by S k user hold r" and "pttl k r = Some t"
  shows "held_by S k user hold (elapse n r) \<longleftrightarrow> n < t"
    and "GET S k (elapse n r) = None \<longleftrightarrow> t \<le> n"
  using assms get_elapse [of k n r] by (auto simp: held_by_def)

end

section \<open>Properties of one call\<close>

lemma ref_registered [simp]: "registered ref_services ref_sha1 ref_world"
  by (simp add: registered_def ref_world_def)

lemma ref_world_simps [simp]:
  "w_redis ref_world = ref_redis0" "w_db ref_world = ref_db0" "w_clock ref_world = 0"
  by (simp_all add: ref_world_def)

lemma ref_get_empty [simp]: "ref_get k ref_redis0 = None"
  by (simp add: ref_get_def ref_redis0_def)

lemma well_held_free: "GET S key r = None \<Longrightarrow> well_held S key r"
  by (simp add: well_held_def)

text \<open>An attempt on a free key of the reference store.\<close>

lemma ref_acquire_free:
  assumes "rs_cached (w_redis w)" and "w_digests w = w_digests ref_world"
    and "ref_get (seatLockKey ev sid) (w_redis w) = None" and "effective_ttl ttl = 600"
  shows "run (acquireSeatHold ref_services h ev sid u ttl) w =
    (w\<lparr>w_redis := ref_set (seatLockKey ev sid)
        (stringify (JObj (held_members u h (rs_time (w_redis w)) (rs_time (w_redis w) + 600)))) (Some 600000) (w_redis w)\<rparr>,
     Inr \<lparr>se_result = RInt 1, se_holdId = h, se_ttlSeconds = 600, se_expiresAt = w_clock w + 600000\<rparr>)"
proof -
  have sha: "c_evalsha ref_client (ref_sha1 (ref_text atomicSeatLock)) keys args (w_redis w)
      = lua_script ref_server atomicSeatLock keys args (w_redis w)" for keys args
    using assms(1) by (simp add: ref_client_def ref_evalsha_def ref_sha1_def ref_eval_def)
  have dig: "w_digests w atomicSeatLock = Some (ref_sha1 (ref_text atomicSeatLock))"
    using assms(2) by (simp add: ref_world_def)
  show ?thesis
    using assms(3,4) by (simp add: acquireSeatHold_def Let_def run_simps sha dig del: stringify.simps)
qed

lemma ref_acquire_run:
  "run (acquireSeatHold ref_services ''h1'' ''ev'' ''s1'' ''u1'' NaN) ref_world =
    (ref_world\<lparr>w_redis := ref_set (seatLockKey ''ev'' ''s1'')
        (stringify (JObj (held_members ''u1'' ''h1'' 1000 1600))) (Some 600000) ref_redis0\<rparr>,
     Inr \<lparr>se_result = RInt 1, se_holdId = ''h1'', se_ttlSeconds = 600, se_expiresAt = 600000\<rparr>)"
proof -
  have "rs_cached ref_redis0" "rs_time ref_redis0 = 1000" by (simp_all add: ref_redis0_def)
  then show ?thesis
    by (subst ref_acquire_free) (simp_all add: effective_ttl_def DEFAULT_TTL_SECONDS_def del: stringify.simps)
qed

text \<open>
  Claim C18.  A call of \<open>acquireSeatHold\<close> that returns won exactly if the seat key was free.
  Then the key holds the caller's user id and the fresh hold id for the requested time to
  live and no other key changed; otherwise nothing changed at all.  It holds whether or
  not the server had the script cached.
\<close>

theorem acquire_iff_free:
  assumes "redis_remote S pttl elapse svc sha1" and "registered svc sha1 w"
    and "well_held S (seatLockKey ev seat) (w_redis w)"
    and "run (acquireSeatHold svc uuid ev seat user ttl) w = (w', Inr ex)"
  shows "se_holdId ex = uuid \<and>
    (if GET S (seatLockKey ev seat) (w_redis w) = None
     then se_result ex = RInt 1 \<and> held_by S (seatLockKey ev seat) user uuid (w_redis w') \<and>
       pttl (seatLockKey ev seat) (w_redis w') = Some (nat (effective_ttl ttl) * 1000) \<and>
       (\<forall>k. k \<noteq> seatLockKey ev seat \<longrightarrow> GET S k (w_redis w') = GET S k (w_redis w))
     else se_result ex = RInt 0 \<and> w' = w)"
  using assms by (rule redis_remote.acquire_returns)

theorem acquire_iff_free_witness:
  "held_by ref_server (seatLockKey ''ev'' ''s1'') ''u1'' ''h1''
     (w_redis (fst (run (acquireSeatHold ref_services ''h1'' ''ev'' ''s1'' ''u1'' NaN) ref_world)))"
proof -
  have "well_held ref_server (seatLockKey ''ev'' ''s1'') (w_redis ref_world)"
    by (simp add: well_held_free)
  from acquire_iff_free [OF ref_remote.redis_remote_axioms ref_registered this ref_acquire_run]
  show ?thesis by (simp add: ref_acquire_run del: stringify.simps)
qed

text \<open>
  Claim C22.  A call of \<open>acquireSeatHold\<close> that fails (a connection is lost, say) has changed
  nothing, or has set the caller's hold on a free key and lost the answer: another user's
  hold and every other key are as before.
\<close>

theorem acquire_failure_effect:
  assumes "redis_remote S pttl elapse svc sha1" and "registered svc sha1 w"
    and "well_held S (seatLockKey ev seat) (w_redis w)"
    and "run (acquireSeatHold svc uuid ev seat user ttl) w = (w', Inl e)"
  shows "w' = w \<or>
    GET S (seatLockKey ev seat) (w_redis w) = None \<and> held_by S (seatLockKey ev seat) user uuid (w_redis w') \<and>
    (\<forall>k. k \<noteq> seatLockKey ev seat \<longrightarrow> GET S k (w_redis w') = GET S k (w_redis w))"
  using assms by (rule redis_remote.acquire_failure)

text \<open>A connection that drops the answer of every script.\<close>

definition lossy_services :: "(ref_redis, ref_db) services" where
  "lossy_services = ref_services\<lparr>redis := ref_client\<lparr>c_evalsha := (\<lambda>d keys args r.
     (fst (ref_evalsha d keys args r), Inl (JsError ''Connection is closed.'')))\<rparr>\<rparr>"

lemma closed_not_noscript [simp]: "\<not> isNoscriptError (JsError ''Connection is closed.'')"
  by code_simp

lemma delivers_lost: "\<not> isNoscriptError e \<Longrightarrow> delivers r x (fst x, Inl e)"
  by (auto simp: delivers_def)

lemma delivers_refused: "\<not> isNoscriptError e \<Longrightarrow> delivers r x (r, Inl e)"
  by (auto simp: delivers_def)

lemma lossy_remote: "redis_remote ref_server ref_pttl ref_elapse lossy_services ref_sha1"
proof (unfold_locales, goal_cases)
  case (1 nm source r keys args)
  then have t: "source = ref_text nm" by (simp add: lossy_services_def)
  show ?case
    by (cases "rs_cached r")
       (simp_all add: lossy_services_def t delivers_lost delivers_refused ref_evalsha_def ref_sha1_def ref_eval_def)
qed (auto simp: lossy_services_def ref_client_def ref_eval_def ref_get_def ref_pttl_def)

lemma lossy_acquire_run:
  "run (acquireSeatHold lossy_services ''h1'' ''ev'' ''s1'' ''u1'' NaN) ref_world =
    (ref_world\<lparr>w_redis := ref_set (seatLockKey ''ev'' ''s1'')
        (stringify (JObj (held_members ''u1'' ''h1'' 1000 1600))) (Some 600000) ref_redis0\<rparr>,
     Inl (JsError ''Connection is closed.''))"
proof -
  have sha: "ref_evalsha (ref_sha1 (ref_text atomicSeatLock)) keys args ref_redis0
      = lua_script ref_server atomicSeatLock keys args ref_redis0" for keys args
    by (simp add: ref_evalsha_def ref_sha1_def ref_eval_def ref_redis0_def)
  have dig: "w_digests ref_world atomicSeatLock = Some (ref_sha1 (ref_text atomicSeatLock))"
    by (simp add: ref_world_def)
  have "rs_time ref_redis0 = 1000" by (simp add: ref_redis0_def)
  then show ?thesis
    by (simp add: acquireSeatHold_def Let_def run_simps sha dig effective_ttl_def DEFAULT_TTL_SECONDS_def
        lossy_services_def del: stringify.simps)
qed

theorem acquire_failure_effect_witness:
  "let w' = fst (run (acquireSeatHold lossy_services ''h1'' ''ev'' ''s1'' ''u1'' NaN) ref_world)
   in w' = ref_world \<or> held_by ref_server (seatLockKey ''ev'' ''s1'') ''u1'' ''h1'' (w_redis w')"
proof -
  have "well_held ref_server (seatLockKey ''ev'' ''s1'') (w_redis ref_world)"
    by (simp add: well_held_free)
  moreover have "registered lossy_services ref_sha1 ref_world"
    by (simp add: registered_def lossy_services_def ref_world_def)
  ultimately show ?thesis
    using acquire_failure_effect [OF lossy_remote _ _ lossy_acquire_run]
    by (auto simp: lossy_acquire_run simp del: stringify.simps)
qed

text \<open>
  Claim C19.  \<open>releaseSeatHold\<close> answers \<open>true\<close> exactly for the user and the hold id the key
  holds.  Then the key is deleted and no other key changes; any other caller, also one
  with a stale hold id of the same user, changes nothing.
\<close>

theorem release_iff_owner:
  assumes "redis_remote S pttl elapse svc sha1" and "registered svc sha1 w"
    and "well_held S (seatLockKey ev seat) (w_redis w)"
    and "run (releaseSeatHold svc ev seat user hold) w = (w', Inr b)"
  shows "b = held_by S (seatLockKey ev seat) user hold (w_redis w) \<and>
    (if b then \<forall>k. GET S k (w_redis w') = (if k = seatLockKey ev seat then None else GET S k (w_redis w))
     else w' = w)"
  using assms by (rule redis_remote.release_returns)

lemma ref_release_run:
  "run (releaseSeatHold ref_services ''ev'' ''s1'' ''u1'' ''h1'') ref_world = (ref_world, Inr False)"
proof -
  have sha: "c_evalsha ref_client (ref_sha1 (ref_text releaseSeatScript)) keys args ref_redis0
      = lua_script ref_server releaseSeatScript keys args ref_redis0" for keys args
    by (simp add: ref_client_def ref_evalsha_def ref_sha1_def ref_eval_def ref_redis0_def)
  have dig: "w_digests ref_world releaseSeatScript = Some (ref_sha1 (ref_text releaseSeatScript))"
    by (simp add: ref_world_def)
  have "ref_world\<lparr>w_redis := ref_redis0\<rparr> = ref_world" by (simp add: ref_world_def)
  then show ?thesis by (simp add: releaseSeatHold_def Let_def run_simps sha dig)
qed

theorem release_iff_owner_witness:
  "\<not> held_by ref_server (seatLockKey ''ev'' ''s1'') ''u1'' ''h1'' (w_redis ref_world)"
proof -
  have "well_held ref_server (seatLockKey ''ev'' ''s1'') (w_redis ref_world)"
    by (simp add: well_held_free)
  from release_iff_owner [OF ref_remote.redis_remote_axioms ref_registered this ref_release_run]
  show ?thesis by simp
qed

end
