(* ===== verification/Seat_Contest.thy ===== *)
theory Seat_Contest imports Seat_Lock begin

text \<open>
  Any number of callers try to hold the same seat at the same time.  The pool of
  \<open>acquireSeatHold\<close> calls is interleaved at every \<open>await\<close>, together with any activity of
  the rest of the system that leaves this seat's key alone.  The result is the property
  the concurrency test of the repository still lists as to do: one winner, whatever the
  schedule.
\<close>

section \<open>The moves of the callers and of the others\<close>

text \<open>Activity that leaves the key and the registered digests as they are.\<close>

definition quiet :: "'r redis_server \<Rightarrow> string \<Rightarrow> ('r, 'd) world \<Rightarrow> ('r, 'd) world \<Rightarrow> bool" where
  "quiet S key w w' \<longleftrightarrow> w_digests w' = w_digests w \<and> GET S key (w_redis w') = GET S key (w_redis w)"

text \<open>Caller \<open>i\<close> of \<open>n\<close> may take the key when it is free, and does nothing else to it.\<close>

definition takes ::
  "'r redis_server \<Rightarrow> string \<Rightarrow> nat \<Rightarrow> (nat \<Rightarrow> string) \<Rightarrow> (nat \<Rightarrow> string) \<Rightarrow> nat \<Rightarrow>
   ('r, 'd) world \<Rightarrow> ('r, 'd) world \<Rightarrow> bool" where
  "takes S key n user uuid i w w' \<longleftrightarrow>
     quiet S key w w' \<or>
     i < n \<and> w_digests w' = w_digests w \<and> GET S key (w_redis w) = None \<and>
       held_by S key (user i) (uuid i) (w_redis w')"

definition others_move ::
  "'r redis_server \<Rightarrow> string \<Rightarrow> nat \<Rightarrow> (nat \<Rightarrow> string) \<Rightarrow> (nat \<Rightarrow> string) \<Rightarrow> nat \<Rightarrow>
   ('r, 'd) world \<Rightarrow> ('r, 'd) world \<Rightarrow> bool" where
  "others_move S key n user uuid i w w' \<longleftrightarrow>
     quiet S key w w' \<or> (\<exists>j. j \<noteq> i \<and> takes S key n user uuid j w w')"

interpretation contest: compatible
  "others_move S key n user uuid" "takes S key n user uuid" "quiet S key"
  for S key n user uuid
proof unfold_locales
  fix i j :: nat and w w'
  assume "i \<noteq> j" and "takes S key n user uuid j w w'"
  then have "\<exists>j. j \<noteq> i \<and> takes S key n user uuid j w w'" by (intro exI [of _ j]) simp
  then show "others_move S key n user uuid i w w'" unfolding others_move_def ..
qed (simp add: others_move_def)

text \<open>What a caller knows before its script runs, and what its result says afterwards.\<close>

definition may_try ::
  "'r redis_server \<Rightarrow> ('r, 'd) services \<Rightarrow> (string \<Rightarrow> string) \<Rightarrow> string \<Rightarrow> string \<Rightarrow> string \<Rightarrow> ('r, 'd) world \<Rightarrow> bool" where
  "may_try S svc sha1 key user uuid w \<longleftrightarrow>
     registered svc sha1 w \<and> well_held S key (w_redis w) \<and> \<not> held_by S key user uuid (w_redis w)"

definition outcome ::
  "'r redis_server \<Rightarrow> string \<Rightarrow> string \<Rightarrow> string \<Rightarrow> reply \<Rightarrow> ('r, 'd) world \<Rightarrow> bool" where
  "outcome S key user uuid result w \<longleftrightarrow>
     result = RInt 1 \<and> held_by S key user uuid (w_redis w) \<or>
     result = RInt 0 \<and> GET S key (w_redis w) \<noteq> None \<and> \<not> held_by S key user uuid (w_redis w)"

lemma may_try_digest:
  "may_try S svc sha1 key user uuid w \<Longrightarrow>
    \<exists>src. scriptFile svc atomicSeatLock = Inr src \<and> w_digests w atomicSeatLock = Some (sha1 src)"
  by (auto simp: may_try_def registered_def)

lemma held_by_taken: "held_by S key u h r \<Longrightarrow> GET S key r \<noteq> None"
  by (auto simp: held_by_def)

lemma takes_keeps_taken:
  "takes S key n user uuid i w w' \<Longrightarrow> GET S key (w_redis w) \<noteq> None \<Longrightarrow>
    GET S key (w_redis w') = GET S key (w_redis w)"
  by (auto simp: takes_def quiet_def)

lemma quiet_takes: "quiet S key w w' \<Longrightarrow> takes S key n user uuid i w w'"
  by (simp add: takes_def)

lemma others_moveE:
  assumes "others_move S key n user uuid i w w'"
  obtains (quiet) "quiet S key w w'"
  | (taken) j where "j \<noteq> i" "j < n" "w_digests w' = w_digests w" "GET S key (w_redis w) = None"
      "held_by S key (user j) (uuid j) (w_redis w')"
  using assms by (auto simp: others_move_def takes_def)

lemma stable_may_try [stable_intros]:
  assumes "inj uuid" and "i < n"
  shows "stable (others_move S key n user uuid i) (may_try S svc sha1 key (user i) (uuid i))"
proof (rule stableI)
  fix w w'
  assume m: "may_try S svc sha1 key (user i) (uuid i) w" and "others_move S key n user uuid i w w'"
  from this(2) show "may_try S svc sha1 key (user i) (uuid i) w'"
  proof (cases rule: others_moveE)
    case quiet
    with m show ?thesis by (auto simp: may_try_def quiet_def registered_def held_by_def well_held_def)
  next
    case (taken j)
    have "\<not> held_by S key (user i) (uuid i) (w_redis w')"
      using held_by_unique [OF taken(5)] taken(1) assms(1) by (auto dest: injD)
    with m taken show ?thesis
      by (auto simp: may_try_def registered_def intro: held_by_well_held)
  qed
qed

lemma stable_outcome [stable_intros]:
  "stable (others_move S key n user uuid i) (outcome S key (user i) (uuid i) result)"
proof (rule stableI)
  fix w w'
  assume o: "outcome S key (user i) (uuid i) result w" and "others_move S key n user uuid i w w'"
  from this(2) show "outcome S key (user i) (uuid i) result w'"
  proof (cases rule: others_moveE)
    case quiet
    with o show ?thesis by (auto simp: outcome_def quiet_def held_by_def)
  next
    case (taken j)
    with o show ?thesis by (auto simp: outcome_def held_by_def)
  qed
qed

section \<open>One caller keeps to its moves\<close>

context redis_remote begin

text \<open>The script, executed or not, answered or not, is a move of the caller.\<close>

lemma lock_sha_outcome:
  assumes "scriptFile svc atomicSeatLock = Inr src"
    and "c_evalsha (redis svc) (sha1 src) [key] [u, h, show_int ttl] r = (r', x)"
  shows "case x of Inr rep \<Rightarrow> lock_executed S key u h ttl r = (r', Inr rep)
    | Inl e \<Rightarrow> if isNoscriptError e then r' = r else r' = r \<or> r' = fst (lock_executed S key u h ttl r)"
  unfolding lock_executed_def
  by (rule sha_outcome [OF assms]) (rule lock_executed_error [unfolded lock_executed_def, THEN conjunct2])

lemma lock_eval_outcome:
  assumes "scriptFile svc atomicSeatLock = Inr src"
    and "c_eval (redis svc) src [key] [u, h, show_int ttl] r = (r', x)"
  shows "case x of Inr rep \<Rightarrow> lock_executed S key u h ttl r = (r', Inr rep)
    | Inl e \<Rightarrow> r' = r \<or> r' = fst (lock_executed S key u h ttl r)"
  unfolding lock_executed_def by (rule eval_outcome [OF assms])

lemma script_move:
  assumes "may_try S svc sha1 key (user i) (uuid i) w" and "i < n" and "0 < ttl"
    and "r' = w_redis w \<or> r' = fst (lock_executed S key (user i) (uuid i) ttl (w_redis w))"
  shows "takes S key n user uuid i w (w\<lparr>w_redis := r'\<rparr>)"
proof (cases "GET S key (w_redis w) = None")
  case True
  obtain v where "lock_executed S key (user i) (uuid i) ttl (w_redis w) = (SET_EX S key v ttl (w_redis w), Inr (RInt 1))"
    "hold_value S v (user i) (uuid i)" using lock_executed_free [OF True assms(3)] by blast
  with True assms show ?thesis
    by (auto simp: takes_def quiet_def held_by_def get_set_ex [OF assms(3)])
next
  case False
  with assms lock_executed_taken [OF False] show ?thesis
    by (auto simp: takes_def quiet_def may_try_def)
qed

lemma script_outcome:
  assumes "may_try S svc sha1 key u h w" and "0 < ttl"
    and "lock_executed S key u h ttl (w_redis w) = (r', Inr result)"
  shows "outcome S key u h result (w\<lparr>w_redis := r'\<rparr>)"
proof (cases "GET S key (w_redis w) = None")
  case True
  obtain v where "lock_executed S key u h ttl (w_redis w) = (SET_EX S key v ttl (w_redis w), Inr (RInt 1))"
    "hold_value S v u h" using lock_executed_free [OF True assms(2)] by blast
  with assms show ?thesis by (auto simp: outcome_def held_by_def get_set_ex [OF assms(2)])
next
  case False
  with assms lock_executed_taken [OF False] show ?thesis
    by (auto simp: outcome_def may_try_def)
qed

text \<open>Caller \<open>i\<close> keeps to its moves, and may throw anything that \<open>E\<close> allows.\<close>

abbreviation caller ::
  "string \<Rightarrow> nat \<Rightarrow> (nat \<Rightarrow> string) \<Rightarrow> (nat \<Rightarrow> string) \<Rightarrow> nat \<Rightarrow> ('a \<Rightarrow> ('r, 'd) world \<Rightarrow> bool) \<Rightarrow>
   (exn \<Rightarrow> ('r, 'd) world \<Rightarrow> bool) \<Rightarrow> (('r, 'd) world \<Rightarrow> bool) \<Rightarrow> (('r, 'd) world, 'a) proc \<Rightarrow> bool" where
  "caller key n user uuid i \<equiv> rg (others_move S key n user uuid i) (takes S key n user uuid i)"

abbreviation trying :: "string \<Rightarrow> (nat \<Rightarrow> string) \<Rightarrow> (nat \<Rightarrow> string) \<Rightarrow> nat \<Rightarrow> ('r, 'd) world \<Rightarrow> bool" where
  "trying key user uuid i \<equiv> may_try S svc sha1 key (user i) (uuid i)"

abbreviation known :: "string \<Rightarrow> (nat \<Rightarrow> string) \<Rightarrow> (nat \<Rightarrow> string) \<Rightarrow> nat \<Rightarrow> string \<Rightarrow> ('r, 'd) world \<Rightarrow> bool" where
  "known key user uuid i d w \<equiv>
     trying key user uuid i w \<and> (\<exists>src. scriptFile svc atomicSeatLock = Inr src \<and> d = sha1 src)"

lemma rg_execution:
  assumes "inj uuid" and "i < n"
  shows "caller key n user uuid i (\<lambda>ex. outcome S key (user i) (uuid i) (se_result ex)) E
     (outcome S key (user i) (uuid i) result)
     (await Date_now (\<lambda>now. Ret \<lparr>se_result = result, se_holdId = h, se_ttlSeconds = t, se_expiresAt = now + t * 1000\<rparr>))"
proof (rule rg_await [where ?Q1.0 = "\<lambda>_. outcome S key (user i) (uuid i) result"])
  show "caller key n user uuid i (\<lambda>_. outcome S key (user i) (uuid i) result) E (outcome S key (user i) (uuid i) result) Date_now"
    unfolding Date_now_def
    by (rule rg_reads) (auto intro: stable_intros quiet_takes simp: quiet_def)
qed (auto intro!: rg.rg_Ret stable_intros)

lemma rg_lock_digest:
  assumes "inj uuid" and "i < n"
  shows "caller key n user uuid i (known key user uuid i) (\<lambda>e w. isNoscriptError e \<longrightarrow> trying key user uuid i w)
    (trying key user uuid i) (getLuaScriptDigest atomicSeatLock)"
  unfolding getLuaScriptDigest_def
proof (rule rg_atomic, goal_cases)
  case (2 w w' d)
  then show ?case using may_try_digest [of S svc sha1 key "user i" "uuid i" w]
    by (auto intro!: quiet_takes simp: quiet_def)
next
  case (3 w w' e)
  then show ?case using may_try_digest [of S svc sha1 key "user i" "uuid i" w] by auto
qed (auto intro!: stable_intros stable_may_try [OF assms])

lemma rg_lock_sha:
  assumes "inj uuid" and "i < n" and t: "0 < t"
  shows "caller key n user uuid i (outcome S key (user i) (uuid i)) (\<lambda>e w. isNoscriptError e \<longrightarrow> trying key user uuid i w)
    (known key user uuid i d) (redis_do (c_evalsha (redis svc) d [key] [user i, uuid i, show_int t]))"
  unfolding redis_do_def
proof (rule rg_atomic, goal_cases)
  case (2 w w' result)
  then obtain src r' where src: "scriptFile svc atomicSeatLock = Inr src" and A: "trying key user uuid i w"
    and w': "w' = w\<lparr>w_redis := r'\<rparr>"
    and c: "c_evalsha (redis svc) (sha1 src) [key] [user i, uuid i, show_int t] (w_redis w) = (r', Inr result)"
    by (auto split: prod.splits)
  have "lock_executed S key (user i) (uuid i) t (w_redis w) = (r', Inr result)"
    using lock_sha_outcome [OF src c] by simp
  with script_outcome [OF A t this] script_move [of key user i uuid w n t r', OF A assms(2) t] w' show ?case by simp
next
  case (3 w w' e)
  then obtain src r' where src: "scriptFile svc atomicSeatLock = Inr src" and A: "trying key user uuid i w"
    and w': "w' = w\<lparr>w_redis := r'\<rparr>"
    and c: "c_evalsha (redis svc) (sha1 src) [key] [user i, uuid i, show_int t] (w_redis w) = (r', Inl e)"
    by (auto split: prod.splits)
  have o: "if isNoscriptError e then r' = w_redis w
      else r' = w_redis w \<or> r' = fst (lock_executed S key (user i) (uuid i) t (w_redis w))"
    using lock_sha_outcome [OF src c] by simp
  then have "takes S key n user uuid i w w'" using script_move [of key user i uuid w n t r', OF A assms(2) t] w' by (auto split: if_splits)
  with o A w' show ?case by auto
qed (auto intro!: stable_intros stable_may_try [OF assms(1,2)])

lemma rg_lock_eval:
  assumes "inj uuid" and "i < n" and t: "0 < t" and src: "scriptFile svc atomicSeatLock = Inr src"
  shows "caller key n user uuid i (outcome S key (user i) (uuid i)) (\<lambda>_ _. True) (trying key user uuid i)
    (redis_do (c_eval (redis svc) src [key] [user i, uuid i, show_int t]))"
  unfolding redis_do_def
proof (rule rg_atomic, goal_cases)
  case (2 w w' result)
  then obtain r' where w': "w' = w\<lparr>w_redis := r'\<rparr>"
    and c: "c_eval (redis svc) src [key] [user i, uuid i, show_int t] (w_redis w) = (r', Inr result)"
    by (auto split: prod.splits)
  have "lock_executed S key (user i) (uuid i) t (w_redis w) = (r', Inr result)"
    using lock_eval_outcome [OF src c] by simp
  with script_outcome [OF 2(1) t this] script_move [of key user i uuid w n t r', OF 2(1) assms(2) t] w' show ?case by simp
next
  case (3 w w' e)
  then obtain r' where w': "w' = w\<lparr>w_redis := r'\<rparr>"
    and c: "c_eval (redis svc) src [key] [user i, uuid i, show_int t] (w_redis w) = (r', Inl e)"
    by (auto split: prod.splits)
  then show ?case using lock_eval_outcome [OF src c] script_move [of key user i uuid w n t r', OF 3(1) assms(2) t] by auto
qed (auto intro!: stable_intros stable_may_try [OF assms(1,2)])

text \<open>The second attempt with the source of the script, after an error that is about the digest.\<close>

lemma rg_lock_fallback:
  assumes "inj uuid" and "i < n" and "0 < t"
    and k: "\<And>result. caller key n user uuid i Q (\<lambda>_ _. True) (outcome S key (user i) (uuid i) result) (k result)"
  shows "caller key n user uuid i Q (\<lambda>_ _. True) (\<lambda>w. isNoscriptError e \<longrightarrow> trying key user uuid i w)
    (if \<not> isNoscriptError e then Throw e
     else await (getLuaScriptSource svc atomicSeatLock) (\<lambda>source.
       await (redis_do (c_eval (redis svc) source [key] [user i, uuid i, show_int t])) k))"
proof (cases "isNoscriptError e")
  case False
  then show ?thesis by (auto intro!: rg.rg_Throw)
next
  case True
  show ?thesis
  proof (cases "scriptFile svc atomicSeatLock")
    case (Inl m)
    with True show ?thesis
      by (auto simp: getLuaScriptSource_def sync_def rethrow_def intro!: rg.rg_Throw stable_may_try [OF assms(1,2)])
  next
    case (Inr src)
    with True rg_await [OF rg_lock_eval [OF assms(1-3) Inr] k] show ?thesis
      by (simp add: getLuaScriptSource_def sync_def rethrow_def)
  qed
qed

lemma rg_acquire:
  assumes "inj uuid" and "i < n" and key: "key = seatLockKey ev seat"
  shows "caller key n user uuid i (\<lambda>ex. outcome S key (user i) (uuid i) (se_result ex)) (\<lambda>_ _. True)
     (trying key user uuid i) (acquireSeatHold svc (uuid i) ev seat (user i) ttl)"
  unfolding acquireSeatHold_def Let_def key [symmetric]
  by (rule rg_catch, rule rg_await [OF rg_lock_digest [OF assms(1,2)]],
      rule rg_await [OF rg_lock_sha [OF assms(1,2) effective_ttl_pos] rg_execution [OF assms(1,2)]],
      rule rg_lock_fallback [OF assms(1,2) effective_ttl_pos rg_execution [OF assms(1,2)]])

end

section \<open>One winner\<close>

text \<open>The pool of \<open>n\<close> callers of one seat, and the callers whose promise resolved with result 1.\<close>

definition attempts ::
  "('r, 'd) services \<Rightarrow> (nat \<Rightarrow> string) \<Rightarrow> string \<Rightarrow> string \<Rightarrow> (nat \<Rightarrow> string) \<Rightarrow> js_number \<Rightarrow> nat \<Rightarrow>
   (('r, 'd) world, SeatLockExecution) proc list" where
  "attempts svc uuid ev seat user ttl n = map (\<lambda>i. acquireSeatHold svc (uuid i) ev seat (user i) ttl) [0..<n]"

fun answered :: "('w, 'a) proc \<Rightarrow> bool" where
  "answered (Ret _) = True"
| "answered _ = False"

fun won :: "('w, SeatLockExecution) proc \<Rightarrow> bool" where
  "won (Ret ex) = (se_result ex = RInt 1)"
| "won _ = False"

lemma answeredE: "answered p \<Longrightarrow> (\<And>a. p = Ret a \<Longrightarrow> P) \<Longrightarrow> P"
  by (cases p) auto

lemma won_iff: "won p \<longleftrightarrow> (\<exists>ex. p = Ret ex \<and> se_result ex = RInt 1)"
  by (cases p) auto

lemma length_attempts [simp]: "length (attempts svc uuid ev seat user ttl n) = n"
  by (simp add: attempts_def)

context redis_remote begin

lemma attempts_holding:
  assumes "inj uuid" and "registered svc sha1 w" and "GET S (seatLockKey ev seat) (w_redis w) = None"
  shows "contest.holding S (seatLockKey ev seat) n user uuid
    (\<lambda>i ex. outcome S (seatLockKey ev seat) (user i) (uuid i) (se_result ex)) (\<lambda>_ _ _. True)
    (w, attempts svc uuid ev seat user ttl n)"
  unfolding contest.holding_def
proof (intro allI impI)
  fix i
  assume "i < length (snd (w, attempts svc uuid ev seat user ttl n))"
  then have i: "i < n" by simp
  from assms have "may_try S svc sha1 (seatLockKey ev seat) (user i) (uuid i) w"
    by (auto simp: may_try_def well_held_free held_by_def)
  moreover have "attempts svc uuid ev seat user ttl n ! i = acquireSeatHold svc (uuid i) ev seat (user i) ttl"
    using i by (simp add: attempts_def)
  ultimately show "\<exists>A. A (fst (w, attempts svc uuid ev seat user ttl n)) \<and>
      rg (others_move S (seatLockKey ev seat) n user uuid i) (takes S (seatLockKey ev seat) n user uuid i)
       (\<lambda>ex. outcome S (seatLockKey ev seat) (user i) (uuid i) (se_result ex)) (\<lambda>_ _. True) A
       (snd (w, attempts svc uuid ev seat user ttl n) ! i)"
    using rg_acquire [OF assms(1) i refl] by (metis fst_conv snd_conv)
qed

text \<open>The key is free until one of the callers has it.\<close>

lemma attempts_key:
  assumes "inj uuid" and "registered svc sha1 w" and "GET S (seatLockKey ev seat) (w_redis w) = None"
    and "pool_steps (quiet S (seatLockKey ev seat)) (w, attempts svc uuid ev seat user ttl n) (w', ps')"
  shows "GET S (seatLockKey ev seat) (w_redis w') = None \<or>
    (\<exists>i < n. held_by S (seatLockKey ev seat) (user i) (uuid i) (w_redis w'))"
proof -
  let ?I = "\<lambda>w. GET S (seatLockKey ev seat) (w_redis w) = None \<or>
    (\<exists>i < n. held_by S (seatLockKey ev seat) (user i) (uuid i) (w_redis w))"
  have "?I (fst (w', ps'))"
    by (rule contest.steps_invariant [OF assms(4) attempts_holding [OF assms(1-3)], where I = ?I])
       (use assms(3) in \<open>auto simp: takes_def quiet_def held_by_def\<close>)
  then show ?thesis by simp
qed

lemma attempts_outcome:
  assumes "inj uuid" and "registered svc sha1 w" and "GET S (seatLockKey ev seat) (w_redis w) = None"
    and "pool_steps (quiet S (seatLockKey ev seat)) (w, attempts svc uuid ev seat user ttl n) (w', ps')"
    and "i < n" and "ps' ! i = Ret ex"
  shows "outcome S (seatLockKey ev seat) (user i) (uuid i) (se_result ex) w'"
  using contest.finished_returned [OF assms(4) attempts_holding [OF assms(1-3)], of i ex] assms(5,6) by simp

lemma attempts_winner:
  assumes "inj uuid" and "registered svc sha1 w" and "GET S (seatLockKey ev seat) (w_redis w) = None"
    and "pool_steps (quiet S (seatLockKey ev seat)) (w, attempts svc uuid ev seat user ttl n) (w', ps')"
  shows "i < n \<Longrightarrow> won (ps' ! i) \<Longrightarrow> held_by S (seatLockKey ev seat) (user i) (uuid i) (w_redis w')"
    and "i < n \<Longrightarrow> j < n \<Longrightarrow> won (ps' ! i) \<Longrightarrow> won (ps' ! j) \<Longrightarrow> i = j"
    and "0 < n \<Longrightarrow> \<forall>i < n. answered (ps' ! i) \<Longrightarrow> \<exists>i < n. won (ps' ! i)"
proof -
  note out = attempts_outcome [OF assms]
  show held: "held_by S (seatLockKey ev seat) (user i) (uuid i) (w_redis w')"
    if "i < n" "won (ps' ! i)" for i
  proof -
    from that(2) obtain ex where "ps' ! i = Ret ex" "se_result ex = RInt 1" unfolding won_iff by blast
    with out [OF that(1)] show ?thesis by (auto simp: outcome_def)
  qed
  show "i = j" if "i < n" "j < n" "won (ps' ! i)" "won (ps' ! j)"
    using held_by_unique [OF held [OF that(1,3)] held [OF that(2,4)]] assms(1) by (auto dest: injD)
  show "\<exists>i < n. won (ps' ! i)" if n: "0 < n" and all: "\<forall>i < n. answered (ps' ! i)"
  proof -
    obtain ex where "ps' ! 0 = Ret ex" using n all by (auto elim: answeredE)
    with out [OF n] have "GET S (seatLockKey ev seat) (w_redis w') \<noteq> None"
      by (auto simp: outcome_def held_by_def)
    with attempts_key [OF assms] obtain i where i: "i < n"
      "held_by S (seatLockKey ev seat) (user i) (uuid i) (w_redis w')" by auto
    obtain ex where "ps' ! i = Ret ex" using i(1) all by (auto elim: answeredE)
    with out [OF i(1)] i have "won (ps' ! i)" by (auto simp: outcome_def)
    with i show ?thesis by auto
  qed
qed

end

section \<open>Properties\<close>

text \<open>
  Claim C2.  However the callers are interleaved, with each other and with any activity
  that leaves the seat's key alone, a caller that is told it won owns the key, no two
  callers are told so, and if every one of them got an answer exactly one won.
\<close>

theorem exactly_one_winner:
  assumes "redis_remote S pttl elapse svc sha1" and "registered svc sha1 w" and "inj uuid"
    and "GET S (seatLockKey ev seat) (w_redis w) = None"
    and "pool_steps (quiet S (seatLockKey ev seat)) (w, attempts svc uuid ev seat user ttl n) (w', ps')"
  shows "(\<forall>i < n. won (ps' ! i) \<longrightarrow> held_by S (seatLockKey ev seat) (user i) (uuid i) (w_redis w')) \<and>
    (\<forall>i < n. \<forall>j < n. won (ps' ! i) \<longrightarrow> won (ps' ! j) \<longrightarrow> i = j) \<and>
    (0 < n \<longrightarrow> (\<forall>i < n. answered (ps' ! i)) \<longrightarrow> (\<exists>!i. i < n \<and> won (ps' ! i)))"
  using redis_remote.attempts_winner [OF assms(1,3,2,4,5)] by blast

text \<open>Two callers on the reference store.\<close>

lemma ref_acquire_answers:
  assumes "rs_cached (w_redis w)" and "w_digests w = w_digests ref_world"
    and "well_held ref_server (seatLockKey ev seat) (w_redis w)"
  shows "\<exists>r' ex. run (acquireSeatHold ref_services uuid ev seat user ttl) w = (w\<lparr>w_redis := r'\<rparr>, Inr ex) \<and> rs_cached r'"
proof -
  let ?k = "seatLockKey ev seat" and ?r = "w_redis w"
  let ?args = "[user, uuid, show_int (effective_ttl ttl)]"
  have sha: "c_evalsha ref_client (ref_sha1 (ref_text atomicSeatLock)) [?k] ?args ?r
      = lock_executed ref_server ?k user uuid (effective_ttl ttl) ?r"
    using assms(1) by (simp add: ref_client_def ref_evalsha_def ref_sha1_def ref_eval_def lock_executed_def
        del: lua_script.simps)
  have dig: "w_digests w atomicSeatLock = Some (ref_sha1 (ref_text atomicSeatLock))"
    using assms(2) by (simp add: ref_world_def)
  have "\<exists>r' a. lock_executed ref_server ?k user uuid (effective_ttl ttl) ?r = (r', Inr a) \<and> rs_cached r'"
  proof (cases "GET ref_server ?k ?r = None")
    case True
    from ref_remote.lock_executed_free [OF this effective_ttl_pos] assms(1) show ?thesis
      by (fastforce simp: ref_set_def)
  next
    case False
    from ref_remote.lock_executed_taken [OF this assms(3)] assms(1) show ?thesis by auto
  qed
  then show ?thesis
    by (auto simp: acquireSeatHold_def Let_def run_simps sha dig)
qed

theorem exactly_one_winner_witness:
  "\<exists>w' ps'. (\<forall>i < 2. answered (ps' ! i)) \<and> (\<exists>!i. i < 2 \<and> won (ps' ! i)) \<and>
    pool_steps (quiet ref_server (seatLockKey ''ev'' ''s1''))
      (ref_world, attempts ref_services (\<lambda>i. replicate i CHR ''h'') ''ev'' ''s1'' (\<lambda>_. ''u'') NaN 2) (w', ps')"
proof -
  let ?k = "seatLockKey ''ev'' ''s1''" and ?id = "\<lambda>i. replicate i CHR ''h''"
  let ?ps = "attempts ref_services ?id ''ev'' ''s1'' (\<lambda>_. ''u'') NaN 2"
  have free: "GET ref_server ?k (w_redis ref_world) = None" by simp
  have ps: "?ps ! 0 = acquireSeatHold ref_services (?id 0) ''ev'' ''s1'' ''u'' NaN"
    "?ps ! 1 = acquireSeatHold ref_services (?id 1) ''ev'' ''s1'' ''u'' NaN"
    by (simp_all add: attempts_def del: One_nat_def)
  obtain r1 ex1 where run1: "run (?ps ! 0) ref_world = (ref_world\<lparr>w_redis := r1\<rparr>, Inr ex1)" "rs_cached r1"
    using ref_acquire_answers [of ref_world "''ev''" "''s1''" "?id 0" "''u''" NaN]
    by (auto simp: ps well_held_free ref_redis0_def [THEN arg_cong [of _ _ rs_cached]])
  let ?w1 = "ref_world\<lparr>w_redis := r1\<rparr>"
  have "well_held ref_server ?k (w_redis ?w1)"
    using ref_remote.acquire_returns [OF ref_registered well_held_free [OF free] run1(1) [unfolded ps]] free
    by (auto intro: held_by_well_held)
  then obtain r2 ex2 where run2: "run (?ps ! 1) ?w1 = (?w1\<lparr>w_redis := r2\<rparr>, Inr ex2)"
    using ref_acquire_answers [of ?w1 "''ev''" "''s1''" "?id 1" "''u''" NaN] run1(2)
    by (auto simp: ps [unfolded One_nat_def])
  let ?ps2 = "?ps[0 := Ret ex1, 1 := Ret ex2]"
  have "pool_steps (quiet ref_server ?k) (ref_world, ?ps) (?w1, ?ps[0 := Ret ex1])"
    by (rule pool_steps_run [OF run1(1)]) simp_all
  moreover have "pool_steps (quiet ref_server ?k) (?w1, ?ps[0 := Ret ex1]) (?w1\<lparr>w_redis := r2\<rparr>, ?ps2)"
    by (rule pool_steps_run [OF run2]) simp_all
  ultimately have steps: "pool_steps (quiet ref_server ?k) (ref_world, ?ps) (?w1\<lparr>w_redis := r2\<rparr>, ?ps2)"
    unfolding pool_steps_def by (rule rtranclp_trans)
  have all: "\<forall>i < 2. answered (?ps2 ! i)" by (auto simp: less_2_cases_iff nth_list_update)
  have "inj ?id" by (rule injI) (metis length_replicate)
  from exactly_one_winner [OF ref_remote.redis_remote_axioms ref_registered this free steps] all
  have "\<exists>!i. i < 2 \<and> won (?ps2 ! i)" by simp
  with all steps show ?thesis by blast
qed

text \<open>
  Claim C30.  A hold ends by itself: taken on a free key for \<open>t\<close> seconds, it is there for
  every instant before \<open>t * 1000\<close> milliseconds have passed and the key is free again
  from then on, so a crashed client cannot block a seat for longer.
\<close>

theorem hold_expires:
  assumes "redis_remote S pttl elapse svc sha1" and "registered svc sha1 w"
    and "GET S (seatLockKey ev seat) (w_redis w) = None"
    and "run (acquireSeatHold svc uuid ev seat user ttl) w = (w', Inr ex)"
  shows "(held_by S (seatLockKey ev seat) user uuid (elapse ms (w_redis w')) \<longleftrightarrow> ms < nat (effective_ttl ttl) * 1000) \<and>
    (GET S (seatLockKey ev seat) (elapse ms (w_redis w')) = None \<longleftrightarrow> nat (effective_ttl ttl) * 1000 \<le> ms)"
proof -
  have "held_by S (seatLockKey ev seat) user uuid (w_redis w')"
    "pttl (seatLockKey ev seat) (w_redis w') = Some (nat (effective_ttl ttl) * 1000)"
    using redis_remote.acquire_returns [OF assms(1,2) well_held_free [OF assms(3)] assms(4)] assms(3) by auto
  then show ?thesis using redis_remote.hold_lifetime [OF assms(1)] by blast
qed

theorem hold_expires_witness:
  "ref_get (seatLockKey ''ev'' ''s1'')
     (ref_elapse 600000 (w_redis (fst (run (acquireSeatHold ref_services ''h1'' ''ev'' ''s1'' ''u1'' NaN) ref_world)))) = None"
proof -
  have "GET ref_server (seatLockKey ''ev'' ''s1'') (w_redis ref_world) = None" by simp
  from hold_expires [OF ref_remote.redis_remote_axioms ref_registered this ref_acquire_run, of 600000]
  show ?thesis by (simp add: ref_acquire_run effective_ttl_def DEFAULT_TTL_SECONDS_def del: stringify.simps)
qed

end
