(* ===== verification/Streams.thy ===== *)
theory Streams imports Ref_Store begin

text \<open>
  The order stream and its consumer group, as the engine uses them, and the contract of
  the whole back end.  The stream is \<open>stream:orders\<close>, the group is
  \<open>order-settlement-workers\<close>.  The views of the Redis state are the entries of the
  stream, the ids the group has not been handed yet (\<open>None\<close> while there is no group),
  and the ids handed out and not acknowledged (the pending entries list).
\<close>

section \<open>The contract\<close>

text \<open>What \<open>XREADGROUP\<close> and \<open>XAUTOCLAIM\<close> answer for a set of ids.\<close>

definition batch_of :: "stream_entry list \<Rightarrow> string set \<Rightarrow> (string \<times> string list) list" where
  "batch_of es ids = map flat_entry (filter (\<lambda>e. fst e \<in> ids) es)"

locale redis_streams = redis_remote S pttl elapse svc sha1
  for S :: "'r redis_server" and pttl and elapse and svc :: "('r, 'd) services" and sha1 +
  fixes entries :: "'r \<Rightarrow> stream_entry list"
    and undelivered :: "'r \<Rightarrow> string list option"
    and pending :: "'r \<Rightarrow> string set"
  assumes set_ex_streams: "k \<noteq> ORDER_STREAM_KEY \<Longrightarrow>
      entries (SET_EX S k v t r) = entries r \<and> undelivered (SET_EX S k v t r) = undelivered r \<and>
      pending (SET_EX S k v t r) = pending r"
    and del_streams: "k \<noteq> ORDER_STREAM_KEY \<Longrightarrow> DEL S k r = (r', cnt) \<Longrightarrow>
      entries r' = entries r \<and> undelivered r' = undelivered r \<and> pending r' = pending r"
    and publish_remote: "c_publish (redis svc) ch m r = (r', published) \<Longrightarrow>
      (\<forall>k. GET S k r' = GET S k r) \<and> (\<forall>k. pttl k r' = pttl k r) \<and>
      entries r' = entries r \<and> undelivered r' = undelivered r \<and> pending r' = pending r"
    and xadd_remote: "c_xadd (redis svc) ORDER_STREAM_KEY fs r = (r', added) \<Longrightarrow>
      (\<forall>k. GET S k r' = GET S k r) \<and> (\<forall>k. pttl k r' = pttl k r) \<and> pending r' = pending r \<and>
      ((\<exists>e. added = Inl e) \<and> entries r' = entries r \<and> undelivered r' = undelivered r \<or>
       (\<exists>i. (\<forall>j. added = Inr j \<longrightarrow> j = i) \<and> i \<notin> fst ` set (entries r) \<and> entries r' = entries r @ [(i, fs)] \<and>
         undelivered r' = map_option (\<lambda>u. u @ [i]) (undelivered r)))"
    and xgroup_remote: "c_xgroup_create (redis svc) ORDER_STREAM_KEY ORDER_CONSUMER_GROUP r = (r', created) \<Longrightarrow>
      (\<forall>k. GET S k r' = GET S k r) \<and> (\<forall>k. pttl k r' = pttl k r) \<and> entries r' = entries r \<and> pending r' = pending r \<and>
      (case created of
         Inr _ \<Rightarrow> undelivered r = None \<and> undelivered r' = Some []
       | Inl e \<Rightarrow>
           if js_includes (exn_message e) ''BUSYGROUP'' then undelivered r \<noteq> None \<and> undelivered r' = undelivered r
           else undelivered r' = undelivered r \<or> undelivered r = None \<and> undelivered r' = Some [])"
    and xreadgroup_remote: "c_xreadgroup (redis svc) ORDER_STREAM_KEY ORDER_CONSUMER_GROUP c n b r = (r', got) \<Longrightarrow>
      (\<forall>k. GET S k r' = GET S k r) \<and> (\<forall>k. pttl k r' = pttl k r) \<and> entries r' = entries r \<and>
      (((\<exists>e. got = Inl e) \<or> got = Inr None) \<and> undelivered r' = undelivered r \<and> pending r' = pending r \<or>
       (\<exists>u m. undelivered r = Some u \<and> m \<le> n \<and> undelivered r' = Some (drop m u) \<and>
          pending r' = pending r \<union> set (take m u) \<and>
          (\<forall>streams. got = Inr streams \<longrightarrow>
             streams = Some [(ORDER_STREAM_KEY, batch_of (entries r) (set (take m u)))])))"
    and xautoclaim_remote: "c_xautoclaim (redis svc) ORDER_STREAM_KEY ORDER_CONSUMER_GROUP c idle n r = (r', claimed) \<Longrightarrow>
      (\<forall>k. GET S k r' = GET S k r) \<and> (\<forall>k. pttl k r' = pttl k r) \<and> entries r' = entries r \<and>
      undelivered r' = undelivered r \<and> pending r' = pending r \<and>
      (\<forall>batch. claimed = Inr batch \<longrightarrow> length batch \<le> n \<and> set batch \<subseteq> set (batch_of (entries r) (pending r)))"
    and xack_remote: "c_xack (redis svc) ORDER_STREAM_KEY ORDER_CONSUMER_GROUP i r = (r', acked) \<Longrightarrow>
      (\<forall>k. GET S k r' = GET S k r) \<and> (\<forall>k. pttl k r' = pttl k r) \<and> entries r' = entries r \<and>
      undelivered r' = undelivered r \<and>
      (pending r' = pending r - {i} \<or> (\<exists>e. acked = Inl e) \<and> pending r' = pending r)"

text \<open>Redis and the database together: the back end the services work on.\<close>

locale engine =
  redis_streams S pttl elapse svc sha1 entries undelivered pending +
  prisma_tables "prisma svc" seats orders events
  for S :: "'r redis_server" and pttl and elapse and svc :: "('r, 'd) services" and sha1
    and entries and undelivered and pending and seats and orders and events

section \<open>It holds of the reference store\<close>

lemma ref_entries_simps [simp]:
  "ref_entries (ref_set k v t r) = ref_entries r"
  "ref_entries (r\<lparr>rs_undelivered := u\<rparr>) = ref_entries r"
  "ref_entries (r\<lparr>rs_pel := p\<rparr>) = ref_entries r"
  "ref_entries (r\<lparr>rs_str := s\<rparr>) = ref_entries r"
  by (simp_all add: ref_entries_def ref_set_def)

lemma ref_entries_append:
  "ref_entries (r\<lparr>rs_entries := rs_entries r @ [fs]\<rparr>) =
    ref_entries r @ [(show_nat (length (rs_entries r)), fs)]"
  by (auto simp: ref_entries_def nth_append)

lemma ref_entries_fresh: "show_nat (length (rs_entries r)) \<notin> fst ` set (ref_entries r)"
proof
  assume "show_nat (length (rs_entries r)) \<in> fst ` set (ref_entries r)"
  then obtain i where "i < length (rs_entries r)" "show_nat (length (rs_entries r)) = show_nat i"
    by (auto simp: ref_entries_def)
  then show False by (metis read_show_nat_self less_irrefl)
qed

lemma ref_batch_of: "ref_batch ids r = batch_of (ref_entries r) (set ids)"
  by (simp add: ref_batch_def batch_of_def)

interpretation ref_engine:
  engine ref_server ref_pttl ref_elapse ref_services ref_sha1 ref_entries rs_undelivered "\<lambda>r. set (rs_pel r)"
    ref_seats ref_orders rd_events
proof (intro engine.intro redis_streams.intro redis_streams_axioms.intro)
  show "redis_remote ref_server ref_pttl ref_elapse ref_services ref_sha1"
    by (rule ref_remote.redis_remote_axioms)
  show "prisma_tables (prisma ref_services) ref_seats ref_orders rd_events"
    by (simp add: ref_tables.prisma_tables_axioms)
next
  fix fs added and r r' :: ref_redis
  assume a: "c_xadd (redis ref_services) ORDER_STREAM_KEY fs r = (r', added)"
  let ?i = "show_nat (length (rs_entries r))"
  from a have "r' = r\<lparr>rs_entries := rs_entries r @ [fs],
      rs_undelivered := map_option (\<lambda>u. u @ [?i]) (rs_undelivered r)\<rparr>" "added = Inr ?i"
    by (auto simp: ref_client_def Let_def)
  then show "(\<forall>k. GET ref_server k r' = GET ref_server k r) \<and> (\<forall>k. ref_pttl k r' = ref_pttl k r) \<and>
     set (rs_pel r') = set (rs_pel r) \<and>
      ((\<exists>e. added = Inl e) \<and> ref_entries r' = ref_entries r \<and> rs_undelivered r' = rs_undelivered r \<or>
       (\<exists>i. (\<forall>j. added = Inr j \<longrightarrow> j = i) \<and> i \<notin> fst ` set (ref_entries r) \<and>
         ref_entries r' = ref_entries r @ [(i, fs)] \<and>
         rs_undelivered r' = map_option (\<lambda>u. u @ [i]) (rs_undelivered r)))"
    using ref_entries_fresh [of r]
    by (simp add: ref_entries_append ref_get_def ref_pttl_def)
next
  fix created and r r' :: ref_redis
  assume "c_xgroup_create (redis ref_services) ORDER_STREAM_KEY ORDER_CONSUMER_GROUP r = (r', created)"
  moreover have "js_includes ''BUSYGROUP Consumer Group name already exists'' ''BUSYGROUP''" by code_simp
  ultimately show "(\<forall>k. GET ref_server k r' = GET ref_server k r) \<and> (\<forall>k. ref_pttl k r' = ref_pttl k r) \<and>
      ref_entries r' = ref_entries r \<and> set (rs_pel r') = set (rs_pel r) \<and>
      (case created of
         Inr _ \<Rightarrow> rs_undelivered r = None \<and> rs_undelivered r' = Some []
       | Inl e \<Rightarrow>
           if js_includes (exn_message e) ''BUSYGROUP'' then rs_undelivered r \<noteq> None \<and> rs_undelivered r' = rs_undelivered r
           else rs_undelivered r' = rs_undelivered r \<or> rs_undelivered r = None \<and> rs_undelivered r' = Some [])"
    by (auto simp: ref_client_def ref_get_def ref_pttl_def split: option.splits)
next
  fix c n b got and r r' :: ref_redis
  assume "c_xreadgroup (redis ref_services) ORDER_STREAM_KEY ORDER_CONSUMER_GROUP c n b r = (r', got)"
  then show "(\<forall>k. GET ref_server k r' = GET ref_server k r) \<and> (\<forall>k. ref_pttl k r' = ref_pttl k r) \<and>
      ref_entries r' = ref_entries r \<and>
      (((\<exists>e. got = Inl e) \<or> got = Inr None) \<and> rs_undelivered r' = rs_undelivered r \<and> set (rs_pel r') = set (rs_pel r) \<or>
       (\<exists>u m. rs_undelivered r = Some u \<and> m \<le> n \<and> rs_undelivered r' = Some (drop m u) \<and>
          set (rs_pel r') = set (rs_pel r) \<union> set (take m u) \<and>
          (\<forall>streams. got = Inr streams \<longrightarrow>
             streams = Some [(ORDER_STREAM_KEY, batch_of (ref_entries r) (set (take m u)))])))"
    by (auto simp: ref_client_def ref_get_def ref_pttl_def ref_batch_of split: option.splits if_splits)
next
  fix c idle n claimed and r r' :: ref_redis
  assume "c_xautoclaim (redis ref_services) ORDER_STREAM_KEY ORDER_CONSUMER_GROUP c idle n r = (r', claimed)"
  then show "(\<forall>k. GET ref_server k r' = GET ref_server k r) \<and> (\<forall>k. ref_pttl k r' = ref_pttl k r) \<and>
      ref_entries r' = ref_entries r \<and> rs_undelivered r' = rs_undelivered r \<and> set (rs_pel r') = set (rs_pel r) \<and>
      (\<forall>batch. claimed = Inr batch \<longrightarrow> length batch \<le> n \<and> set batch \<subseteq> set (batch_of (ref_entries r) (set (rs_pel r))))"
    by (auto simp: ref_client_def ref_batch_of dest: in_set_takeD)
qed (auto simp: ref_client_def ref_get_def ref_pttl_def ref_del_def ref_set_def)

end
