(* ===== verification/Stampede.thy ===== *)
theory Stampede imports Streams Lua_Loader begin

text \<open>
  \<open>src/src/services/stampede.service.ts\<close>: seating maps behind a cache-aside read with a
  distributed mutex.  The token a caller draws with \<open>randomUUID()\<close> is an argument.  A timer
  that fires finds the clock at least as far as it was asked to wait; what else happens
  meanwhile is the business of the environment.
\<close>

section \<open>The service\<close>

definition CACHE_TTL_SECONDS :: int where
  "CACHE_TTL_SECONDS = 60"

definition LOCK_TTL_MS :: int where
  "LOCK_TTL_MS = 5000"

definition WAIT_ATTEMPTS :: nat where
  "WAIT_ATTEMPTS = 8"

definition WAIT_DELAY_MS :: int where
  "WAIT_DELAY_MS = 25"

definition seatingMapCacheKey :: "string \<Rightarrow> string" where
  "seatingMapCacheKey eventId = ''event:seating-map:'' @ eventId"

definition lockKey :: "string \<Rightarrow> string" where
  "lockKey eventId = ''lock:event:seating-map:'' @ eventId"

definition sleep :: "int \<Rightarrow> (('r, 'd) world, unit) proc" where
  "sleep milliseconds =
     await Date_now (\<lambda>started.
     modifies (\<lambda>w. w\<lparr>w_clock := max (w_clock w) (started + milliseconds)\<rparr>))"

definition acquireMutex :: "('r, 'd) services \<Rightarrow> string \<Rightarrow> string \<Rightarrow> (('r, 'd) world, string option) proc" where
  "acquireMutex svc randomUUID key =
     await (redis_do (c_set_px_nx (redis svc) key randomUUID LOCK_TTL_MS)) (\<lambda>ok.
     Ret (if ok then Some randomUUID else None))"

definition releaseMutex :: "('r, 'd) services \<Rightarrow> string \<Rightarrow> string \<Rightarrow> (('r, 'd) world, unit) proc" where
  "releaseMutex svc key token =
     await (getLuaScriptDigest LuaScriptName.releaseMutex) (\<lambda>digest.
     await (redis_do (c_evalsha (redis svc) digest [key] [token])) (\<lambda>_.
     Ret ()))"

text \<open>\<open>JSON.parse(value)\<close> of the text \<open>null\<close> is \<open>null\<close>, which the callers take for a miss.\<close>

definition readCachedMap :: "('r, 'd) services \<Rightarrow> string \<Rightarrow> (('r, 'd) world, json option) proc" where
  "readCachedMap svc key =
     await (redis_do (c_get (redis svc) key)) (\<lambda>value.
     case value of
       None \<Rightarrow> Ret None
     | Some v \<Rightarrow> await (sync (JSON_parse v)) (\<lambda>parsed. Ret (if parsed = JNull then None else Some parsed)))"

definition seating_map_of :: "event_row \<Rightarrow> seat_row list \<Rightarrow> SeatingMap" where
  "seating_map_of event event_seats =
     \<lparr>sm_eventId = evt_id event, sm_eventName = evt_name event, sm_startsAt = toISOString (evt_startsAt event),
      sm_seats = map (\<lambda>seat. \<lparr>ms_id = seat_id seat, ms_section = seat_section seat, ms_row = seat_row_label seat,
        ms_number = seat_number seat, ms_status = seat_status seat\<rparr>) event_seats\<rparr>"

definition loadFromDatabase :: "('r, 'd) services \<Rightarrow> string \<Rightarrow> (('r, 'd) world, SeatingMap) proc" where
  "loadFromDatabase svc eventId =
     await (db_read (pc_event_with_seats (prisma svc) eventId)) (\<lambda>event.
     case event of
       None \<Rightarrow> Throw (JsError (''Event not found: '' @ eventId))
     | Some (e, event_seats) \<Rightarrow> Ret (seating_map_of e event_seats))"

definition getSeatingMapDirect :: "('r, 'd) services \<Rightarrow> string \<Rightarrow> (('r, 'd) world, SeatingMap) proc" where
  "getSeatingMapDirect svc eventId = loadFromDatabase svc eventId"

definition clearSeatingMapCache :: "('r, 'd) services \<Rightarrow> string \<Rightarrow> (('r, 'd) world, unit) proc" where
  "clearSeatingMapCache svc eventId =
     await (redis_do (c_del (redis svc) (seatingMapCacheKey eventId))) (\<lambda>_. Ret ())"

text \<open>One of the \<open>return\<close> statements: the map and how it was obtained.\<close>

definition map_result :: "SeatingMapMode \<Rightarrow> json \<Rightarrow> bool \<Rightarrow> bool \<Rightarrow> bool \<Rightarrow> bool \<Rightarrow> int \<Rightarrow> SeatingMapResult" where
  "map_result how m hit acquired waited loaded duration =
     \<lparr>smr_map = m,
      smr_meta = \<lparr>mode = how, cacheHit = hit, lockAcquired = acquired, waitedForLock = waited,
        databaseLoaded = loaded, durationMs = duration\<rparr>\<rparr>"

definition answer_map ::
  "int \<Rightarrow> SeatingMapMode \<Rightarrow> json \<Rightarrow> bool \<Rightarrow> bool \<Rightarrow> bool \<Rightarrow> bool \<Rightarrow> (('r, 'd) world, SeatingMapResult) proc" where
  "answer_map startedAt how m hit acquired waited loaded =
     await Date_now (\<lambda>now. Ret (map_result how m hit acquired waited loaded (now - startedAt)))"

text \<open>The body of the \<open>try\<close> of the elected caller.\<close>

definition rehydrate :: "('r, 'd) services \<Rightarrow> int \<Rightarrow> string \<Rightarrow> (('r, 'd) world, SeatingMapResult) proc" where
  "rehydrate svc startedAt eventId =
     await (readCachedMap svc (seatingMapCacheKey eventId)) (\<lambda>refreshed.
     case refreshed of
       Some m \<Rightarrow> answer_map startedAt RedisProtected m True True False False
     | None \<Rightarrow>
         await (loadFromDatabase svc eventId) (\<lambda>m.
         await (redis_do (c_set_ex (redis svc) (seatingMapCacheKey eventId)
           (stringify (seating_map_value m)) CACHE_TTL_SECONDS)) (\<lambda>_.
         answer_map startedAt RedisProtected (seating_map_value m) False True False True)))"

text \<open>The retry loop of the others: the argument counts the attempts left.\<close>

fun wait_for_map :: "('r, 'd) services \<Rightarrow> int \<Rightarrow> string \<Rightarrow> nat \<Rightarrow> (('r, 'd) world, SeatingMapResult) proc" where
  "wait_for_map svc startedAt eventId 0 =
     Throw (JsError (''Seating map hydration timed out for event: '' @ eventId))"
| "wait_for_map svc startedAt eventId (Suc attempts) =
     await (sleep WAIT_DELAY_MS) (\<lambda>_.
     await (readCachedMap svc (seatingMapCacheKey eventId)) (\<lambda>hydrated.
     case hydrated of
       Some m \<Rightarrow> answer_map startedAt RedisProtected m True False True False
     | None \<Rightarrow> wait_for_map svc startedAt eventId attempts))"

definition getSeatingMapWithMetrics ::
  "('r, 'd) services \<Rightarrow> string \<Rightarrow> string \<Rightarrow> (('r, 'd) world, SeatingMapResult) proc" where
  "getSeatingMapWithMetrics svc randomUUID eventId =
     await Date_now (\<lambda>startedAt.
     await (readCachedMap svc (seatingMapCacheKey eventId)) (\<lambda>cached.
     case cached of
       Some m \<Rightarrow> answer_map startedAt RedisProtected m True False False False
     | None \<Rightarrow>
         await (acquireMutex svc randomUUID (lockKey eventId)) (\<lambda>token.
         case token of
           Some t \<Rightarrow> finally_do (rehydrate svc startedAt eventId) (releaseMutex svc (lockKey eventId) t)
         | None \<Rightarrow> wait_for_map svc startedAt eventId WAIT_ATTEMPTS)))"

definition getSeatingMapForMode ::
  "('r, 'd) services \<Rightarrow> string \<Rightarrow> string \<Rightarrow> bool \<Rightarrow> (('r, 'd) world, SeatingMapResult) proc" where
  "getSeatingMapForMode svc randomUUID eventId useRedis =
     (if \<not> useRedis then
        await Date_now (\<lambda>startedAt.
        await (getSeatingMapDirect svc eventId) (\<lambda>m.
        answer_map startedAt Direct (seating_map_value m) False False False True))
      else getSeatingMapWithMetrics svc randomUUID eventId)"

definition getSeatingMap :: "('r, 'd) services \<Rightarrow> string \<Rightarrow> string \<Rightarrow> (('r, 'd) world, json) proc" where
  "getSeatingMap svc randomUUID eventId =
     await (getSeatingMapWithMetrics svc randomUUID eventId) (\<lambda>result. Ret (smr_map result))"

section \<open>The contract of the query\<close>

text \<open>
  The collation of the database orders strings; seats come by section, then row, then
  number, every seat of the event once.
\<close>

fun lex_le :: "(string \<Rightarrow> string \<Rightarrow> bool) \<Rightarrow> string list \<Rightarrow> string list \<Rightarrow> bool" where
  "lex_le collate (x # xs) (y # ys) =
     (if collate x y \<and> collate y x then lex_le collate xs ys else collate x y)"
| "lex_le collate [] ys = True"
| "lex_le collate (x # xs) [] = False"

definition seats_listed ::
  "('d \<Rightarrow> string \<Rightarrow> seat_row option) \<Rightarrow> (string \<Rightarrow> string \<Rightarrow> bool) \<Rightarrow> 'd \<Rightarrow> string \<Rightarrow> seat_row list \<Rightarrow> bool" where
  "seats_listed seats collate d ev ss \<longleftrightarrow>
     set ss = {s. \<exists>i. seats d i = Some s \<and> seat_eventId s = ev} \<and> distinct (map seat_id ss) \<and>
     sorted_wrt (\<lambda>s t. lex_le collate (seat_sort_key s) (seat_sort_key t)) ss"

locale shield =
  redis_remote S pttl elapse svc sha1 + prisma_tables "prisma svc" seats orders events
  for S :: "'r redis_server" and pttl and elapse and svc :: "('r, 'd) services" and sha1
    and seats and orders and events +
  fixes collate :: "string \<Rightarrow> string \<Rightarrow> bool"
  assumes event_with_seats: "pc_event_with_seats (prisma svc) ev d = Inr found \<Longrightarrow>
    (case found of
       None \<Rightarrow> events d ev = None
     | Some (e, ss) \<Rightarrow> events d ev = Some e \<and> seats_listed seats collate d ev ss)"

text \<open>The specification of a map: what the database of \<open>d\<close> says of the event.\<close>

definition map_in_database ::
  "('d \<Rightarrow> string \<Rightarrow> seat_row option) \<Rightarrow> ('d \<Rightarrow> string \<Rightarrow> event_row option) \<Rightarrow> (string \<Rightarrow> string \<Rightarrow> bool) \<Rightarrow>
   'd \<Rightarrow> string \<Rightarrow> json \<Rightarrow> bool" where
  "map_in_database seats events collate d ev m \<longleftrightarrow>
     (\<exists>e ss. events d ev = Some e \<and> seats_listed seats collate d ev ss \<and> m = seating_map_value (seating_map_of e ss))"

lemma lex_le_list: "length xs = length ys \<Longrightarrow> xs \<le> ys \<Longrightarrow> lex_le (\<le>) xs ys"
proof (induction "(\<le>) :: string \<Rightarrow> string \<Rightarrow> bool" xs ys rule: lex_le.induct)
  case (1 x xs y ys)
  then show ?case by (cases "x = y") auto
qed auto

lemma set_map_filter_ex: "set (List.map_filter f xs) = {s. \<exists>i \<in> set xs. f i = Some s}"
  by (induction xs) (auto simp: List.map_filter_simps split: option.splits)

lemma ref_seats_of_listed: "seats_listed ref_seats (\<le>) d ev (ref_seats_of ev d)"
proof -
  let ?all = "List.map_filter (ref_seats d) (remdups (rd_seat_ids d))"
  have all: "set ?all = {s. \<exists>i. ref_seats d i = Some s}"
    by (auto simp: set_map_filter_ex dest: ref_seats_listed)
  have "distinct is \<Longrightarrow> distinct (map seat_id (List.map_filter (ref_seats d) is))" for "is"
    by (induction "is") (auto simp: List.map_filter_simps set_map_filter_ex split: option.splits, metis ref_keys(1))
  then have "distinct (map seat_id ?all)" by simp
  then have dist: "distinct (map seat_id (filter (\<lambda>s. seat_eventId s = ev) ?all))"
    by (rule distinct_map_filter)
  moreover have "distinct (map seat_id (ref_seats_of ev d)) \<longleftrightarrow>
      distinct (map seat_id (filter (\<lambda>s. seat_eventId s = ev) ?all))"
    by (simp add: ref_seats_of_def distinct_map)
  moreover have "sorted (map seat_sort_key (ref_seats_of ev d))" by (simp add: ref_seats_of_def)
  then have "sorted_wrt (\<lambda>s t. lex_le (\<le>) (seat_sort_key s) (seat_sort_key t)) (ref_seats_of ev d)"
    unfolding sorted_map by (rule sorted_wrt_mono_rel [rotated]) (auto intro!: lex_le_list simp: seat_sort_key_def)
  ultimately show ?thesis
    using all by (auto simp: seats_listed_def ref_seats_of_def)
qed

interpretation ref_shield:
  shield ref_server ref_pttl ref_elapse ref_services ref_sha1 ref_seats ref_orders rd_events "(\<le>)"
proof (intro shield.intro shield_axioms.intro)
  show "redis_remote ref_server ref_pttl ref_elapse ref_services ref_sha1"
    by (rule ref_remote.redis_remote_axioms)
  show "prisma_tables (prisma ref_services) ref_seats ref_orders rd_events"
    by (simp add: ref_tables.prisma_tables_axioms)
next
  fix ev d found
  assume "pc_event_with_seats (prisma ref_services) ev d = Inr found"
  then show "case found of
       None \<Rightarrow> rd_events d ev = None
     | Some (e, ss) \<Rightarrow> rd_events d ev = Some e \<and> seats_listed ref_seats (\<le>) d ev ss"
    by (auto simp: ref_prisma_def ref_seats_of_listed split: option.splits)
qed

section \<open>The steps, run alone\<close>

lemma key_neq [simp]: "lockKey ev \<noteq> seatingMapCacheKey ev'" "seatingMapCacheKey ev' \<noteq> lockKey ev"
  by (simp_all add: lockKey_def seatingMapCacheKey_def)

text \<open>What \<open>readCachedMap\<close> makes of the value under the key.\<close>

definition cached_value :: "string option \<Rightarrow> exn + json option" where
  "cached_value value =
     (case value of
        None \<Rightarrow> Inr None
      | Some v \<Rightarrow> bindE (JSON_parse v) (\<lambda>parsed. Inr (if parsed = JNull then None else Some parsed)))"

text \<open>The mutex was free and is now the caller's; the caller's mutex is gone.\<close>

definition mutex_taken :: "'r redis_server \<Rightarrow> string \<Rightarrow> string \<Rightarrow> 'r \<Rightarrow> 'r \<Rightarrow> bool" where
  "mutex_taken S k t r r' \<longleftrightarrow>
     GET S k r = None \<and> (\<forall>k'. GET S k' r' = (if k' = k then Some t else GET S k' r))"

definition mutex_dropped ::
  "'r redis_server \<Rightarrow> (string \<Rightarrow> 'r \<Rightarrow> nat option) \<Rightarrow> string \<Rightarrow> string \<Rightarrow> 'r \<Rightarrow> 'r \<Rightarrow> bool" where
  "mutex_dropped S pttl k t r r' \<longleftrightarrow>
     (if GET S k r = Some t
      then (\<forall>k'. GET S k' r' = (if k' = k then None else GET S k' r)) \<and> (\<forall>k'. k' \<noteq> k \<longrightarrow> pttl k' r' = pttl k' r)
      else r' = r)"

lemma mutex_dropped_get:
  assumes "mutex_dropped S pttl k t r r'"
  shows "k' \<noteq> k \<Longrightarrow> GET S k' r' = GET S k' r"
    and "GET S k r' = GET S k r \<or> GET S k r = Some t \<and> GET S k r' = None"
  using assms by (simp_all add: mutex_dropped_def split: if_splits)

context redis_remote begin

lemma readCachedMap_run:
  assumes "run (readCachedMap svc k) w = (w', x)"
  shows "w' = w \<and> (\<forall>c. x = Inr c \<longrightarrow> cached_value (GET S k (w_redis w)) = Inr c)"
proof -
  obtain r y where g: "c_get (redis svc) k (w_redis w) = (r, y)" by force
  with get_remote [of "w_redis w" k] have "r = w_redis w" "y = Inr (GET S k (w_redis w)) \<or> (\<exists>e. y = Inl e)"
    by (auto simp: delivers_def)
  with g assms show ?thesis
    by (auto simp: readCachedMap_def cached_value_def run_simps split: sum.splits option.splits if_splits)
qed

lemma acquireMutex_run:
  assumes "run (acquireMutex svc u k) w = (w', x)"
  shows "\<exists>r'. w' = w\<lparr>w_redis := r'\<rparr> \<and>
    (case x of
       Inr (Some t) \<Rightarrow> t = u \<and> mutex_taken S k u (w_redis w) r'
     | Inr None \<Rightarrow> GET S k (w_redis w) \<noteq> None \<and> r' = w_redis w
     | Inl e \<Rightarrow> r' = w_redis w \<or> mutex_taken S k u (w_redis w) r')"
proof -
  obtain r y where g: "c_set_px_nx (redis svc) k u LOCK_TTL_MS (w_redis w) = (r, y)" by force
  obtain r1 ok where s: "SET_PX_NX S k u LOCK_TTL_MS (w_redis w) = (r1, ok)" by force
  have "if GET S k (w_redis w) = None then ok \<and> mutex_taken S k u (w_redis w) r1 else \<not> ok \<and> r1 = w_redis w"
    using set_px_nx [OF _ s] by (auto simp: LOCK_TTL_MS_def mutex_taken_def split: if_splits)
  moreover have "(r, y) = (r1, Inr ok) \<or> (\<exists>e. y = Inl e \<and> (r = w_redis w \<or> r = r1))"
    using set_px_nx_remote [of "w_redis w" k u LOCK_TTL_MS] g s by (auto simp: delivers_def)
  moreover have "w' = w\<lparr>w_redis := r\<rparr>" "x = map_sum id (\<lambda>ok. if ok then Some u else None) y"
    using g assms by (auto simp: acquireMutex_def run_simps split: sum.splits)
  ultimately show ?thesis
    by (intro exI [of _ r]) (auto split: if_splits)
qed

lemma release_mutex_executed:
  "\<exists>r' n. lua_script S LuaScriptName.releaseMutex [k] [t] r = (r', Inr (RInt n)) \<and> mutex_dropped S pttl k t r r'"
proof (cases "GET S k r = Some t")
  case True
  obtain r' n where d: "DEL S k r = (r', n)" by force
  with True del [of k r r' n] show ?thesis by (auto simp: mutex_dropped_def)
qed (auto simp: mutex_dropped_def)

lemma releaseMutex_run:
  assumes "registered svc sha1 w" and "run (releaseMutex svc k t) w = (w', x)"
  shows "\<exists>r'. w' = w\<lparr>w_redis := r'\<rparr> \<and>
    (mutex_dropped S pttl k t (w_redis w) r' \<or> (\<exists>e. x = Inl e) \<and> r' = w_redis w)"
proof -
  obtain src where src: "scriptFile svc LuaScriptName.releaseMutex = Inr src"
    "w_digests w LuaScriptName.releaseMutex = Some (sha1 src)"
    using assms(1) by (rule registeredE)
  obtain r y where sha: "c_evalsha (redis svc) (sha1 src) [k] [t] (w_redis w) = (r, y)" by force
  obtain r1 n where ex: "lua_script S LuaScriptName.releaseMutex [k] [t] (w_redis w) = (r1, Inr (RInt n))"
    "mutex_dropped S pttl k t (w_redis w) r1"
    using release_mutex_executed by blast
  have "(r, y) = (r1, Inr (RInt n)) \<or> (\<exists>e. y = Inl e \<and> (r = w_redis w \<or> r = r1))"
    using evalsha_remote [OF src(1), of "w_redis w" "[k]" "[t]"] sha ex(1) by (auto simp: delivers_def)
  moreover have "w' = w\<lparr>w_redis := r\<rparr>" "x = map_sum id (\<lambda>_. ()) y"
    using sha src(2) assms(2) by (auto simp: releaseMutex_def run_simps split: sum.splits)
  ultimately show ?thesis
    using ex(2) by (intro exI [of _ r]) auto
qed

end

lemma run_answer_map:
  "run (answer_map t0 how m h a wt l) w = (w, Inr (map_result how m h a wt l (w_clock w - t0)))"
  by (simp add: answer_map_def run_await run_Date_now)

lemma map_result_simps [simp]:
  "smr_map (map_result how m h a wt l d) = m" "cacheHit (smr_meta (map_result how m h a wt l d)) = h"
  "lockAcquired (smr_meta (map_result how m h a wt l d)) = a" "waitedForLock (smr_meta (map_result how m h a wt l d)) = wt"
  "databaseLoaded (smr_meta (map_result how m h a wt l d)) = l" "durationMs (smr_meta (map_result how m h a wt l d)) = d"
  by (simp_all add: map_result_def)

lemma registered_redis [simp]:
  "registered svc sha1 (w\<lparr>w_redis := r\<rparr>) = registered svc sha1 w"
  by (simp add: registered_def)

lemma run_sleep: "run (sleep n) w = (w\<lparr>w_clock := max (w_clock w) (w_clock w + n)\<rparr>, Inr ())"
  by (simp add: sleep_def run_await run_Date_now run_modifies)

context shield begin

lemma loadFromDatabase_run:
  assumes "run (loadFromDatabase svc ev) w = (w', x)"
  shows "w' = w \<and> (\<forall>m. x = Inr m \<longrightarrow> map_in_database seats events collate (w_db w) ev (seating_map_value m))"
proof -
  have "w' = w" using assms by (auto simp: loadFromDatabase_def run_simps split: sum.splits option.splits)
  moreover have "map_in_database seats events collate (w_db w) ev (seating_map_value m)" if "x = Inr m" for m
  proof -
    from assms that obtain e ss where "pc_event_with_seats (prisma svc) ev (w_db w) = Inr (Some (e, ss))"
      "m = seating_map_of e ss"
      by (auto simp: loadFromDatabase_def run_simps split: sum.splits option.splits)
    with event_with_seats [of ev "w_db w" "Some (e, ss)"] show ?thesis by (auto simp: map_in_database_def)
  qed
  ultimately show ?thesis by blast
qed

end

text \<open>The map \<open>m\<close> is under the cache key now, for a minute.\<close>

definition map_cached ::
  "'r redis_server \<Rightarrow> (string \<Rightarrow> 'r \<Rightarrow> nat option) \<Rightarrow> string \<Rightarrow> json \<Rightarrow> 'r \<Rightarrow> 'r \<Rightarrow> bool" where
  "map_cached S pttl ev m r r' \<longleftrightarrow>
     (\<forall>k. GET S k r' = (if k = seatingMapCacheKey ev then Some (stringify m) else GET S k r)) \<and>
     pttl (seatingMapCacheKey ev) r' = Some 60000"

context shield begin

lemma rehydrate_run:
  assumes "run (rehydrate svc t0 ev) w = (w', x)"
  shows "\<exists>r'. w' = w\<lparr>w_redis := r'\<rparr> \<and>
    (r' = w_redis w \<or>
     (\<exists>m. map_in_database seats events collate (w_db w) ev m \<and> map_cached S pttl ev m (w_redis w) r')) \<and>
    (\<forall>res. x = Inr res \<longrightarrow> cached_value (GET S (seatingMapCacheKey ev) (w_redis w)) = Inr None \<longrightarrow>
       (\<exists>m. map_in_database seats events collate (w_db w) ev m \<and> map_cached S pttl ev m (w_redis w) r' \<and>
          res = map_result RedisProtected m False True False True (w_clock w - t0))) \<and>
    (\<forall>res m. x = Inr res \<longrightarrow> cached_value (GET S (seatingMapCacheKey ev) (w_redis w)) = Inr (Some m) \<longrightarrow>
       r' = w_redis w \<and> res = map_result RedisProtected m True True False False (w_clock w - t0))"
proof -
  let ?k = "seatingMapCacheKey ev" and ?r = "w_redis w"
  obtain w1 c where c: "run (readCachedMap svc ?k) w = (w1, c)" by force
  note c' = readCachedMap_run [OF c]
  show ?thesis
  proof (cases "c = Inr None")
    case False
    then consider e where "c = Inl e" | m where "c = Inr (Some m)" by (cases c) auto
    then show ?thesis
      using c c' assms by cases (auto simp: rehydrate_def run_await run_answer_map intro!: exI [of _ ?r])
  next
    case True
    obtain w2 y where l: "run (loadFromDatabase svc ev) w = (w2, y)" by force
    note l' = loadFromDatabase_run [OF l]
    show ?thesis
    proof (cases y)
      case (Inl e)
      with c c' True l l' assms show ?thesis
        by (intro exI [of _ ?r]) (auto simp: rehydrate_def run_await)
    next
      case (Inr m)
      let ?m = "seating_map_value m"
      obtain r3 z where s: "c_set_ex (redis svc) ?k (stringify ?m) CACHE_TTL_SECONDS ?r = (r3, z)" by force
      have "map_cached S pttl ev ?m ?r (SET_EX S ?k (stringify ?m) CACHE_TTL_SECONDS ?r)"
        by (simp add: map_cached_def CACHE_TTL_SECONDS_def get_set_ex pttl_set_ex)
      moreover have "(r3, z) = (SET_EX S ?k (stringify ?m) CACHE_TTL_SECONDS ?r, Inr ()) \<or>
          (\<exists>e. z = Inl e \<and> (r3 = ?r \<or> r3 = SET_EX S ?k (stringify ?m) CACHE_TTL_SECONDS ?r))"
        using set_ex_remote [of ?r ?k "stringify ?m" CACHE_TTL_SECONDS] s by (auto simp: delivers_def)
      ultimately have "r3 = ?r \<and> (\<exists>e. z = Inl e) \<or> map_cached S pttl ev ?m ?r r3" by auto
      moreover have "w' = w\<lparr>w_redis := r3\<rparr>"
        "x = map_sum id (\<lambda>_. map_result RedisProtected ?m False True False True (w_clock w - t0)) z"
        using assms c c' True l l' Inr s
        by (auto simp: rehydrate_def run_await run_redis_do run_answer_map split: sum.splits)
      ultimately show ?thesis
        using c' True l' Inr by (intro exI [of _ r3]) (cases z, auto)
    qed
  qed
qed

lemma wait_for_map_run:
  assumes "run (wait_for_map svc t0 ev n) w = (w', x)"
  shows "\<exists>t. w' = w\<lparr>w_clock := t\<rparr> \<and>
    (\<forall>res. x = Inr res \<longrightarrow> cached_value (GET S (seatingMapCacheKey ev) (w_redis w)) = Inr (Some (smr_map res)))"
  using assms
proof (induction n arbitrary: w)
  case 0
  then show ?case by (intro exI [of _ "w_clock w"]) auto
next
  case (Suc n)
  let ?w1 = "w\<lparr>w_clock := max (w_clock w) (w_clock w + WAIT_DELAY_MS)\<rparr>"
  obtain w2 c where c: "run (readCachedMap svc (seatingMapCacheKey ev)) ?w1 = (w2, c)" by force
  note c' = readCachedMap_run [OF c]
  show ?case
  proof (cases "c = Inr None")
    case True
    with Suc.prems c c' have "run (wait_for_map svc t0 ev n) ?w1 = (w', x)"
      by (simp add: run_await run_sleep)
    from Suc.IH [OF this] show ?thesis by auto
  next
    case False
    then consider e where "c = Inl e" | m where "c = Inr (Some m)" by (cases c) auto
    then show ?thesis
      using Suc.prems c c' by cases (auto simp: run_await run_sleep run_answer_map intro!: exI [of _ "w_clock ?w1"])
  qed
qed

text \<open>The elected caller: the mutex was taken, now comes the body and its \<open>finally\<close>.\<close>

lemma elected_run:
  assumes "registered svc sha1 w" and "mutex_taken S (lockKey ev) u r (w_redis w)"
    and "run (finally_do (rehydrate svc t0 ev) (releaseMutex svc (lockKey ev) u)) w = (w', x)"
  shows "\<exists>r'. w' = w\<lparr>w_redis := r'\<rparr> \<and>
    (\<forall>k. k \<noteq> seatingMapCacheKey ev \<longrightarrow> k \<noteq> lockKey ev \<longrightarrow> GET S k r' = GET S k r) \<and>
    (GET S (lockKey ev) r' = None \<or> GET S (lockKey ev) r' = Some u \<and> (\<exists>e. x = Inl e)) \<and>
    (GET S (seatingMapCacheKey ev) r' = GET S (seatingMapCacheKey ev) r \<or>
     (\<exists>m. map_in_database seats events collate (w_db w) ev m \<and>
       GET S (seatingMapCacheKey ev) r' = Some (stringify m))) \<and>
    (\<forall>res. x = Inr res \<longrightarrow> cached_value (GET S (seatingMapCacheKey ev) r) = Inr None \<longrightarrow>
       (\<exists>m. map_in_database seats events collate (w_db w) ev m \<and> map_cached S pttl ev m r r' \<and>
          res = map_result RedisProtected m False True False True (w_clock w - t0)))"
proof -
  let ?k = "seatingMapCacheKey ev" and ?l = "lockKey ev" and ?r = "w_redis w"
  have got: "GET S ?l ?r = Some u" "GET S ?l r = None" "\<And>k. k \<noteq> ?l \<Longrightarrow> GET S k ?r = GET S k r"
    using assms(2) by (simp_all add: mutex_taken_def)
  obtain w1 y where body: "run (rehydrate svc t0 ev) w = (w1, y)" by force
  obtain r1 where r1: "w1 = w\<lparr>w_redis := r1\<rparr>"
    and kept: "r1 = ?r \<or> (\<exists>m. map_in_database seats events collate (w_db w) ev m \<and> map_cached S pttl ev m ?r r1)"
    and res1: "\<And>res. y = Inr res \<Longrightarrow> cached_value (GET S ?k ?r) = Inr None \<Longrightarrow>
      \<exists>m. map_in_database seats events collate (w_db w) ev m \<and> map_cached S pttl ev m ?r r1 \<and>
        res = map_result RedisProtected m False True False True (w_clock w - t0)"
    using rehydrate_run [OF body] by (elim exE conjE) blast
  have lock1: "GET S ?l r1 = Some u" and other1: "\<And>k. k \<noteq> ?k \<Longrightarrow> GET S k r1 = GET S k ?r"
    using kept got(1) by (auto simp: map_cached_def)
  have cache1: "GET S ?k r1 = GET S ?k ?r \<or>
      (\<exists>m. map_in_database seats events collate (w_db w) ev m \<and> GET S ?k r1 = Some (stringify m))"
    using kept by (auto simp: map_cached_def)
  obtain w2 z where rel: "run (releaseMutex svc ?l u) w1 = (w2, z)" by force
  have "registered svc sha1 w1" using assms(1) r1 by simp
  from releaseMutex_run [OF this rel] obtain r2 where r2: "w2 = w1\<lparr>w_redis := r2\<rparr>"
    and d: "mutex_dropped S pttl ?l u r1 r2 \<or> (\<exists>e. z = Inl e) \<and> r2 = r1"
    using r1 by auto
  have other2: "\<And>k. k \<noteq> ?l \<Longrightarrow> GET S k r2 = GET S k r1"
    and lock2: "GET S ?l r2 = None \<or> GET S ?l r2 = Some u \<and> (\<exists>e. z = Inl e)"
    using d lock1 by (auto simp: mutex_dropped_def)
  have w': "w' = w\<lparr>w_redis := r2\<rparr>" "x = (case z of Inl e \<Rightarrow> Inl e | Inr _ \<Rightarrow> y)"
    using assms(3) body rel r1 r2 by (auto simp: run_finally split: sum.splits)
  show ?thesis
  proof (intro exI [of _ r2] conjI allI impI)
    fix res
    assume x: "x = Inr res" and cold: "cached_value (GET S ?k r) = Inr None"
    then have y: "y = Inr res" and z: "isInr z" using w'(2) by (auto split: sum.splits)
    obtain m where m: "map_in_database seats events collate (w_db w) ev m" "map_cached S pttl ev m ?r r1"
      "res = map_result RedisProtected m False True False True (w_clock w - t0)"
      using res1 [OF y] cold got(3) [of ?k] by auto
    have "mutex_dropped S pttl ?l u r1 r2" using d z by auto
    then have "map_cached S pttl ev m r r2"
      using m(2) lock1 got(2,3) by (auto simp: mutex_dropped_def map_cached_def)
    with m show "\<exists>m. map_in_database seats events collate (w_db w) ev m \<and> map_cached S pttl ev m r r2 \<and>
        res = map_result RedisProtected m False True False True (w_clock w - t0)" by blast
  qed (use w' other1 other2 got(3) lock2 cache1 in \<open>auto split: sum.splits\<close>)
qed

lemma seating_map_returns:
  assumes "registered svc sha1 w" and "run (getSeatingMapWithMetrics svc u ev) w = (w', Inr res)"
  shows "(\<exists>m. cached_value (GET S (seatingMapCacheKey ev) (w_redis w)) = Inr (Some m) \<and> w' = w \<and>
      res = map_result RedisProtected m True False False False 0) \<or>
    (\<exists>m r'. cached_value (GET S (seatingMapCacheKey ev) (w_redis w)) = Inr None \<and>
      GET S (lockKey ev) (w_redis w) = None \<and> map_in_database seats events collate (w_db w) ev m \<and>
      w' = w\<lparr>w_redis := r'\<rparr> \<and> map_cached S pttl ev m (w_redis w) r' \<and>
      res = map_result RedisProtected m False True False True 0)"
proof -
  let ?k = "seatingMapCacheKey ev" and ?r = "w_redis w"
  obtain w1 c where c: "run (readCachedMap svc ?k) w = (w1, Inr c)"
    using assms(2) by (auto simp: getSeatingMapWithMetrics_def run_await run_Date_now split: prod.splits sum.splits)
  with readCachedMap_run [OF this] have w1: "w1 = w" and cv: "cached_value (GET S ?k ?r) = Inr c" by auto
  show ?thesis
  proof (cases c)
    case (Some m)
    with c w1 cv assms(2) show ?thesis
      by (auto simp: getSeatingMapWithMetrics_def run_await run_Date_now run_answer_map)
  next
    case None
    obtain w2 t where a: "run (acquireMutex svc u (lockKey ev)) w = (w2, Inr t)"
      and rest: "run (case t of Some t \<Rightarrow> finally_do (rehydrate svc (w_clock w) ev) (releaseMutex svc (lockKey ev) t)
        | None \<Rightarrow> wait_for_map svc (w_clock w) ev WAIT_ATTEMPTS) w2 = (w', Inr res)"
      using assms(2) c w1 None
      by (auto simp: getSeatingMapWithMetrics_def run_await run_Date_now split: prod.splits sum.splits)
    from acquireMutex_run [OF a] obtain r2 where r2: "w2 = w\<lparr>w_redis := r2\<rparr>"
      and t: "case t of Some t \<Rightarrow> t = u \<and> mutex_taken S (lockKey ev) u ?r r2
        | None \<Rightarrow> GET S (lockKey ev) ?r \<noteq> None \<and> r2 = ?r" by auto
    show ?thesis
    proof (cases t)
      case None
      with rest t r2 wait_for_map_run [of "w_clock w" ev WAIT_ATTEMPTS w2 w' "Inr res"] cv \<open>c = None\<close>
      show ?thesis by auto
    next
      case (Some t')
      with t have m: "t' = u" "mutex_taken S (lockKey ev) u ?r (w_redis w2)" using r2 by auto
      have "registered svc sha1 w2" using assms(1) r2 by simp
      from elected_run [OF this m(2) rest [unfolded Some m(1) option.case]] cv \<open>c = None\<close> m(2) r2
      show ?thesis by (auto simp: mutex_taken_def)
    qed
  qed
qed

text \<open>Whatever the outcome: only the cached map of the event and its mutex may differ.\<close>

lemma seating_map_frame:
  assumes "registered svc sha1 w" and "run (getSeatingMapWithMetrics svc u ev) w = (w', x)"
  shows "\<exists>t r'. w' = w\<lparr>w_clock := t, w_redis := r'\<rparr> \<and>
    (\<forall>k. k \<noteq> seatingMapCacheKey ev \<longrightarrow> k \<noteq> lockKey ev \<longrightarrow> GET S k r' = GET S k (w_redis w)) \<and>
    (GET S (lockKey ev) r' = GET S (lockKey ev) (w_redis w) \<or>
     GET S (lockKey ev) (w_redis w) = None \<and> GET S (lockKey ev) r' = Some u \<and> (\<exists>e. x = Inl e)) \<and>
    (GET S (seatingMapCacheKey ev) r' = GET S (seatingMapCacheKey ev) (w_redis w) \<or>
     (\<exists>m. map_in_database seats events collate (w_db w) ev m \<and>
       GET S (seatingMapCacheKey ev) r' = Some (stringify m)))"
    (is "\<exists>t r'. ?goal t r'")
proof -
  let ?k = "seatingMapCacheKey ev" and ?r = "w_redis w"
  have same: "w' = w\<lparr>w_clock := t\<rparr> \<Longrightarrow> \<exists>t r'. ?goal t r'" for t
    by (intro exI [of _ t] exI [of _ ?r]) simp
  obtain w1 c where c: "run (readCachedMap svc ?k) w = (w1, c)" by force
  with readCachedMap_run [OF this] have w1: "w1 = w" by simp
  show ?thesis
  proof (cases "c = Inr None")
    case False
    then consider e where "c = Inl e" | m where "c = Inr (Some m)" by (cases c) auto
    then have "w' = w\<lparr>w_clock := w_clock w\<rparr>"
      using c w1 assms(2) by cases (auto simp: getSeatingMapWithMetrics_def run_await run_Date_now run_answer_map)
    then show ?thesis by (rule same)
  next
    case True
    obtain w2 a where a: "run (acquireMutex svc u (lockKey ev)) w = (w2, a)" by force
    obtain r2 where r2: "w2 = w\<lparr>w_redis := r2\<rparr>"
      and t: "case a of Inr (Some t) \<Rightarrow> t = u \<and> mutex_taken S (lockKey ev) u ?r r2
        | Inr None \<Rightarrow> GET S (lockKey ev) ?r \<noteq> None \<and> r2 = ?r
        | Inl e \<Rightarrow> r2 = ?r \<or> mutex_taken S (lockKey ev) u ?r r2"
      using acquireMutex_run [OF a] by blast
    consider e where "a = Inl e" | "a = Inr None" | "a = Inr (Some u)" "mutex_taken S (lockKey ev) u ?r (w_redis w2)"
      using t r2 by (cases a) (auto split: option.splits)
    then show ?thesis
    proof cases
      case 1
      with c w1 a True assms(2) have "w' = w\<lparr>w_clock := w_clock w, w_redis := r2\<rparr>" "\<exists>e. x = Inl e"
        using r2 by (auto simp: getSeatingMapWithMetrics_def run_await run_Date_now)
      with 1 t show ?thesis by (intro exI [of _ "w_clock w"] exI [of _ r2]) (auto simp: mutex_taken_def)
    next
      case 2
      with c w1 a True assms(2) r2 t have "run (wait_for_map svc (w_clock w) ev WAIT_ATTEMPTS) w = (w', x)"
        by (auto simp: getSeatingMapWithMetrics_def run_await run_Date_now)
      from wait_for_map_run [OF this] show ?thesis using same by blast
    next
      case 3
      with c w1 a True assms(2) have
        "run (finally_do (rehydrate svc (w_clock w) ev) (releaseMutex svc (lockKey ev) u)) w2 = (w', x)"
        by (auto simp: getSeatingMapWithMetrics_def run_await run_Date_now)
      moreover have "registered svc sha1 w2" using assms(1) r2 by simp
      ultimately obtain r' where "w' = w2\<lparr>w_redis := r'\<rparr>"
        "\<forall>k. k \<noteq> ?k \<longrightarrow> k \<noteq> lockKey ev \<longrightarrow> GET S k r' = GET S k ?r"
        "GET S (lockKey ev) r' = None \<or> GET S (lockKey ev) r' = Some u \<and> (\<exists>e. x = Inl e)"
        "GET S ?k r' = GET S ?k ?r \<or>
          (\<exists>m. map_in_database seats events collate (w_db w2) ev m \<and> GET S ?k r' = Some (stringify m))"
        using elected_run [OF _ 3(2)] by blast
      with 3(2) r2 show ?thesis
        by (intro exI [of _ "w_clock w"] exI [of _ r']) (auto simp: mutex_taken_def)
    qed
  qed
qed

end

section \<open>When every command answers\<close>

definition reliable :: "'r redis_server \<Rightarrow> (string \<Rightarrow> string) \<Rightarrow> ('r, 'd) services \<Rightarrow> bool" where
  "reliable S sha1 svc \<longleftrightarrow>
     (\<forall>k r. c_get (redis svc) k r = (r, Inr (GET S k r))) \<and>
     (\<forall>k v t r. c_set_ex (redis svc) k v t r = (SET_EX S k v t r, Inr ())) \<and>
     (\<forall>k v t r. c_set_px_nx (redis svc) k v t r = map_prod id Inr (SET_PX_NX S k v t r)) \<and>
     (\<forall>nm src keys args r. scriptFile svc nm = Inr src \<longrightarrow>
        c_evalsha (redis svc) (sha1 src) keys args r = lua_script S nm keys args r)"

context shield begin

lemma reliable_read:
  "reliable S sha1 svc \<Longrightarrow> run (readCachedMap svc k) w = (w, cached_value (GET S k (w_redis w)))"
  by (auto simp: reliable_def readCachedMap_def cached_value_def run_await run_redis_do run_sync
      split: option.splits sum.splits)

lemma reliable_acquire:
  assumes "reliable S sha1 svc"
  shows "if GET S k (w_redis w) = None
    then \<exists>r'. run (acquireMutex svc u k) w = (w\<lparr>w_redis := r'\<rparr>, Inr (Some u)) \<and> mutex_taken S k u (w_redis w) r'
    else run (acquireMutex svc u k) w = (w, Inr None)"
proof -
  obtain r1 ok where s: "SET_PX_NX S k u LOCK_TTL_MS (w_redis w) = (r1, ok)" by force
  moreover have "c_set_px_nx (redis svc) k u LOCK_TTL_MS (w_redis w) = (r1, Inr ok)"
    using assms s by (simp add: reliable_def)
  moreover have "if GET S k (w_redis w) = None then ok \<and> mutex_taken S k u (w_redis w) r1 else \<not> ok \<and> r1 = w_redis w"
    using set_px_nx [OF _ s] by (auto simp: LOCK_TTL_MS_def mutex_taken_def split: if_splits)
  ultimately show ?thesis
    by (auto simp: acquireMutex_def run_await run_redis_do split: if_splits)
qed

lemma reliable_release:
  assumes "reliable S sha1 svc" and "registered svc sha1 w"
  shows "\<exists>r'. run (releaseMutex svc k t) w = (w\<lparr>w_redis := r'\<rparr>, Inr ()) \<and> mutex_dropped S pttl k t (w_redis w) r'"
proof -
  obtain src where src: "scriptFile svc LuaScriptName.releaseMutex = Inr src"
    "w_digests w LuaScriptName.releaseMutex = Some (sha1 src)"
    using assms(2) by (rule registeredE)
  obtain r1 n where "lua_script S LuaScriptName.releaseMutex [k] [t] (w_redis w) = (r1, Inr (RInt n))"
    "mutex_dropped S pttl k t (w_redis w) r1"
    using release_mutex_executed by blast
  moreover from this assms(1) src(1) have "c_evalsha (redis svc) (sha1 src) [k] [t] (w_redis w) = (r1, Inr (RInt n))"
    by (simp add: reliable_def)
  ultimately show ?thesis
    using src(2) by (auto simp: releaseMutex_def run_await run_getLuaScriptDigest run_redis_do)
qed

lemma reliable_hit:
  assumes "reliable S sha1 svc" and "cached_value (GET S (seatingMapCacheKey ev) (w_redis w)) = Inr (Some m)"
  shows "run (getSeatingMapWithMetrics svc u ev) w = (w, Inr (map_result RedisProtected m True False False False 0))"
  using assms by (simp add: getSeatingMapWithMetrics_def run_await run_Date_now run_answer_map reliable_read)

lemma reliable_wait:
  assumes "reliable S sha1 svc" and "cached_value (GET S (seatingMapCacheKey ev) (w_redis w)) = Inr None"
  shows "run (wait_for_map svc t0 ev n) w = (w\<lparr>w_clock := w_clock w + int n * WAIT_DELAY_MS\<rparr>,
    Inl (JsError (''Seating map hydration timed out for event: '' @ ev)))"
  using assms(2)
proof (induction n arbitrary: w)
  case (Suc n)
  then have "run (wait_for_map svc t0 ev n) (w\<lparr>w_clock := w_clock w + WAIT_DELAY_MS\<rparr>) =
      (w\<lparr>w_clock := w_clock w + WAIT_DELAY_MS + int n * WAIT_DELAY_MS\<rparr>,
       Inl (JsError (''Seating map hydration timed out for event: '' @ ev)))" by simp
  with Suc.prems show ?case
    by (simp add: run_await run_sleep reliable_read [OF assms(1)] WAIT_DELAY_MS_def algebra_simps)
qed simp

lemma reliable_cold:
  assumes "reliable S sha1 svc" and "registered svc sha1 w"
    and "cached_value (GET S (seatingMapCacheKey ev) (w_redis w)) = Inr None" and "GET S (lockKey ev) (w_redis w) = None"
    and "pc_event_with_seats (prisma svc) ev (w_db w) = Inr (Some (e, ss))"
  shows "\<exists>w'. run (getSeatingMapWithMetrics svc u ev) w =
    (w', Inr (map_result RedisProtected (seating_map_value (seating_map_of e ss)) False True False True 0))"
proof -
  let ?k = "seatingMapCacheKey ev" and ?m = "seating_map_value (seating_map_of e ss)"
  obtain r1 where a: "run (acquireMutex svc u (lockKey ev)) w = (w\<lparr>w_redis := r1\<rparr>, Inr (Some u))"
    "mutex_taken S (lockKey ev) u (w_redis w) r1"
    using reliable_acquire [OF assms(1), of "lockKey ev" w u] assms(4) by auto
  let ?w2 = "w\<lparr>w_redis := SET_EX S ?k (stringify ?m) CACHE_TTL_SECONDS r1\<rparr>"
  have "cached_value (GET S ?k r1) = Inr None" using a(2) assms(3) by (simp add: mutex_taken_def)
  moreover have "c_set_ex (redis svc) ?k (stringify ?m) CACHE_TTL_SECONDS r1
      = (SET_EX S ?k (stringify ?m) CACHE_TTL_SECONDS r1, Inr ())"
    using assms(1) by (simp add: reliable_def)
  ultimately have "run (rehydrate svc (w_clock w) ev) (w\<lparr>w_redis := r1\<rparr>) =
      (?w2, Inr (map_result RedisProtected ?m False True False True 0))"
    using assms(5)
    by (simp add: rehydrate_def run_await reliable_read [OF assms(1)] loadFromDatabase_def run_db_read run_redis_do
        run_answer_map del: stringify.simps)
  moreover obtain r3 where "run (releaseMutex svc (lockKey ev) u) ?w2 = (?w2\<lparr>w_redis := r3\<rparr>, Inr ())"
    using reliable_release [OF assms(1), of ?w2 "lockKey ev" u] assms(2) by auto
  ultimately show ?thesis
    using a(1) assms(3)
    by (simp add: getSeatingMapWithMetrics_def run_await run_Date_now reliable_read [OF assms(1)] run_finally)
qed

end

section \<open>A reference store that keeps its scripts\<close>

definition ref_steady :: "(ref_redis, ref_db) services" where
  "ref_steady = ref_services\<lparr>redis := ref_client\<lparr>c_evalsha := (\<lambda>d. ref_eval (tl d))\<rparr>\<rparr>"

lemma ref_steady_simps [simp]:
  "prisma ref_steady = ref_prisma" "scriptFile ref_steady nm = Inr (ref_text nm)"
  "redis ref_steady = ref_client\<lparr>c_evalsha := (\<lambda>d. ref_eval (tl d))\<rparr>"
  by (simp_all add: ref_steady_def)

lemma ref_steady_reliable: "reliable ref_server ref_sha1 ref_steady"
  by (simp add: reliable_def ref_client_def ref_sha1_def ref_eval_def)

lemma ref_steady_registered: "registered ref_steady ref_sha1 ref_world"
  by (simp add: registered_def ref_world_def)

interpretation ref_steady_shield:
  shield ref_server ref_pttl ref_elapse ref_steady ref_sha1 ref_seats ref_orders rd_events "(\<le>)"
proof (intro shield.intro shield_axioms.intro redis_remote.intro redis_remote_axioms.intro)
  show "redis_strings ref_server ref_pttl ref_elapse" by (rule ref_strings.redis_strings_axioms)
  show "prisma_tables (prisma ref_steady) ref_seats ref_orders rd_events"
    by (simp add: ref_tables.prisma_tables_axioms)
next
  fix ev d found
  assume "pc_event_with_seats (prisma ref_steady) ev d = Inr found"
  then show "case found of
       None \<Rightarrow> rd_events d ev = None
     | Some (e, ss) \<Rightarrow> rd_events d ev = Some e \<and> seats_listed ref_seats (\<le>) d ev ss"
    using ref_shield.event_with_seats [of ev d found] by simp
next
  fix nm source keys args and r :: ref_redis
  assume "scriptFile ref_steady nm = Inr source"
  then have t: "source = ref_text nm" by simp
  show "delivers r (lua_script ref_server nm keys args r) (c_eval (redis ref_steady) source keys args r)"
    using t by (simp add: ref_client_def ref_eval_def)
  show "delivers r (lua_script ref_server nm keys args r)
      (c_evalsha (redis ref_steady) (ref_sha1 source) keys args r) \<or>
      (\<exists>e. isNoscriptError e \<and> c_evalsha (redis ref_steady) (ref_sha1 source) keys args r = (r, Inl e))"
    using t ref_steady_reliable by (simp add: reliable_def)
qed (auto simp: ref_client_def ref_get_def ref_pttl_def)

lemma ref_world_event:
  "pc_event_with_seats (prisma ref_steady) ''ev'' (w_db ref_world) =
    Inr (Some (\<lparr>evt_id = ''ev'', evt_name = ''Demo'', evt_startsAt = 0\<rparr>, ref_seats_of ''ev'' ref_db0))"
  by (simp add: ref_prisma_def ref_world_def ref_db0_def)

lemma ref_world_cold:
  "GET ref_server (seatingMapCacheKey ''ev'') (w_redis ref_world) = None"
  "GET ref_server (lockKey ''ev'') (w_redis ref_world) = None"
  by (simp_all add: ref_get_def ref_world_def ref_redis0_def)

lemma cached_value_None [simp]: "cached_value None = Inr None"
  by (simp add: cached_value_def)

lemma ref_cold_run:
  "\<exists>w' res. run (getSeatingMapWithMetrics ref_steady u ''ev'') ref_world = (w', Inr res) \<and> databaseLoaded (smr_meta res)"
  using ref_steady_shield.reliable_cold [OF ref_steady_reliable ref_steady_registered _ _ ref_world_event, of u]
    ref_world_cold by fastforce

lemma cached_value_map [simp]:
  "cached_value (Some (stringify (seating_map_value m))) = Inr (Some (seating_map_value m))"
  by (simp add: cached_value_def seating_map_value_def del: stringify.simps)

lemma map_in_database_value: "map_in_database seats events collate d ev m \<Longrightarrow> \<exists>sm. m = seating_map_value sm"
  by (auto simp: map_in_database_def)

lemma ref_cold_cached:
  assumes "run (getSeatingMapWithMetrics ref_steady u ''ev'') ref_world = (w', Inr res)"
  shows "cached_value (GET ref_server (seatingMapCacheKey ''ev'') (w_redis w')) = Inr (Some (smr_map res))"
  using ref_steady_shield.seating_map_returns [OF ref_steady_registered assms] ref_world_cold
  by (auto simp: map_cached_def dest!: map_in_database_value simp del: stringify.simps)

definition ref_busy :: "(ref_redis, ref_db) world" where
  "ref_busy = ref_world\<lparr>w_redis := ref_set (lockKey ''ev'') ''other'' (Some 5000) ref_redis0\<rparr>"

lemma ref_busy_facts:
  "GET ref_server (seatingMapCacheKey ''ev'') (w_redis ref_busy) = None"
  "GET ref_server (lockKey ''ev'') (w_redis ref_busy) = Some ''other''"
  "registered ref_steady ref_sha1 ref_busy"
proof -
  show "GET ref_server (seatingMapCacheKey ''ev'') (w_redis ref_busy) = None"
    by (simp add: ref_busy_def) (simp add: ref_get_def ref_redis0_def)
  show "GET ref_server (lockKey ''ev'') (w_redis ref_busy) = Some ''other''" by (simp add: ref_busy_def)
  show "registered ref_steady ref_sha1 ref_busy" using ref_steady_registered by (simp add: ref_busy_def)
qed

section \<open>Properties\<close>

text \<open>
  Claim C26.  A seating map that is served is the cached value, and then nothing has
  changed, or it is what the database says of the event: every seat of it once, in
  the order of section, row and number.  In the second case the caller held the mutex and
  has given it back, and the map is in the cache for a minute; nothing else differs.
\<close>

theorem seating_map_outcome:
  assumes "shield S pttl elapse svc sha1 seats orders events collate" and "registered svc sha1 w"
    and "run (getSeatingMapWithMetrics svc u ev) w = (w', Inr res)"
  shows "(\<exists>m. cached_value (GET S (seatingMapCacheKey ev) (w_redis w)) = Inr (Some m) \<and> w' = w \<and>
      res = map_result RedisProtected m True False False False 0) \<or>
    (\<exists>m r'. cached_value (GET S (seatingMapCacheKey ev) (w_redis w)) = Inr None \<and>
      GET S (lockKey ev) (w_redis w) = None \<and> map_in_database seats events collate (w_db w) ev m \<and>
      w' = w\<lparr>w_redis := r'\<rparr> \<and> map_cached S pttl ev m (w_redis w) r' \<and>
      res = map_result RedisProtected m False True False True 0)"
  using assms(2,3) by (rule shield.seating_map_returns [OF assms(1)])

theorem seating_map_outcome_witness:
  "\<exists>w' res. run (getSeatingMapWithMetrics ref_steady ''t'' ''ev'') ref_world = (w', Inr res) \<and>
    map_in_database ref_seats rd_events (\<le>) (w_db ref_world) ''ev'' (smr_map res)"
proof -
  obtain w' res where r: "run (getSeatingMapWithMetrics ref_steady ''t'' ''ev'') ref_world = (w', Inr res)"
    using ref_cold_run by blast
  from seating_map_outcome [OF ref_steady_shield.shield_axioms ref_steady_registered r] ref_world_cold
  have "map_in_database ref_seats rd_events (\<le>) (w_db ref_world) ''ev'' (smr_map res)" by auto
  with r show ?thesis by blast
qed

text \<open>
  Whatever a read of the seating map comes to, an error included: no key but
  the cached map and the mutex of the event has changed, a map that was written is what
  the database says, and the mutex is as it was, or is left behind under this caller's
  token and the call failed.
\<close>

theorem seating_map_leaves:
  assumes "shield S pttl elapse svc sha1 seats orders events collate" and "registered svc sha1 w"
    and "run (getSeatingMapWithMetrics svc u ev) w = (w', x)"
  shows "w_db w' = w_db w \<and> w_sent w' = w_sent w \<and>
    (\<forall>k. k \<noteq> seatingMapCacheKey ev \<longrightarrow> k \<noteq> lockKey ev \<longrightarrow> GET S k (w_redis w') = GET S k (w_redis w)) \<and>
    (GET S (lockKey ev) (w_redis w') = GET S (lockKey ev) (w_redis w) \<or>
     GET S (lockKey ev) (w_redis w) = None \<and> GET S (lockKey ev) (w_redis w') = Some u \<and> (\<exists>e. x = Inl e)) \<and>
    (GET S (seatingMapCacheKey ev) (w_redis w') = GET S (seatingMapCacheKey ev) (w_redis w) \<or>
     (\<exists>m. map_in_database seats events collate (w_db w) ev m \<and>
       GET S (seatingMapCacheKey ev) (w_redis w') = Some (stringify m)))"
proof -
  obtain t r' where "w' = w\<lparr>w_clock := t, w_redis := r'\<rparr>"
    "\<forall>k. k \<noteq> seatingMapCacheKey ev \<longrightarrow> k \<noteq> lockKey ev \<longrightarrow> GET S k r' = GET S k (w_redis w)"
    "GET S (lockKey ev) r' = GET S (lockKey ev) (w_redis w) \<or>
     GET S (lockKey ev) (w_redis w) = None \<and> GET S (lockKey ev) r' = Some u \<and> (\<exists>e. x = Inl e)"
    "GET S (seatingMapCacheKey ev) r' = GET S (seatingMapCacheKey ev) (w_redis w) \<or>
     (\<exists>m. map_in_database seats events collate (w_db w) ev m \<and>
       GET S (seatingMapCacheKey ev) r' = Some (stringify m))"
    using shield.seating_map_frame [OF assms] by blast
  then show ?thesis by simp
qed

theorem seating_map_leaves_witness:
  "\<exists>w' x. run (getSeatingMapWithMetrics ref_steady ''t'' ''ev'') ref_busy = (w', x) \<and>
    GET ref_server (lockKey ''ev'') (w_redis w') = Some ''other''"
proof -
  obtain w' x where r: "run (getSeatingMapWithMetrics ref_steady ''t'' ''ev'') ref_busy = (w', x)" by force
  from seating_map_leaves [OF ref_steady_shield.shield_axioms ref_busy_facts(3) r] ref_busy_facts(2) r
  show ?thesis by simp
qed

text \<open>
  Claim C27.  The cache round trip.  When every command answers, a read of a cold cache
  with a free mutex succeeds and gives the map of the database; from then on every read
  gives exactly that map back, whatever the database has become meanwhile, as long as the
  entry lives: no operation on seats invalidates it.
\<close>

theorem cold_then_cached:
  assumes "shield S pttl elapse svc sha1 seats orders events collate" and "reliable S sha1 svc"
    and "registered svc sha1 w"
    and "GET S (seatingMapCacheKey ev) (w_redis w) = None" and "GET S (lockKey ev) (w_redis w) = None"
    and "pc_event_with_seats (prisma svc) ev (w_db w) = Inr (Some (e, ss))"
  shows "\<exists>w'. run (getSeatingMap svc u ev) w = (w', Inr (seating_map_value (seating_map_of e ss))) \<and>
    (\<forall>d u'. run (getSeatingMap svc u' ev) (w'\<lparr>w_db := d\<rparr>) =
       (w'\<lparr>w_db := d\<rparr>, Inr (seating_map_value (seating_map_of e ss))))"
proof -
  let ?m = "seating_map_value (seating_map_of e ss)"
  have cold: "cached_value (GET S (seatingMapCacheKey ev) (w_redis w)) = Inr None" using assms(4) by simp
  obtain w' where r: "run (getSeatingMapWithMetrics svc u ev) w = (w', Inr (map_result RedisProtected ?m False True False True 0))"
    using shield.reliable_cold [OF assms(1-3) cold assms(5,6)] by blast
  from shield.seating_map_returns [OF assms(1,3) r] cold
  have "map_cached S pttl ev ?m (w_redis w) (w_redis w')" by (auto simp: map_result_def)
  then have hit: "cached_value (GET S (seatingMapCacheKey ev) (w_redis (w'\<lparr>w_db := d\<rparr>))) = Inr (Some ?m)" for d
    by (simp add: map_cached_def del: stringify.simps)
  show ?thesis
    using r shield.reliable_hit [OF assms(1,2) hit] by (simp add: getSeatingMap_def run_await)
qed

theorem cold_then_cached_witness:
  "\<exists>w' m. run (getSeatingMap ref_steady ''t'' ''ev'') ref_world = (w', Inr m) \<and>
    run (getSeatingMap ref_steady ''t2'' ''ev'') (w'\<lparr>w_db := ref_db0\<lparr>rd_seats := Map.empty\<rparr>\<rparr>) =
      (w'\<lparr>w_db := ref_db0\<lparr>rd_seats := Map.empty\<rparr>\<rparr>, Inr m)"
  using cold_then_cached [OF ref_steady_shield.shield_axioms ref_steady_reliable ref_steady_registered
      ref_world_cold ref_world_event, of "''t''"] by blast

text \<open>
  Claim C28.  A caller that finds the cache cold and the mutex taken, and nobody fills the
  cache, gives up after eight reads with a time-out error: 200 milliseconds later, far
  below the 5 seconds a crashed owner keeps the mutex, and without having changed anything.
\<close>

theorem waiter_times_out:
  assumes "shield S pttl elapse svc sha1 seats orders events collate" and "reliable S sha1 svc"
    and "GET S (seatingMapCacheKey ev) (w_redis w) = None" and "GET S (lockKey ev) (w_redis w) \<noteq> None"
  shows "run (getSeatingMapWithMetrics svc u ev) w =
    (w\<lparr>w_clock := w_clock w + 200\<rparr>, Inl (JsError (''Seating map hydration timed out for event: '' @ ev)))"
proof -
  have cold: "cached_value (GET S (seatingMapCacheKey ev) (w_redis w)) = Inr None" using assms(3) by simp
  moreover have "run (acquireMutex svc u (lockKey ev)) w = (w, Inr None)"
    using shield.reliable_acquire [OF assms(1,2), of "lockKey ev" w u] assms(4) by simp
  ultimately show ?thesis
    using shield.reliable_wait [OF assms(1,2) cold, of "w_clock w" WAIT_ATTEMPTS]
    by (simp add: getSeatingMapWithMetrics_def run_await run_Date_now shield.reliable_read [OF assms(1,2)]
        WAIT_ATTEMPTS_def WAIT_DELAY_MS_def del: wait_for_map.simps)
qed

theorem waiter_times_out_witness:
  "run (getSeatingMapWithMetrics ref_steady ''t'' ''ev'') ref_busy =
    (ref_busy\<lparr>w_clock := w_clock ref_busy + 200\<rparr>, Inl (JsError ''Seating map hydration timed out for event: ev''))"
  using waiter_times_out [OF ref_steady_shield.shield_axioms ref_steady_reliable ref_busy_facts(1)] ref_busy_facts(2)
  by simp

text \<open>
  The protected read and the direct one agree: where the direct mode answers,
  the protected mode on a cold cache with a free mutex answers the same map.
\<close>

theorem modes_agree:
  assumes "shield S pttl elapse svc sha1 seats orders events collate" and "reliable S sha1 svc"
    and "registered svc sha1 w"
    and "GET S (seatingMapCacheKey ev) (w_redis w) = None" and "GET S (lockKey ev) (w_redis w) = None"
    and "run (getSeatingMapForMode svc u ev False) w = (w1, Inr res)"
  shows "w1 = w \<and> map_in_database seats events collate (w_db w) ev (smr_map res) \<and>
    (\<exists>w2 res2. run (getSeatingMapForMode svc u ev True) w = (w2, Inr res2) \<and> smr_map res2 = smr_map res)"
proof -
  obtain w2 m where l: "run (loadFromDatabase svc ev) w = (w2, Inr m)" "w1 = w2" "smr_map res = seating_map_value m"
    using assms(6)
    by (auto simp: getSeatingMapForMode_def getSeatingMapDirect_def run_await run_Date_now run_answer_map
        split: prod.splits sum.splits)
  have d: "w2 = w" "map_in_database seats events collate (w_db w) ev (seating_map_value m)"
    using shield.loadFromDatabase_run [OF assms(1) l(1)] by auto
  obtain e ss where "pc_event_with_seats (prisma svc) ev (w_db w) = Inr (Some (e, ss))" "m = seating_map_of e ss"
    using l(1) by (auto simp: loadFromDatabase_def run_await run_db_read split: sum.splits option.splits)
  with shield.reliable_cold [OF assms(1-3) _ assms(5), of e ss u] assms(4) l d show ?thesis
    by (auto simp: getSeatingMapForMode_def)
qed

theorem modes_agree_witness:
  "\<exists>w1 res w2 res2. run (getSeatingMapForMode ref_steady ''t'' ''ev'' False) ref_world = (w1, Inr res) \<and>
    run (getSeatingMapForMode ref_steady ''t'' ''ev'' True) ref_world = (w2, Inr res2) \<and> smr_map res2 = smr_map res"
proof -
  obtain res where r: "run (getSeatingMapForMode ref_steady ''t'' ''ev'' False) ref_world = (ref_world, Inr res)"
    using ref_world_event
    by (simp add: getSeatingMapForMode_def getSeatingMapDirect_def loadFromDatabase_def run_await run_Date_now
        run_db_read run_answer_map)
  from modes_agree [OF ref_steady_shield.shield_axioms ref_steady_reliable ref_steady_registered ref_world_cold r] r
  show ?thesis by blast
qed

text \<open>
  \<open>releaseMutex\<close> is safe for late owners: a mutex under another token is never
  touched, no other key ever is, and a successful call by the owner frees it.
\<close>

theorem foreign_mutex_kept:
  assumes "redis_remote S pttl elapse svc sha1" and "registered svc sha1 w"
    and "run (releaseMutex svc k t) w = (w', x)"
  shows "(GET S k (w_redis w) \<noteq> Some t \<longrightarrow> w' = w) \<and>
    (GET S k (w_redis w) = Some t \<longrightarrow> x = Inr () \<longrightarrow> GET S k (w_redis w') = None) \<and>
    (\<forall>k'. k' \<noteq> k \<longrightarrow> GET S k' (w_redis w') = GET S k' (w_redis w))"
  using redis_remote.releaseMutex_run [OF assms] by (auto simp: mutex_dropped_def split: if_splits)

theorem foreign_mutex_kept_witness:
  "\<exists>x. run (releaseMutex ref_steady (lockKey ''ev'') ''late'') ref_busy = (ref_busy, x)"
proof -
  obtain w' x where r: "run (releaseMutex ref_steady (lockKey ''ev'') ''late'') ref_busy = (w', x)" by force
  from foreign_mutex_kept [OF ref_steady_shield.redis_remote_axioms ref_busy_facts(3) r] ref_busy_facts(2) r
  show ?thesis by simp
qed

end
