(* ===== verification/Ghost.thy ===== *)
theory Ghost imports Rely_Guarantee begin

text \<open>
  History variables.  \<open>watch u p\<close> behaves as \<open>p\<close> and keeps, beside the world, a ghost value
  that \<open>u\<close> updates from the world before and after every action.  Every interleaving of a
  pool is one of the watched pool, so that a property of the results of several processes
  that the world itself does not remember can be proved on the ghost.
\<close>

section \<open>Watching a process\<close>

primrec watch :: "('w \<Rightarrow> 'w \<Rightarrow> 'g \<Rightarrow> 'g) \<Rightarrow> ('w, 'a) proc \<Rightarrow> ('w \<times> 'g, 'a) proc" where
  "watch u (Ret a) = Ret a"
| "watch u (Throw e) = Throw e"
| "watch u (Act f) = Act (\<lambda>(w, g). (\<lambda>(w', q). ((w', u w w' g), q)) ((map_prod id (watch u) \<circ> f) w))"

lemma watch_Act: "watch u (Act f) = Act (\<lambda>(w, g). case f w of (w', p) \<Rightarrow> ((w', u w w' g), watch u p))"
  by (simp add: fun_eq_iff split_def)

declare watch.simps(3) [simp del]

lemma watch_rethrow [simp]: "watch u (rethrow r) = rethrow r"
  by (cases r) (simp_all add: rethrow_def)

lemma watch_sync [simp]: "watch u (sync r) = sync r"
  by (simp add: sync_def)

lemma watch_await: "watch u (await p k) = await (watch u p) (\<lambda>x. watch u (k x))"
proof (induction p)
  case (Act f)
  then show ?case by (force simp: watch_Act fun_eq_iff split: prod.splits)
qed simp_all

lemma watch_catch: "watch u (catch p h) = catch (watch u p) (\<lambda>e. watch u (h e))"
proof (induction p)
  case (Act f)
  then show ?case by (force simp: watch_Act fun_eq_iff split: prod.splits)
qed simp_all

lemma watch_settled: "watch u (settled p) = settled (watch u p)"
proof (induction p)
  case (Act f)
  then show ?case by (force simp: watch_Act fun_eq_iff split: prod.splits)
qed simp_all

lemma watch_finally: "watch u (finally_do p q) = finally_do (watch u p) (watch u q)"
  by (simp add: finally_do_def watch_await watch_settled)

lemma watch_atomic: "watch u (atomic f) = atomic (\<lambda>(w, g). case f w of (w', r) \<Rightarrow> ((w', u w w' g), r))"
  by (simp add: atomic_def watch_Act fun_eq_iff split: prod.splits)

lemmas watch_rules = watch_await watch_catch watch_settled watch_finally watch_atomic

section \<open>Watching a pool\<close>

definition watched :: "(nat \<Rightarrow> 'w \<Rightarrow> 'w \<Rightarrow> 'g \<Rightarrow> 'g) \<Rightarrow> ('w, 'a) proc list \<Rightarrow> ('w \<times> 'g, 'a) proc list" where
  "watched u ps = map (\<lambda>i. watch (u i) (ps ! i)) [0..<length ps]"

definition outside :: "('w \<Rightarrow> 'w \<Rightarrow> bool) \<Rightarrow> 'w \<times> 'g \<Rightarrow> 'w \<times> 'g \<Rightarrow> bool" where
  "outside env c c' \<longleftrightarrow> env (fst c) (fst c') \<and> snd c' = snd c"

lemma watched_simps [simp]:
  "length (watched u ps) = length ps" "i < length ps \<Longrightarrow> watched u ps ! i = watch (u i) (ps ! i)"
  by (simp_all add: watched_def)

lemma watched_update: "i < length ps \<Longrightarrow> watched u (ps[i := p]) = (watched u ps)[i := watch (u i) p]"
  by (rule nth_equalityI) (auto simp: nth_list_update)

lemma watched_step:
  assumes "pool_step env (w, ps) (w', ps')"
  shows "\<exists>g'. pool_step (outside env) ((w, g), watched u ps) ((w', g'), watched u ps')"
  using assms
proof (rule pool_stepE)
  fix i f v q
  assume c: "(w', ps') = (v, ps[i := q])" and i: "i < length ps" "ps ! i = Act f" "f w = (v, q)"
  then have "pool_step (outside env) ((w, g), watched u ps) ((w', u i w w' g), (watched u ps)[i := watch (u i) q])"
    by (intro pool_run [OF _ trans [OF _ watch_Act [of "u i" f]]]) simp_all
  with c i(1) show ?thesis by (auto simp: watched_update)
next
  fix v
  assume c: "(w', ps') = (v, ps)" and "env w v"
  then have "pool_step (outside env) ((w, g), watched u ps) ((w', g), watched u ps)"
    by (intro pool_env) (simp add: outside_def)
  with c show ?thesis by blast
qed

lemma watched_steps:
  assumes "pool_steps env c c'"
  shows "\<exists>g'. pool_steps (outside env) ((fst c, g), watched u (snd c)) ((fst c', g'), watched u (snd c'))"
  using assms
proof (induction rule: pool_steps_induct)
  case refl
  then show ?case by auto
next
  case (step d d')
  then obtain h where h: "pool_steps (outside env) ((fst c, g), watched u (snd c)) ((fst d, h), watched u (snd d))"
    by blast
  obtain h' where "pool_step (outside env) ((fst d, h), watched u (snd d)) ((fst d', h'), watched u (snd d'))"
    using watched_step [of env "fst d" "snd d" "fst d'" "snd d'"] step.hyps(2) by (metis prod.collapse)
  with h show ?case
    unfolding pool_steps_def by (meson rtranclp.rtrancl_into_rtrancl)
qed

lemma stable_all [stable_intros]: "(\<And>x. stable R (A x)) \<Longrightarrow> stable R (\<lambda>w. \<forall>x. A x w)"
  unfolding stable_def by blast

section \<open>Judgements on watched functions\<close>

text \<open>One indivisible action that is watched.\<close>

lemma rg_watch_atomic:
  assumes "stable R A"
    and "\<And>w g w' x. A (w, g) \<Longrightarrow> f w = (w', x) \<Longrightarrow> G (w, g) (w', u w w' g) \<and>
      (\<forall>a. x = Inr a \<longrightarrow> Q a (w', u w w' g)) \<and> (\<forall>e. x = Inl e \<longrightarrow> E e (w', u w w' g))"
    and "\<And>a. stable R (Q a)" and "\<And>e. stable R (E e)"
  shows "rg R G Q E A (watch u (atomic f))"
  unfolding watch_atomic
proof (rule rg_atomic [OF assms(1) _ _ assms(3,4)])
  fix c c' a
  assume "A c" and "(case c of (w, g) \<Rightarrow> case f w of (w', r) \<Rightarrow> ((w', u w w' g), r)) = (c', Inr a)"
  with assms(2) [of "fst c" "snd c" "fst c'" "Inr a"] show "G c c' \<and> Q a c'" by (auto split: prod.splits)
next
  fix c c' e
  assume "A c" and "(case c of (w, g) \<Rightarrow> case f w of (w', r) \<Rightarrow> ((w', u w w' g), r)) = (c', Inl e)"
  with assms(2) [of "fst c" "snd c" "fst c'" "Inl e"] show "G c c' \<and> E e c'" by (auto split: prod.splits)
qed

text \<open>Functions whose actions are moves of one relation.\<close>

lemma rg_watch_moves:
  assumes "moves G p" and "\<And>w w' g. G w w' \<Longrightarrow> H (w, g) (w', u w w' g)" and "stable R A" and "stable H A"
  shows "rg R H (\<lambda>_. A) (\<lambda>_. A) A (watch u p)"
  using assms(1)
proof (induction p)
  case (Act f)
  show ?case unfolding watch_Act
  proof (rule rg.rg_Act)
    fix c
    assume A: "A c"
    obtain w g where c: "c = (w, g)" by force
    obtain w' q where f: "f w = (w', q)" by force
    have "H (w, g) (w', u w w' g)"
      using assms(2) moves_ActD(1) [OF Act.prems, of w] f by simp
    moreover have "rg R H (\<lambda>_. A) (\<lambda>_. A) A (watch u q)"
      using Act.IH [OF f] moves_ActD(2) [OF Act.prems, of w] f by simp
    moreover have "A (w', u w w' g)" using stableD [OF assms(4)] A c calculation(1) by blast
    ultimately show "H c (fst (case c of (w, g) \<Rightarrow> case f w of (w', p) \<Rightarrow> ((w', u w w' g), watch u p))) \<and>
      (\<exists>B. B (fst (case c of (w, g) \<Rightarrow> case f w of (w', p) \<Rightarrow> ((w', u w w' g), watch u p))) \<and>
        rg R H (\<lambda>_. A) (\<lambda>_. A) B (snd (case c of (w, g) \<Rightarrow> case f w of (w', p) \<Rightarrow> ((w', u w w' g), watch u p))))"
      using c f by auto
  qed (rule assms(3))
qed (auto intro: rg.rg_Ret rg.rg_Throw assms(3))

end
