(* ===== verification/Stampede_Contest.thy ===== *)
theory Stampede_Contest imports Stampede Ghost begin

text \<open>
  Any number of readers ask for the seating map of one event at the same time.  The pool
  of \<open>getSeatingMapWithMetrics\<close> calls is interleaved at every \<open>await\<close>, together with any
  activity of the rest of the system that leaves the cached map and the mutex of the event
  alone (in particular neither expires meanwhile).  A ghost value remembers which reader
  filled the cache.
\<close>

section \<open>The moves of the readers and of the others\<close>

definition hydrated :: "'r redis_server \<Rightarrow> string \<Rightarrow> ('r, 'd) world \<Rightarrow> bool" where
  "hydrated S ev w \<longleftrightarrow> (\<exists>m. cached_value (GET S (seatingMapCacheKey ev) (w_redis w)) = Inr (Some m))"

definition undisturbed :: "'r redis_server \<Rightarrow> string \<Rightarrow> ('r, 'd) world \<Rightarrow> ('r, 'd) world \<Rightarrow> bool" where
  "undisturbed S ev w w' \<longleftrightarrow>
     w_digests w' = w_digests w \<and>
     GET S (seatingMapCacheKey ev) (w_redis w') = GET S (seatingMapCacheKey ev) (w_redis w) \<and>
     GET S (lockKey ev) (w_redis w') = GET S (lockKey ev) (w_redis w)"

text \<open>The ghost: the reader whose action filled the cache.\<close>

definition mark ::
  "'r redis_server \<Rightarrow> string \<Rightarrow> nat \<Rightarrow> ('r, 'd) world \<Rightarrow> ('r, 'd) world \<Rightarrow> nat option \<Rightarrow> nat option" where
  "mark S ev i w w' g = (if \<not> hydrated S ev w \<and> hydrated S ev w' then Some i else g)"

text \<open>
  Reader \<open>i\<close> may take the free mutex, drop its own, and fill the cache while it holds the
  mutex; it never empties the cache.
\<close>

definition hydrates ::
  "'r redis_server \<Rightarrow> string \<Rightarrow> (nat \<Rightarrow> string) \<Rightarrow> nat \<Rightarrow>
   ('r, 'd) world \<times> nat option \<Rightarrow> ('r, 'd) world \<times> nat option \<Rightarrow> bool" where
  "hydrates S ev uuid i c c' \<longleftrightarrow>
     (let lock = (\<lambda>c. GET S (lockKey ev) (w_redis (fst c))) in
      w_digests (fst c') = w_digests (fst c) \<and>
      (lock c' = lock c \<or> lock c = None \<and> lock c' = Some (uuid i) \<or> lock c = Some (uuid i) \<and> lock c' = None) \<and>
      (hydrated S ev (fst c) \<longrightarrow> hydrated S ev (fst c')) \<and>
      (\<not> hydrated S ev (fst c) \<longrightarrow> hydrated S ev (fst c') \<longrightarrow> lock c = Some (uuid i)) \<and>
      snd c' = mark S ev i (fst c) (fst c') (snd c))"

definition beside ::
  "'r redis_server \<Rightarrow> string \<Rightarrow> (nat \<Rightarrow> string) \<Rightarrow> nat \<Rightarrow>
   ('r, 'd) world \<times> nat option \<Rightarrow> ('r, 'd) world \<times> nat option \<Rightarrow> bool" where
  "beside S ev uuid i c c' \<longleftrightarrow>
     outside (undisturbed S ev) c c' \<or> (\<exists>j. j \<noteq> i \<and> hydrates S ev uuid j c c')"

interpretation hydration: compatible
  "beside S ev uuid" "hydrates S ev uuid" "outside (undisturbed S ev)"
  for S ev uuid
proof unfold_locales
  fix i j :: nat and c c'
  assume "i \<noteq> j" and "hydrates S ev uuid j c c'"
  then have "\<exists>j. j \<noteq> i \<and> hydrates S ev uuid j c c'" by (intro exI [of _ j]) simp
  then show "beside S ev uuid i c c'" unfolding beside_def ..
qed (simp add: beside_def)

section \<open>What a reader knows\<close>

text \<open>\<open>critical\<close>: inside the \<open>try\<close> of the elected reader; \<open>served\<close>: the cache is filled, by this reader.\<close>

definition knows :: "('r, 'd) services \<Rightarrow> (string \<Rightarrow> string) \<Rightarrow> ('r, 'd) world \<times> nat option \<Rightarrow> bool" where
  "knows svc sha1 c \<longleftrightarrow> registered svc sha1 (fst c)"

definition critical ::
  "'r redis_server \<Rightarrow> ('r, 'd) services \<Rightarrow> (string \<Rightarrow> string) \<Rightarrow> string \<Rightarrow> string \<Rightarrow> bool \<Rightarrow>
   ('r, 'd) world \<times> nat option \<Rightarrow> bool" where
  "critical S svc sha1 ev token cold c \<longleftrightarrow>
     knows svc sha1 c \<and> GET S (lockKey ev) (w_redis (fst c)) = Some token \<and> (cold \<longrightarrow> \<not> hydrated S ev (fst c))"

definition served :: "'r redis_server \<Rightarrow> string \<Rightarrow> nat \<Rightarrow> ('r, 'd) world \<times> nat option \<Rightarrow> bool" where
  "served S ev i c \<longleftrightarrow> hydrated S ev (fst c) \<and> snd c = Some i"

text \<open>The claim a result makes.\<close>

definition result_ok :: "'r redis_server \<Rightarrow> string \<Rightarrow> nat \<Rightarrow> SeatingMapResult \<Rightarrow> ('r, 'd) world \<times> nat option \<Rightarrow> bool" where
  "result_ok S ev i res c \<longleftrightarrow> (databaseLoaded (smr_meta res) \<longrightarrow> served S ev i c)"

lemma undisturbed_hydrated: "undisturbed S ev w w' \<Longrightarrow> hydrated S ev w' = hydrated S ev w"
  by (simp add: undisturbed_def hydrated_def)

lemma undisturbed_refl [simp]: "undisturbed S ev w w"
  by (simp add: undisturbed_def)

lemma stable_knows:
  "stable (beside S ev uuid i) (knows svc sha1)" "stable (hydrates S ev uuid i) (knows svc sha1)"
  by (auto simp: stable_def beside_def hydrates_def outside_def undisturbed_def knows_def registered_def Let_def)

lemma stable_served:
  "stable (beside S ev uuid i) (served S ev k)" "stable (hydrates S ev uuid i) (served S ev k)"
  by (auto simp: stable_def beside_def hydrates_def outside_def served_def mark_def Let_def undisturbed_hydrated)

lemma stable_result_ok:
  "stable (beside S ev uuid i) (result_ok S ev k res)" "stable (hydrates S ev uuid i) (result_ok S ev k res)"
  unfolding result_ok_def by (intro stable_imp stable_served)+

lemma stable_critical:
  assumes "inj uuid"
  shows "stable (beside S ev uuid i) (critical S svc sha1 ev (uuid i) cold)"
proof (rule stableI)
  fix c c'
  assume c: "critical S svc sha1 ev (uuid i) cold c" and m: "beside S ev uuid i c c'"
  have k: "knows svc sha1 c'" using stableD [OF stable_knows(1) _ m] c by (auto simp: critical_def)
  show "critical S svc sha1 ev (uuid i) cold c'"
  proof (cases "outside (undisturbed S ev) c c'")
    case True
    then have u: "undisturbed S ev (fst c) (fst c')" by (simp add: outside_def)
    then have "GET S (lockKey ev) (w_redis (fst c')) = GET S (lockKey ev) (w_redis (fst c))"
      by (simp add: undisturbed_def)
    with c k show ?thesis by (simp add: critical_def undisturbed_hydrated [OF u])
  next
    case False
    with m obtain j where j: "j \<noteq> i" "hydrates S ev uuid j c c'" by (auto simp: beside_def)
    then have "uuid j \<noteq> uuid i" using assms by (auto dest: injD)
    with c k j show ?thesis by (auto simp: critical_def hydrates_def Let_def)
  qed
qed

section \<open>The steps of a reader\<close>

lemma world_redis_eq [simp]:
  "w\<lparr>w_redis := a\<rparr> = w\<lparr>w_redis := b\<rparr> \<longleftrightarrow> a = b" "w\<lparr>w_redis := a\<rparr> = w \<longleftrightarrow> a = w_redis w"
  by (cases w; auto)+

lemma map_value_not_null [simp]: "seating_map_value m \<noteq> JNull"
  by (simp add: seating_map_value_def)

lemma idle_hydrates:
  "undisturbed S ev w w' \<Longrightarrow> hydrates S ev uuid i (w, g) (w', mark S ev i w w' g)"
  by (auto simp: hydrates_def mark_def Let_def undisturbed_hydrated) (simp_all add: undisturbed_def)

text \<open>An action that moves neither key keeps everything a reader knows.\<close>

lemma rg_idle:
  assumes "moves (undisturbed S ev) p" and "stable (beside S ev uuid i) A"
    and "\<And>w w' g. A (w, g) \<Longrightarrow> undisturbed S ev w w' \<Longrightarrow> A (w', g)"
  shows "rg (beside S ev uuid i) (hydrates S ev uuid i) (\<lambda>_. A) (\<lambda>_. A) A (watch (mark S ev i) p)"
proof -
  let ?idle = "\<lambda>c c'. undisturbed S ev (fst c) (fst c') \<and> snd c' = mark S ev i (fst c) (fst c') (snd c)"
  have "stable ?idle A"
    by (rule stableI) (use assms(3) in \<open>force simp: mark_def undisturbed_hydrated\<close>)
  then have "rg (beside S ev uuid i) ?idle (\<lambda>_. A) (\<lambda>_. A) A (watch (mark S ev i) p)"
    by (intro rg_watch_moves [OF assms(1)] assms(2)) auto
  then show ?thesis
  proof (rule rg_weaken)
    fix c c' :: "('a, 'b) world \<times> nat option"
    assume "undisturbed S ev (fst c) (fst c') \<and> snd c' = mark S ev i (fst c) (fst c') (snd c)"
    then show "hydrates S ev uuid i c c'"
      using idle_hydrates [of S ev "fst c" "fst c'" uuid i "snd c"] by (metis prod.collapse)
  qed auto
qed

lemma idle_knows: "knows svc sha1 (w, g) \<Longrightarrow> undisturbed S ev w w' \<Longrightarrow> knows svc sha1 (w', g)"
  by (simp add: knows_def registered_def undisturbed_def)

lemma idle_critical:
  "critical S svc sha1 ev t cold (w, g) \<Longrightarrow> undisturbed S ev w w' \<Longrightarrow> critical S svc sha1 ev t cold (w', g)"
  using idle_knows undisturbed_hydrated by (fastforce simp: critical_def undisturbed_def)

lemma idle_served: "served S ev k (w, g) \<Longrightarrow> undisturbed S ev w w' \<Longrightarrow> served S ev k (w', g)"
  by (simp add: served_def undisturbed_hydrated)

lemma still_Date_now: "moves (undisturbed S ev) Date_now"
  unfolding Date_now_def by (rule moves_reads) simp

lemma still_sleep: "moves (undisturbed S ev) (sleep n)"
  unfolding sleep_def
  by (intro moves_await still_Date_now moves_modifies) (simp add: undisturbed_def)

lemma still_load: "moves (undisturbed S ev) (loadFromDatabase svc ev')"
  unfolding loadFromDatabase_def db_read_def
  by (intro moves_await moves_atomic) (auto split: option.split intro: moves_intros)

lemma still_answer: "moves (undisturbed S ev) (answer_map t0 how m h a wt l)"
  unfolding answer_map_def by (intro moves_await still_Date_now moves_Ret)

text \<open>A command of the client that is watched.\<close>

lemma rg_watch_redis:
  assumes "stable R A"
    and "\<And>w g r x c'. A (w, g) \<Longrightarrow> command (w_redis w) = (r, x) \<Longrightarrow> c' = (w\<lparr>w_redis := r\<rparr>, u w (w\<lparr>w_redis := r\<rparr>) g) \<Longrightarrow>
      G (w, g) c' \<and> (\<forall>a. x = Inr a \<longrightarrow> Q a c') \<and> (\<forall>e. x = Inl e \<longrightarrow> E e c')"
    and "\<And>a. stable R (Q a)" and "\<And>e. stable R (E e)"
  shows "rg R G Q E A (watch u (redis_do command))"
  unfolding redis_do_def
proof (rule rg_watch_atomic [OF assms(1) _ assms(3,4)])
  fix w g w' x
  assume "A (w, g)" and "(case command (w_redis w) of (r, x) \<Rightarrow> (w\<lparr>w_redis := r\<rparr>, x)) = (w', x)"
  with assms(2) [of w g "fst (command (w_redis w))" x "(w', u w w' g)"]
  show "G (w, g) (w', u w w' g) \<and> (\<forall>a. x = Inr a \<longrightarrow> Q a (w', u w w' g)) \<and> (\<forall>e. x = Inl e \<longrightarrow> E e (w', u w w' g))"
    by (auto split: prod.splits)
qed

context redis_remote begin

lemma get_idle: "undisturbed S ev w (fst (case c_get (redis svc) k (w_redis w) of (r, x) \<Rightarrow> (w\<lparr>w_redis := r\<rparr>, x)))"
  using get_remote [of "w_redis w" k] by (auto simp: delivers_def undisturbed_def)

lemma still_read: "moves (undisturbed S ev) (readCachedMap svc k)"
  unfolding readCachedMap_def redis_do_def
  by (intro moves_await moves_atomic get_idle) (auto split: option.split intro: moves_intros)

lemma still_wait: "moves (undisturbed S ev) (wait_for_map svc t0 ev' n)"
proof (induction n)
  case (Suc n)
  then show ?case
    by (auto intro!: moves_await still_sleep still_read still_answer split: option.split)
qed (simp add: moves_Throw)

lemma rg_get_critical:
  assumes "inj uuid"
  shows "rg (beside S ev uuid i) (hydrates S ev uuid i)
    (\<lambda>v. critical S svc sha1 ev (uuid i) (cached_value v = Inr None)) (\<lambda>_. knows svc sha1) (critical S svc sha1 ev (uuid i) False)
    (watch (mark S ev i) (redis_do (c_get (redis svc) (seatingMapCacheKey ev))))"
proof (rule rg_watch_redis)
  let ?k = "seatingMapCacheKey ev" and ?C = "critical S svc sha1 ev (uuid i)"
  fix w g r x c'
  assume C: "?C False (w, g)" and get: "c_get (redis svc) ?k (w_redis w) = (r, x)"
    and c': "c' = (w\<lparr>w_redis := r\<rparr>, mark S ev i w (w\<lparr>w_redis := r\<rparr>) g)"
  have still: "undisturbed S ev w (w\<lparr>w_redis := r\<rparr>)" using get_idle [of ev w ?k] get by simp
  then have "hydrates S ev uuid i (w, g) c'" "knows svc sha1 c'"
    using C c' idle_hydrates [OF still] idle_knows [OF _ still] by (simp_all add: critical_def knows_def)
  moreover have "?C (cached_value v = Inr None) c'" if "x = Inr v" for v
    using get_remote [of "w_redis w" ?k] get that C c'
    by (auto simp: delivers_def critical_def knows_def hydrated_def)
  ultimately show "hydrates S ev uuid i (w, g) c' \<and> (\<forall>v. x = Inr v \<longrightarrow> ?C (cached_value v = Inr None) c') \<and>
      (\<forall>e. x = Inl e \<longrightarrow> knows svc sha1 c')" by blast
qed (rule stable_critical [OF assms] stable_knows)+

lemma rg_read_critical:
  assumes "inj uuid"
  shows "rg (beside S ev uuid i) (hydrates S ev uuid i)
    (\<lambda>c. critical S svc sha1 ev (uuid i) (c = None)) (\<lambda>_. knows svc sha1) (critical S svc sha1 ev (uuid i) False)
    (watch (mark S ev i) (readCachedMap svc (seatingMapCacheKey ev)))"
  unfolding readCachedMap_def watch_await
proof (rule rg_await [OF rg_get_critical [OF assms]])
  let ?C = "critical S svc sha1 ev (uuid i)"
  note st = stable_critical [OF assms]
  fix v
  show "rg (beside S ev uuid i) (hydrates S ev uuid i) (\<lambda>c. ?C (c = None)) (\<lambda>_. knows svc sha1) (?C (cached_value v = Inr None))
    (watch (mark S ev i) (case v of None \<Rightarrow> Ret None
      | Some t \<Rightarrow> await (sync (JSON_parse t)) (\<lambda>parsed. Ret (if parsed = JNull then None else Some parsed))))"
  proof (cases v)
    case None
    then show ?thesis by (auto intro!: rg.rg_Ret st simp: cached_value_def)
  next
    case (Some t)
    then show ?thesis
      by (cases "JSON_parse t")
         (auto intro!: rg.rg_Ret rg.rg_Throw st simp: watch_await sync_def rethrow_def cached_value_def critical_def)
  qed
qed

lemma rg_set_critical:
  assumes "inj uuid"
  shows "rg (beside S ev uuid i) (hydrates S ev uuid i)
    (\<lambda>_ c. knows svc sha1 c \<and> served S ev i c) (\<lambda>_. knows svc sha1) (critical S svc sha1 ev (uuid i) True)
    (watch (mark S ev i) (redis_do (c_set_ex (redis svc) (seatingMapCacheKey ev)
      (stringify (seating_map_value m)) CACHE_TTL_SECONDS)))"
proof (rule rg_watch_redis)
  let ?k = "seatingMapCacheKey ev" and ?t = "stringify (seating_map_value m)"
  fix w g r c' and x :: "exn + unit"
  assume C: "critical S svc sha1 ev (uuid i) True (w, g)" and r: "c_set_ex (redis svc) ?k ?t CACHE_TTL_SECONDS (w_redis w) = (r, x)"
    and c': "c' = (w\<lparr>w_redis := r\<rparr>, mark S ev i w (w\<lparr>w_redis := r\<rparr>) g)"
  let ?s = "SET_EX S ?k ?t CACHE_TTL_SECONDS (w_redis w)"
  have "r = w_redis w \<and> (\<exists>e. x = Inl e) \<or> r = ?s"
    using set_ex_remote [of "w_redis w" ?k ?t CACHE_TTL_SECONDS] r by (auto simp: delivers_def)
  moreover have "hydrated S ev (w\<lparr>w_redis := ?s\<rparr>)"
    by (simp add: hydrated_def cached_value_def get_set_ex CACHE_TTL_SECONDS_def del: stringify.simps)
  moreover have "GET S (lockKey ev) ?s = GET S (lockKey ev) (w_redis w)"
    by (simp add: get_set_ex CACHE_TTL_SECONDS_def)
  ultimately show "hydrates S ev uuid i (w, g) c' \<and> (\<forall>a. x = Inr a \<longrightarrow> knows svc sha1 c' \<and> served S ev i c') \<and>
      (\<forall>e. x = Inl e \<longrightarrow> knows svc sha1 c')"
    using C c' by (auto simp: hydrates_def mark_def Let_def critical_def served_def knows_def)
qed (rule stable_critical assms stable_knows stable_conj stable_served)+

lemma rg_acquire:
  assumes "inj uuid"
  shows "rg (beside S ev uuid i) (hydrates S ev uuid i)
    (\<lambda>t c. knows svc sha1 c \<and> (t \<noteq> None \<longrightarrow> t = Some (uuid i) \<and> critical S svc sha1 ev (uuid i) False c))
    (\<lambda>_. knows svc sha1) (knows svc sha1)
    (watch (mark S ev i) (acquireMutex svc (uuid i) (lockKey ev)))"
proof -
  let ?set = "redis_do (c_set_px_nx (redis svc) (lockKey ev) (uuid i) LOCK_TTL_MS) :: (('r, 'd) world, bool) proc"
  let ?Q = "\<lambda>ok c. knows svc sha1 c \<and> (ok \<longrightarrow> critical S svc sha1 ev (uuid i) False c)"
  have set: "rg (beside S ev uuid i) (hydrates S ev uuid i) ?Q (\<lambda>_. knows svc sha1) (knows svc sha1)
      (watch (mark S ev i) ?set)"
  proof (rule rg_watch_redis)
    fix w g r x c'
    assume k: "knows svc sha1 (w, g)" and r: "c_set_px_nx (redis svc) (lockKey ev) (uuid i) LOCK_TTL_MS (w_redis w) = (r, x)"
      and c': "c' = (w\<lparr>w_redis := r\<rparr>, mark S ev i w (w\<lparr>w_redis := r\<rparr>) g)"
    have "run (acquireMutex svc (uuid i) (lockKey ev)) w =
        (w\<lparr>w_redis := r\<rparr>, map_sum id (\<lambda>ok. if ok then Some (uuid i) else None) x)"
      using r by (cases x) (simp_all add: acquireMutex_def run_await run_redis_do)
    from acquireMutex_run [OF this] have
      "mutex_taken S (lockKey ev) (uuid i) (w_redis w) r \<or> r = w_redis w \<and> x \<noteq> Inr True"
      by (cases x) (auto split: if_splits)
    then show "hydrates S ev uuid i (w, g) c' \<and> (\<forall>ok. x = Inr ok \<longrightarrow> ?Q ok c') \<and> (\<forall>e. x = Inl e \<longrightarrow> knows svc sha1 c')"
      using k c' by (auto simp: hydrates_def mark_def Let_def critical_def knows_def hydrated_def mutex_taken_def)
  qed (intro stable_conj stable_imp stable_knows stable_critical assms)+
  show ?thesis unfolding acquireMutex_def watch_await
    by (rule rg_await [OF set]) (auto intro!: rg.rg_Ret stable_conj stable_knows stable_critical assms)
qed

text \<open>The script drops the mutex of this reader, or nothing.\<close>

lemma release_hydrates:
  assumes src: "scriptFile svc LuaScriptName.releaseMutex = Inr src"
    and r: "c_evalsha (redis svc) (sha1 src) [lockKey ev] [uuid i] (w_redis w) = (r, x)"
  shows "hydrates S ev uuid i (w, g) (w\<lparr>w_redis := r\<rparr>, mark S ev i w (w\<lparr>w_redis := r\<rparr>) g)"
proof -
  obtain r1 n where ex: "lua_script S LuaScriptName.releaseMutex [lockKey ev] [uuid i] (w_redis w) = (r1, Inr (RInt n))"
    "mutex_dropped S pttl (lockKey ev) (uuid i) (w_redis w) r1"
    using release_mutex_executed by blast
  have "r = w_redis w \<or> mutex_dropped S pttl (lockKey ev) (uuid i) (w_redis w) r"
    using evalsha_remote [OF src, of "w_redis w" "[lockKey ev]" "[uuid i]"] r ex by (auto simp: delivers_def)
  then have "GET S (seatingMapCacheKey ev) r = GET S (seatingMapCacheKey ev) (w_redis w)"
    "GET S (lockKey ev) r = GET S (lockKey ev) (w_redis w) \<or>
     GET S (lockKey ev) (w_redis w) = Some (uuid i) \<and> GET S (lockKey ev) r = None"
    using mutex_dropped_get(1) [of S pttl "lockKey ev" "uuid i" "w_redis w" r "seatingMapCacheKey ev"]
      mutex_dropped_get(2) [of S pttl "lockKey ev" "uuid i" "w_redis w" r] by auto
  then show ?thesis by (auto simp: hydrates_def Let_def hydrated_def)
qed

lemma rg_release_digest:
  assumes "stable (beside S ev uuid i) A" and "\<And>c. A c \<Longrightarrow> knows svc sha1 c"
  shows "rg (beside S ev uuid i) (hydrates S ev uuid i)
    (\<lambda>digest c. A c \<and> (\<exists>src. scriptFile svc LuaScriptName.releaseMutex = Inr src \<and> digest = sha1 src)) (\<lambda>_ _. True) A
    (watch (mark S ev i) (getLuaScriptDigest LuaScriptName.releaseMutex))"
  unfolding getLuaScriptDigest_def
proof (rule rg_watch_atomic, goal_cases)
  case (2 w g w' x)
  obtain src where "scriptFile svc LuaScriptName.releaseMutex = Inr src"
    "w_digests w LuaScriptName.releaseMutex = Some (sha1 src)"
    using assms(2) [OF 2(1)] by (auto simp: knows_def elim: registeredE)
  with 2 idle_hydrates [of S ev w w uuid i g] show ?case by (auto simp: mark_def)
qed (intro assms(1) stable_conj stable_const)+

lemma rg_release:
  assumes "stable (beside S ev uuid i) A" and "stable (hydrates S ev uuid i) A" and "\<And>c. A c \<Longrightarrow> knows svc sha1 c"
  shows "rg (beside S ev uuid i) (hydrates S ev uuid i) (\<lambda>_. A) (\<lambda>_ _. True) A
    (watch (mark S ev i) (releaseMutex svc (lockKey ev) (uuid i)))"
proof -
  have send: "rg (beside S ev uuid i) (hydrates S ev uuid i) (\<lambda>_. A) (\<lambda>_ _. True)
      (\<lambda>c. A c \<and> (\<exists>src. scriptFile svc LuaScriptName.releaseMutex = Inr src \<and> digest = sha1 src))
      (watch (mark S ev i) (redis_do (c_evalsha (redis svc) digest [lockKey ev] [uuid i])))" for digest
  proof (rule rg_watch_redis, goal_cases)
    case (2 w g r x c')
    then obtain src where "scriptFile svc LuaScriptName.releaseMutex = Inr src" "digest = sha1 src" by blast
    with 2 have "hydrates S ev uuid i (w, g) c'" by (auto intro: release_hydrates)
    with 2 show ?case using stableD [OF assms(2)] by blast
  qed (intro assms(1) stable_conj stable_const)+
  show ?thesis unfolding releaseMutex_def watch_await
    by (intro rg_await [OF rg_release_digest [OF assms(1,3)]] rg_await [OF send]) (auto intro: rg.rg_Ret assms(1))
qed

section \<open>A reader as a whole\<close>

lemma rg_answer:
  assumes "stable (beside S ev uuid i) A" and "\<And>w w' g. A (w, g) \<Longrightarrow> undisturbed S ev w w' \<Longrightarrow> A (w', g)"
    and "\<And>c d. A c \<Longrightarrow> Q (map_result how m h a wt l d) c" and "\<And>res. stable (beside S ev uuid i) (Q res)"
  shows "rg (beside S ev uuid i) (hydrates S ev uuid i) Q (\<lambda>_. A) A (watch (mark S ev i) (answer_map t0 how m h a wt l))"
  unfolding answer_map_def watch_await
proof (rule rg_await [OF rg_idle [OF still_Date_now assms(1,2)]])
  fix now
  show "rg (beside S ev uuid i) (hydrates S ev uuid i) Q (\<lambda>_. A) A
      (watch (mark S ev i) (Ret (map_result how m h a wt l (now - t0))))"
    by (auto intro: rg.rg_Ret assms(1,3))
qed

text \<open>What the body of the elected reader leaves: the map was in the cache, or this reader put it there.\<close>

lemma rg_rehydrate:
  assumes "inj uuid"
  shows "rg (beside S ev uuid i) (hydrates S ev uuid i)
    (\<lambda>res c. knows svc sha1 c \<and> result_ok S ev i res c) (\<lambda>_. knows svc sha1) (critical S svc sha1 ev (uuid i) False)
    (watch (mark S ev i) (rehydrate svc t0 ev))"
proof -
  let ?R = "beside S ev uuid i" and ?G = "hydrates S ev uuid i" and ?C = "critical S svc sha1 ev (uuid i)"
  let ?Q = "\<lambda>res c. knows svc sha1 c \<and> result_ok S ev i res c"
  have Q: "stable ?R (?Q res)" for res by (intro stable_conj stable_knows stable_result_ok)
  have weak: "rg ?R ?G P (\<lambda>_. knows svc sha1) A p"
    if "rg ?R ?G P (\<lambda>_. A') A p" and "\<And>c. A' c \<Longrightarrow> knows svc sha1 c" for P A A' and p :: "(('r, 'd) world \<times> nat option, 'a) proc"
    using that by (blast intro: rg_weaken)
  have hit: "rg ?R ?G ?Q (\<lambda>_. knows svc sha1) (?C False) (watch (mark S ev i) (answer_map t0 RedisProtected m True True False False))" for m
    by (rule weak [OF rg_answer [OF stable_critical [OF assms] idle_critical _ Q]])
       (auto simp: result_ok_def critical_def)
  have answer: "rg ?R ?G ?Q (\<lambda>_. knows svc sha1) (\<lambda>c. knows svc sha1 c \<and> served S ev i c)
      (watch (mark S ev i) (answer_map t0 RedisProtected m False True False True))" for m
  proof (rule weak [OF rg_answer [OF stable_conj [OF stable_knows(1) stable_served(1)] _ _ Q]])
    fix w w' :: "('r, 'd) world" and g
    assume "knows svc sha1 (w, g) \<and> served S ev i (w, g)" and "undisturbed S ev w w'"
    then show "knows svc sha1 (w', g) \<and> served S ev i (w', g)" using idle_knows idle_served by blast
  qed (simp_all add: result_ok_def)
  have load: "rg ?R ?G (\<lambda>_. ?C True) (\<lambda>_. knows svc sha1) (?C True) (watch (mark S ev i) (loadFromDatabase svc ev))"
    by (rule weak [OF rg_idle [OF still_load stable_critical [OF assms] idle_critical]]) (auto simp: critical_def)
  show ?thesis
    unfolding rehydrate_def watch_await
  proof (rule rg_await [OF rg_read_critical [OF assms]])
    fix refreshed :: "json option"
    show "rg ?R ?G ?Q (\<lambda>_. knows svc sha1) (?C (refreshed = None)) (watch (mark S ev i) (case refreshed of
          Some m \<Rightarrow> answer_map t0 RedisProtected m True True False False
        | None \<Rightarrow> await (loadFromDatabase svc ev) (\<lambda>m.
            await (redis_do (c_set_ex (redis svc) (seatingMapCacheKey ev) (stringify (seating_map_value m)) CACHE_TTL_SECONDS)) (\<lambda>_.
            answer_map t0 RedisProtected (seating_map_value m) False True False True))))"
      using hit by (cases refreshed) (auto simp: watch_await intro!: rg_await [OF load] rg_await [OF rg_set_critical [OF assms]] answer)
  qed
qed

text \<open>Parts of a reader that load nothing.\<close>

lemma rg_idle_reader:
  fixes p :: "(('r, 'd) world, 'a) proc"
  assumes "moves (undisturbed S ev) p"
  shows "rg (beside S ev uuid i) (hydrates S ev uuid i) (\<lambda>_. knows svc sha1) (\<lambda>_ _. True) (knows svc sha1) (watch (mark S ev i) p)"
  by (rule rg_weaken [OF rg_idle [OF assms stable_knows(1) idle_knows]]) auto

lemma rg_plain_answer:
  "rg (beside S ev uuid i) (hydrates S ev uuid i) (result_ok S ev i) (\<lambda>_ _. True) (knows svc sha1)
    (watch (mark S ev i) (answer_map t0 how m h a wt False))"
  by (rule rg_weaken [OF rg_answer [OF stable_knows(1) idle_knows _ stable_result_ok(1)]]) (auto simp: result_ok_def)

lemma rg_wait:
  "rg (beside S ev uuid i) (hydrates S ev uuid i) (result_ok S ev i) (\<lambda>_ _. True) (knows svc sha1)
    (watch (mark S ev i) (wait_for_map svc t0 ev n))"
proof (induction n)
  case 0
  then show ?case by (auto intro: rg.rg_Throw stable_knows)
next
  case (Suc n)
  then show ?case
    unfolding wait_for_map.simps watch_await
    by (intro rg_await [OF rg_idle_reader [OF still_sleep]] rg_await [OF rg_idle_reader [OF still_read]])
       (auto split: option.split intro: rg_plain_answer)
qed

text \<open>The elected reader: the body, then the release, whatever the body did.\<close>

lemma rg_elected:
  assumes "inj uuid"
  shows "rg (beside S ev uuid i) (hydrates S ev uuid i) (result_ok S ev i) (\<lambda>_ _. True) (critical S svc sha1 ev (uuid i) False)
    (watch (mark S ev i) (finally_do (rehydrate svc t0 ev) (releaseMutex svc (lockKey ev) (uuid i))))"
proof -
  let ?S = "\<lambda>r c. knows svc sha1 c \<and> (\<forall>res. r = Inr res \<longrightarrow> result_ok S ev i res c)"
  have st: "stable (beside S ev uuid i) (?S r)" "stable (hydrates S ev uuid i) (?S r)" for r
    by (intro stable_conj stable_knows stable_all stable_imp stable_result_ok)+
  have body: "rg (beside S ev uuid i) (hydrates S ev uuid i) ?S (\<lambda>_ _. True) (critical S svc sha1 ev (uuid i) False)
      (settled (watch (mark S ev i) (rehydrate svc t0 ev)))"
    by (rule rg_settled [OF rg_rehydrate [OF assms]]) auto
  show ?thesis unfolding finally_do_def watch_await watch_settled watch_rethrow
    by (intro rg_await [OF body] rg_await [OF rg_release [OF st]] rg_rethrow st) auto
qed

text \<open>What follows the attempt to take the mutex.\<close>

lemma rg_after_acquire:
  assumes "inj uuid"
  shows "rg (beside S ev uuid i) (hydrates S ev uuid i) (result_ok S ev i) (\<lambda>_ _. True)
    (\<lambda>c. knows svc sha1 c \<and> (token \<noteq> None \<longrightarrow> token = Some (uuid i) \<and> critical S svc sha1 ev (uuid i) False c))
    (watch (mark S ev i) (case token of
        Some t \<Rightarrow> finally_do (rehydrate svc t0 ev) (releaseMutex svc (lockKey ev) t)
      | None \<Rightarrow> wait_for_map svc t0 ev n))"
proof (cases "token = Some (uuid i)")
  case True
  then show ?thesis
    by (auto intro!: rg_conseq [OF rg_elected [OF assms]] stable_conj stable_knows stable_critical assms)
next
  case False
  then show ?thesis by (cases token) (auto intro: rg_wait rg_False)
qed

lemma rg_reader:
  assumes "inj uuid"
  shows "rg (beside S ev uuid i) (hydrates S ev uuid i) (result_ok S ev i) (\<lambda>_ _. True) (knows svc sha1)
    (watch (mark S ev i) (getSeatingMapWithMetrics svc (uuid i) ev))"
  unfolding getSeatingMapWithMetrics_def watch_await
proof (intro rg_await [OF rg_idle_reader [OF still_Date_now]] rg_await [OF rg_idle_reader [OF still_read]])
  fix startedAt and cached :: "json option"
  have acquire: "rg (beside S ev uuid i) (hydrates S ev uuid i)
      (\<lambda>t c. knows svc sha1 c \<and> (t \<noteq> None \<longrightarrow> t = Some (uuid i) \<and> critical S svc sha1 ev (uuid i) False c))
      (\<lambda>_ _. True) (knows svc sha1) (watch (mark S ev i) (acquireMutex svc (uuid i) (lockKey ev)))"
    by (rule rg_weaken [OF rg_acquire [OF assms]]) auto
  show "rg (beside S ev uuid i) (hydrates S ev uuid i) (result_ok S ev i) (\<lambda>_ _. True) (knows svc sha1)
     (watch (mark S ev i) (case cached of
       Some m \<Rightarrow> answer_map startedAt RedisProtected m True False False False
     | None \<Rightarrow>
         await (acquireMutex svc (uuid i) (lockKey ev)) (\<lambda>token.
         case token of
           Some t \<Rightarrow> finally_do (rehydrate svc startedAt ev) (releaseMutex svc (lockKey ev) t)
         | None \<Rightarrow> wait_for_map svc startedAt ev WAIT_ATTEMPTS)))"
    by (cases cached) (simp_all add: rg_plain_answer watch_await rg_await [OF acquire rg_after_acquire [OF assms]])
qed

end

section \<open>The readers of one event\<close>

definition readers :: "('r, 'd) services \<Rightarrow> (nat \<Rightarrow> string) \<Rightarrow> string \<Rightarrow> nat \<Rightarrow> (('r, 'd) world, SeatingMapResult) proc list" where
  "readers svc uuid ev n = map (\<lambda>i. getSeatingMapWithMetrics svc (uuid i) ev) [0..<n]"

definition loaded :: "('w, SeatingMapResult) proc \<Rightarrow> bool" where
  "loaded p \<longleftrightarrow> (\<exists>res. p = Ret res \<and> databaseLoaded (smr_meta res))"

text \<open>Over a filled cache nobody is remembered.\<close>

definition unmarked :: "'r redis_server \<Rightarrow> string \<Rightarrow> ('r, 'd) world \<times> nat option \<Rightarrow> bool" where
  "unmarked S ev c \<longleftrightarrow> hydrated S ev (fst c) \<and> snd c = None"

lemma unmarked_kept:
  "unmarked S ev c \<Longrightarrow> hydrates S ev uuid i c c' \<Longrightarrow> unmarked S ev c'"
  "unmarked S ev c \<Longrightarrow> outside (undisturbed S ev) c c' \<Longrightarrow> unmarked S ev c'"
  using undisturbed_hydrated [of S ev "fst c" "fst c'"]
  by (auto simp: unmarked_def hydrates_def mark_def outside_def Let_def)

context redis_remote begin

lemma readers_holding:
  assumes "registered svc sha1 w" and "inj uuid"
  shows "hydration.holding S ev uuid (result_ok S ev) (\<lambda>_ _ _. True) ((w, None), watched (mark S ev) (readers svc uuid ev n))"
  unfolding hydration.holding_def
proof (intro allI impI exI [of _ "knows svc sha1"] conjI)
  let ?c = "((w, None), watched (mark S ev) (readers svc uuid ev n))"
  fix i
  assume "i < length (snd ?c)"
  then have "snd ?c ! i = watch (mark S ev i) (getSeatingMapWithMetrics svc (uuid i) ev)"
    by (simp add: readers_def)
  then show "rg (beside S ev uuid i) (hydrates S ev uuid i) (result_ok S ev i) (\<lambda>_ _. True) (knows svc sha1) (snd ?c ! i)"
    using rg_reader [OF assms(2)] by metis
  show "knows svc sha1 (fst ?c)" using assms(1) by (simp add: knows_def)
qed

lemma readers_loaded:
  assumes "registered svc sha1 w" and "inj uuid"
    and "pool_steps (undisturbed S ev) (w, readers svc uuid ev n) (w', ps')"
  shows "\<exists>g. (\<forall>i < n. loaded (ps' ! i) \<longrightarrow> hydrated S ev w' \<and> g = Some i) \<and>
    (hydrated S ev w \<longrightarrow> g = None \<and> hydrated S ev w')"
proof -
  let ?c = "((w, None), watched (mark S ev) (readers svc uuid ev n))"
  obtain g where steps: "pool_steps (outside (undisturbed S ev)) ?c ((w', g), watched (mark S ev) ps')"
    using watched_steps [OF assms(3), of None "mark S ev"] by auto
  note hold = readers_holding [OF assms(1,2), of ev n]
  have len: "length ps' = n"
    using hydration.holding_steps [OF steps hold] by (simp add: readers_def)
  have "hydrated S ev w' \<and> g = Some i" if "i < n" and l: "loaded (ps' ! i)" for i
  proof -
    obtain res where res: "ps' ! i = Ret res" "databaseLoaded (smr_meta res)" using l by (auto simp: loaded_def)
    have "result_ok S ev i res (w', g)"
      using hydration.finished_returned [OF steps hold, of i res] that(1) len res(1) by (simp add: readers_def)
    with res(2) show ?thesis by (simp add: result_ok_def served_def)
  qed
  moreover have "g = None \<and> hydrated S ev w'" if "hydrated S ev w"
    using hydration.steps_invariant [where I = "unmarked S ev", OF steps hold _ unmarked_kept] that
    by (simp add: unmarked_def)
  ultimately show ?thesis by blast
qed

end

section \<open>Properties\<close>

text \<open>
  Claim C13.  Stampede protection.  Of any number of readers of one event, in any
  interleaving, with commands failing or not, at most one answers from a load of the
  database, and then the map is in the cache; if the map was cached when they started,
  none does.
\<close>

theorem one_database_load:
  assumes "redis_remote S pttl elapse svc sha1" and "registered svc sha1 w" and "inj uuid"
    and "pool_steps (undisturbed S ev) (w, readers svc uuid ev n) (w', ps')"
  shows "(\<forall>i < n. \<forall>j < n. loaded (ps' ! i) \<longrightarrow> loaded (ps' ! j) \<longrightarrow> i = j) \<and>
    (\<forall>i < n. loaded (ps' ! i) \<longrightarrow> hydrated S ev w') \<and>
    (hydrated S ev w \<longrightarrow> (\<forall>i < n. \<not> loaded (ps' ! i)))"
proof -
  obtain g where g: "\<And>i. i < n \<Longrightarrow> loaded (ps' ! i) \<Longrightarrow> hydrated S ev w' \<and> g = Some i"
    and h: "hydrated S ev w \<Longrightarrow> g = None"
    using redis_remote.readers_loaded [OF assms] by blast
  have "i = j" if "i < n" "j < n" "loaded (ps' ! i)" "loaded (ps' ! j)" for i j
    using g [OF that(1,3)] g [OF that(2,4)] by simp
  with g h show ?thesis by auto
qed

theorem one_database_load_witness:
  "\<exists>w' ps'. pool_steps (undisturbed ref_server ''ev'')
      (ref_world, readers ref_steady (\<lambda>i. replicate i CHR ''t'') ''ev'' 2) (w', ps') \<and>
    loaded (ps' ! 0) \<and> \<not> loaded (ps' ! 1)"
proof -
  let ?id = "\<lambda>i. replicate i CHR ''t''" and ?ps = "readers ref_steady (\<lambda>i. replicate i CHR ''t'') ''ev'' 2"
  have ps: "?ps ! 0 = getSeatingMapWithMetrics ref_steady (?id 0) ''ev''"
    "?ps ! 1 = getSeatingMapWithMetrics ref_steady (?id 1) ''ev''"
    by (simp_all add: readers_def del: One_nat_def)
  obtain w1 res1 where r1: "run (?ps ! 0) ref_world = (w1, Inr res1)" "databaseLoaded (smr_meta res1)"
    using ref_cold_run [of "?id 0"] by (auto simp: ps)
  obtain m where "cached_value (GET ref_server (seatingMapCacheKey ''ev'') (w_redis w1)) = Inr (Some m)"
    using ref_cold_cached [OF r1(1) [unfolded ps]] by auto
  then obtain res2 where r2: "run (?ps ! 1) w1 = (w1, Inr res2)"
    using ref_steady_shield.reliable_hit [OF ref_steady_reliable]
    unfolding ps(2) by blast
  let ?ps2 = "?ps[0 := Ret res1, 1 := Ret res2]"
  have "pool_steps (undisturbed ref_server ''ev'') (ref_world, ?ps) (w1, ?ps[0 := Ret res1])"
    by (rule pool_steps_run [OF r1(1)]) (simp_all add: readers_def)
  moreover have "pool_steps (undisturbed ref_server ''ev'') (w1, ?ps[0 := Ret res1]) (w1, ?ps2)"
    by (rule pool_steps_run [OF r2]) (simp_all add: readers_def)
  ultimately have steps: "pool_steps (undisturbed ref_server ''ev'') (ref_world, ?ps) (w1, ?ps2)"
    unfolding pool_steps_def by (rule rtranclp_trans)
  have l0: "loaded (?ps2 ! 0)" using r1(2) by (simp add: loaded_def readers_def)
  have inj: "inj ?id" by (rule injI) (metis length_replicate)
  have "\<not> loaded (?ps2 ! 1)"
  proof
    assume "loaded (?ps2 ! 1)"
    moreover have "(0::nat) < 2" "(1::nat) < 2" by simp_all
    ultimately have "(0::nat) = 1"
      using one_database_load [OF ref_steady_shield.redis_remote_axioms ref_steady_registered inj steps] l0 by blast
    then show False by simp
  qed
  with l0 steps show ?thesis by blast
qed

end
