(* ===== verification/Pubsub.thy ===== *)
theory Pubsub imports Streams begin

text \<open>
  \<open>src/src/websocket/pubsub.adapter.ts\<close>: publication of seat events on the shared Redis
  channel.  The adapter refuses to publish while it is not connected; the check and the
  command are one step, since nothing is awaited between them.
\<close>

section \<open>Publishing\<close>

definition not_connected :: exn where
  "not_connected = JsError ''Redis WebSocket Pub/Sub adapter is not connected''"

definition adapter_publishSeatEvent ::
  "('r, 'd) services \<Rightarrow> WebSocketSeatEvent \<Rightarrow> (('r, 'd) world, unit) proc" where
  "adapter_publishSeatEvent svc event =
     atomic (\<lambda>w.
       if \<not> w_adapter_connected w then (w, Inl not_connected)
       else
         (let message = stringify (seat_event_json event)
          in case c_publish (redis svc) WS_SEAT_EVENTS_CHANNEL message (w_redis w) of
               (r, Inl e) \<Rightarrow> (w\<lparr>w_redis := r\<rparr>, Inl e)
             | (r, Inr _) \<Rightarrow>
                 (w\<lparr>w_redis := r, w_sent := w_sent w @ [(WS_SEAT_EVENTS_CHANNEL, message)]\<rparr>, Inr ())))"

section \<open>What publishing leaves alone\<close>

text \<open>
  The state the seats depend on: \<open>same_back_end\<close> says that two worlds differ at most in
  what was published.
\<close>

definition same_back_end ::
  "'r redis_server \<Rightarrow> (string \<Rightarrow> 'r \<Rightarrow> nat option) \<Rightarrow> ('r \<Rightarrow> stream_entry list) \<Rightarrow> ('r \<Rightarrow> string list option) \<Rightarrow>
   ('r \<Rightarrow> string set) \<Rightarrow> ('r, 'd) world \<Rightarrow> ('r, 'd) world \<Rightarrow> bool" where
  "same_back_end S pttl entries undelivered pending w w' \<longleftrightarrow>
     w_db w' = w_db w \<and> w_clock w' = w_clock w \<and> w_digests w' = w_digests w \<and>
     w_adapter_connected w' = w_adapter_connected w \<and> w_consumer_running w' = w_consumer_running w \<and>
     (\<forall>k. GET S k (w_redis w') = GET S k (w_redis w)) \<and> (\<forall>k. pttl k (w_redis w') = pttl k (w_redis w)) \<and>
     entries (w_redis w') = entries (w_redis w) \<and> undelivered (w_redis w') = undelivered (w_redis w) \<and>
     pending (w_redis w') = pending (w_redis w)"

lemma same_back_end_refl [simp]: "same_back_end S pttl entries undelivered pending w w"
  by (simp add: same_back_end_def)

lemma same_back_end_held_by:
  "same_back_end S pttl entries undelivered pending w w' \<Longrightarrow>
    held_by S k u h (w_redis w') = held_by S k u h (w_redis w)"
  by (simp add: same_back_end_def held_by_def)

text \<open>What was sent: nothing new, or exactly this event.\<close>

definition sent_at_most :: "WebSocketSeatEvent \<Rightarrow> ('r, 'd) world \<Rightarrow> ('r, 'd) world \<Rightarrow> bool" where
  "sent_at_most event w w' \<longleftrightarrow>
     w_sent w' = w_sent w \<or>
     w_sent w' = w_sent w @ [(WS_SEAT_EVENTS_CHANNEL, stringify (seat_event_json event))]"

context redis_streams begin

lemma adapter_publish_run:
  assumes "run (adapter_publishSeatEvent svc event) w = (w', x)"
  shows "same_back_end S pttl entries undelivered pending w w' \<and> sent_at_most event w w' \<and>
    (x = Inr () \<longrightarrow> w_sent w' = w_sent w @ [(WS_SEAT_EVENTS_CHANNEL, stringify (seat_event_json event))]) \<and>
    (\<not> w_adapter_connected w \<longrightarrow> w' = w \<and> x = Inl not_connected)"
proof (cases "w_adapter_connected w")
  case True
  obtain r p where p: "c_publish (redis svc) WS_SEAT_EVENTS_CHANNEL (stringify (seat_event_json event)) (w_redis w) = (r, p)"
    by force
  from publish_remote [OF this] assms True p show ?thesis
    by (auto simp: adapter_publishSeatEvent_def run_simps same_back_end_def sent_at_most_def Let_def
        split: sum.splits simp del: stringify.simps)
next
  case False
  with assms show ?thesis
    by (auto simp: adapter_publishSeatEvent_def run_simps sent_at_most_def)
qed

end

end
