(* ===== verification/Seat_Events.thy ===== *)
theory Seat_Events imports Pubsub "HOL-Library.Monad_Syntax" begin

text \<open>
  The receiving side of the seat events: the schemas of \<open>src/src/types/events.types.ts\<close>
  and the adapter of \<open>src/src/websocket/pubsub.adapter.ts\<close> with its connection, its
  subscription and the dispatch of messages.  The format checks of zod (\<open>uuid\<close>, \<open>datetime\<close>)
  and the network side of the two Redis clients are parameters; the rest of a schema is its
  documented meaning: the members it names, in a copy without any other member.
\<close>

section \<open>Schemas\<close>

record zod_formats =
  is_uuid :: "string \<Rightarrow> bool"
  is_datetime :: "string \<Rightarrow> bool"

definition member :: "(string \<times> json) list \<Rightarrow> string \<Rightarrow> json option" where
  "member kvs k = map_of (rev kvs) k"

text \<open>\<open>z.string()\<close> with a check, \<open>z.string().min(1)\<close>, \<open>z.literal(s)\<close>.\<close>

definition z_string :: "(string \<Rightarrow> bool) \<Rightarrow> json option \<Rightarrow> string option" where
  "z_string ok v = (case v of Some (JStr s) \<Rightarrow> if ok s then Some s else None | _ \<Rightarrow> None)"

definition z_min1 :: "json option \<Rightarrow> string option" where
  "z_min1 = z_string (\<lambda>s. s \<noteq> [])"

definition z_literal :: "string \<Rightarrow> json option \<Rightarrow> string option" where
  "z_literal l = z_string (\<lambda>s. s = l)"

definition z_object :: "((string \<times> json) list \<Rightarrow> 'a option) \<Rightarrow> json option \<Rightarrow> 'a option" where
  "z_object shape v = (case v of Some (JObj kvs) \<Rightarrow> shape kvs | _ \<Rightarrow> None)"

definition seatHeldEventSchema :: "zod_formats \<Rightarrow> json option \<Rightarrow> SeatEventPayload option" where
  "seatHeldEventSchema Z = z_object (\<lambda>kvs. do {
     eventId \<leftarrow> z_min1 (member kvs ''eventId'');
     seatId \<leftarrow> z_min1 (member kvs ''seatId'');
     holdId \<leftarrow> z_min1 (member kvs ''holdId'');
     status \<leftarrow> z_literal ''HELD'' (member kvs ''status'');
     expiresAt \<leftarrow> z_string (is_datetime Z) (member kvs ''expiresAt'');
     Some (Held eventId seatId holdId expiresAt)})"

definition seatBookedEventSchema :: "zod_formats \<Rightarrow> json option \<Rightarrow> SeatEventPayload option" where
  "seatBookedEventSchema Z = z_object (\<lambda>kvs. do {
     eventId \<leftarrow> z_min1 (member kvs ''eventId'');
     seatId \<leftarrow> z_min1 (member kvs ''seatId'');
     orderId \<leftarrow> z_min1 (member kvs ''orderId'');
     status \<leftarrow> z_literal ''SOLD'' (member kvs ''status'');
     Some (Booked eventId seatId orderId)})"

definition seatReleasedEventSchema :: "zod_formats \<Rightarrow> json option \<Rightarrow> SeatEventPayload option" where
  "seatReleasedEventSchema Z = z_object (\<lambda>kvs. do {
     eventId \<leftarrow> z_min1 (member kvs ''eventId'');
     seatId \<leftarrow> z_min1 (member kvs ''seatId'');
     holdId \<leftarrow> z_min1 (member kvs ''holdId'');
     status \<leftarrow> z_literal ''AVAILABLE'' (member kvs ''status'');
     reason \<leftarrow> z_string (\<lambda>s. s = ''cancelled'' \<or> s = ''expired'' \<or> s = ''released'') (member kvs ''reason'');
     Some (Released eventId seatId holdId reason)})"

text \<open>The union is decided by \<open>eventType\<close>.\<close>

definition webSocketSeatEventSchema :: "zod_formats \<Rightarrow> json \<Rightarrow> WebSocketSeatEvent option" where
  "webSocketSeatEventSchema Z v = z_object (\<lambda>kvs. do {
     eventId \<leftarrow> z_string (is_uuid Z) (member kvs ''eventId'');
     occurredAt \<leftarrow> z_string (is_datetime Z) (member kvs ''occurredAt'');
     correlationId \<leftarrow> z_min1 (member kvs ''correlationId'');
     payload \<leftarrow> (if member kvs ''eventType'' = Some (JStr ''seat.held'') then seatHeldEventSchema Z (member kvs ''payload'')
       else if member kvs ''eventType'' = Some (JStr ''seat.booked'') then seatBookedEventSchema Z (member kvs ''payload'')
       else if member kvs ''eventType'' = Some (JStr ''seat.released'') then seatReleasedEventSchema Z (member kvs ''payload'')
       else None);
     (if member kvs ''schemaVersion'' = Some (JNum WEBSOCKET_SEAT_EVENT_SCHEMA_VERSION)
      then Some \<lparr>we_eventId = eventId, we_schemaVersion = WEBSOCKET_SEAT_EVENT_SCHEMA_VERSION,
        we_occurredAt = occurredAt, we_correlationId = correlationId, we_payload = payload\<rparr>
      else None)}) (Some v)"

datatype WebSocketClientFrame = Subscribe string | Unsubscribe string

definition webSocketClientFrameSchema :: "json \<Rightarrow> WebSocketClientFrame option" where
  "webSocketClientFrameSchema v = z_object (\<lambda>kvs. do {
     eventId \<leftarrow> z_min1 (member kvs ''eventId'');
     (if member kvs ''type'' = Some (JStr ''subscribe'') then Some (Subscribe eventId)
      else if member kvs ''type'' = Some (JStr ''unsubscribe'') then Some (Unsubscribe eventId)
      else None)}) (Some v)"

lemma z_string_simps [simp]:
  "z_string ok (Some (JStr s)) = (if ok s then Some s else None)" "z_string ok None = None"
  by (simp_all add: z_string_def)

lemma z_object_simps [simp]: "z_object f (Some (JObj kvs)) = f kvs" "z_object f None = None"
  by (simp_all add: z_object_def)

section \<open>What is left of an event on the other side\<close>

text \<open>\<open>holdSeat\<close> publishes the whole hold record; the schema drops the buyer's id.\<close>

fun public_payload :: "SeatEventPayload \<Rightarrow> SeatEventPayload" where
  "public_payload (HeldRecord r) = Held (hr_eventId r) (hr_seatId r) (hr_holdId r) (hr_expiresAt r)"
| "public_payload p = p"

definition public_event :: "WebSocketSeatEvent \<Rightarrow> WebSocketSeatEvent" where
  "public_event e = e\<lparr>we_payload := public_payload (we_payload e)\<rparr>"

fun valid_payload :: "zod_formats \<Rightarrow> SeatEventPayload \<Rightarrow> bool" where
  "valid_payload Z (HeldRecord r) \<longleftrightarrow>
     hr_eventId r \<noteq> [] \<and> hr_seatId r \<noteq> [] \<and> hr_holdId r \<noteq> [] \<and> is_datetime Z (hr_expiresAt r)"
| "valid_payload Z (Held e s h x) \<longleftrightarrow> e \<noteq> [] \<and> s \<noteq> [] \<and> h \<noteq> [] \<and> is_datetime Z x"
| "valid_payload Z (Booked e s i) \<longleftrightarrow> e \<noteq> [] \<and> s \<noteq> [] \<and> i \<noteq> []"
| "valid_payload Z (Released e s h rs) \<longleftrightarrow>
     e \<noteq> [] \<and> s \<noteq> [] \<and> h \<noteq> [] \<and> (rs = ''cancelled'' \<or> rs = ''expired'' \<or> rs = ''released'')"

definition valid_event :: "zod_formats \<Rightarrow> WebSocketSeatEvent \<Rightarrow> bool" where
  "valid_event Z e \<longleftrightarrow>
     is_uuid Z (we_eventId e) \<and> is_datetime Z (we_occurredAt e) \<and> we_correlationId e \<noteq> [] \<and>
     we_schemaVersion e = WEBSOCKET_SEAT_EVENT_SCHEMA_VERSION \<and> valid_payload Z (we_payload e)"

lemma schema_of_event:
  "webSocketSeatEventSchema Z (seat_event_json e) = (if valid_event Z e then Some (public_event e) else None)"
  by (cases "we_payload e")
     (auto simp: webSocketSeatEventSchema_def seat_event_json_def seatHeldEventSchema_def seatBookedEventSchema_def
        seatReleasedEventSchema_def member_def z_min1_def z_literal_def valid_event_def public_event_def
        split: if_splits)

section \<open>The adapter\<close>

text \<open>
  \<open>ad_handlers\<close> is the number of \<open>message\<close> handlers that \<open>connect\<close> has put on the subscriber;
  every one of them dispatches every message.  The network operations work on \<open>'s\<close>.
\<close>

record 's pubsub_clients =
  publisher_status :: "'s \<Rightarrow> string"
  subscriber_status :: "'s \<Rightarrow> string"
  publisher_connect :: "'s \<Rightarrow> 's \<times> (exn + unit)"
  subscriber_connect :: "'s \<Rightarrow> 's \<times> (exn + unit)"
  subscriber_subscribe :: "string \<Rightarrow> 's \<Rightarrow> 's \<times> (exn + unit)"
  publisher_quit :: "'s \<Rightarrow> 's \<times> (exn + unit)"
  subscriber_quit :: "'s \<Rightarrow> 's \<times> (exn + unit)"

record ('s, 'l) adapter =
  ad_clients :: 's
  ad_listener :: "'l option"
  ad_connected :: bool
  ad_handlers :: nat

definition client_do :: "('s \<Rightarrow> 's \<times> (exn + 'a)) \<Rightarrow> (('s, 'l) adapter, 'a) proc" where
  "client_do c = atomic (\<lambda>a. case c (ad_clients a) of (s, x) \<Rightarrow> (a\<lparr>ad_clients := s\<rparr>, x))"

definition subscribeToChannel :: "'s pubsub_clients \<Rightarrow> (('s, 'l) adapter, unit) proc" where
  "subscribeToChannel C = client_do (subscriber_subscribe C WS_SEAT_EVENTS_CHANNEL)"

definition adapter_connect :: "'s pubsub_clients \<Rightarrow> 'l \<Rightarrow> (('s, 'l) adapter, unit) proc" where
  "adapter_connect C listener =
     await (atomic (\<lambda>a. (a\<lparr>ad_listener := Some listener\<rparr>, Inr (ad_connected a)))) (\<lambda>connected.
     if connected then Ret ()
     else
       await (client_do (\<lambda>s. if publisher_status C s = ''wait'' then publisher_connect C s else (s, Inr ()))) (\<lambda>_.
       await (client_do (\<lambda>s. if subscriber_status C s = ''wait'' then subscriber_connect C s else (s, Inr ()))) (\<lambda>_.
       await (modifies (\<lambda>a. a\<lparr>ad_handlers := Suc (ad_handlers a)\<rparr>)) (\<lambda>_.
       await (subscribeToChannel C) (\<lambda>_.
       modifies (\<lambda>a. a\<lparr>ad_connected := True\<rparr>))))))"

definition adapter_disconnect :: "'s pubsub_clients \<Rightarrow> (('s, 'l) adapter, unit) proc" where
  "adapter_disconnect C =
     await (modifies (\<lambda>a. a\<lparr>ad_listener := None, ad_connected := False\<rparr>)) (\<lambda>_.
     await (client_do (\<lambda>s. if subscriber_status C s \<noteq> ''end'' then subscriber_quit C s else (s, Inr ()))) (\<lambda>_.
     client_do (\<lambda>s. if publisher_status C s \<noteq> ''end'' then publisher_quit C s else (s, Inr ()))))"

text \<open>One \<open>message\<close> handler: the event it passes to the listener, if any.\<close>

definition handle_message ::
  "zod_formats \<Rightarrow> 'l option \<Rightarrow> string \<Rightarrow> string \<Rightarrow> ('l \<times> WebSocketSeatEvent) option" where
  "handle_message Z listener channel rawMessage =
     (case listener of
        None \<Rightarrow> None
      | Some l \<Rightarrow>
          (if channel \<noteq> WS_SEAT_EVENTS_CHANNEL then None
           else
             (case JSON_parse rawMessage of
                Inl error \<Rightarrow> None
              | Inr rawEvent \<Rightarrow>
                  (case webSocketSeatEventSchema Z rawEvent of
                     None \<Rightarrow> None
                   | Some parsed \<Rightarrow> Some (l, parsed)))))"

text \<open>All the calls of listeners that one message on the subscriber causes.\<close>

definition dispatched ::
  "zod_formats \<Rightarrow> ('s, 'l) adapter \<Rightarrow> string \<Rightarrow> string \<Rightarrow> ('l \<times> WebSocketSeatEvent) list" where
  "dispatched Z a channel rawMessage =
     (case handle_message Z (ad_listener a) channel rawMessage of
        None \<Rightarrow> [] | Some call \<Rightarrow> replicate (ad_handlers a) call)"

lemma handle_published:
  "handle_message Z (Some l) WS_SEAT_EVENTS_CHANNEL (stringify (seat_event_json e)) =
    (if valid_event Z e then Some (l, public_event e) else None)"
  by (simp add: handle_message_def schema_of_event)

lemma run_client_do [run_simps]:
  "run (client_do c) a = (case c (ad_clients a) of (s, x) \<Rightarrow> (a\<lparr>ad_clients := s\<rparr>, x))"
  by (simp add: client_do_def run_atomic)

lemma adapter_connect_run:
  assumes "run (adapter_connect C l) a = (a', x)"
  shows "ad_listener a' = Some l \<and>
    (if ad_connected a then x = Inr () \<and> a' = a\<lparr>ad_listener := Some l\<rparr>
     else (ad_connected a' \<longleftrightarrow> x = Inr ()) \<and>
       ad_handlers a' \<in> {ad_handlers a, Suc (ad_handlers a)} \<and> (x = Inr () \<longrightarrow> ad_handlers a' = Suc (ad_handlers a)))"
  using assms
  by (auto simp: adapter_connect_def subscribeToChannel_def run_simps split: prod.splits sum.splits if_splits)

end
