(* ===== verification/Websocket.thy ===== *)
theory Websocket imports Seat_Events begin

text \<open>
  \<open>src/src/websocket/socket.server.ts\<close>: rooms of sockets per event, fed by the Redis
  backplane.  Sockets are values of \<open>'k\<close>; a \<open>Set\<close> is the list of its elements in insertion
  order, \<open>rooms\<close> and \<open>states\<close> are maps.  The \<open>ws\<close> library owns \<open>ws_clients\<close> (its set of
  connections) and \<open>ws_open\<close> (\<open>readyState === OPEN\<close>); \<open>ws_outbox\<close> is the trace of \<open>send\<close>.
  Every handler runs to its end without interruption, so each is a function of the state,
  and the server is the sequence of events the library reports.
\<close>

section \<open>The state\<close>

record SocketState =
  isAlive :: bool
  eventIds :: "string list"

record 'k ws_server =
  ws_rooms :: "string \<Rightarrow> 'k list option"
  ws_states :: "'k \<Rightarrow> SocketState option"
  ws_clients :: "'k list"
  ws_open :: "'k \<Rightarrow> bool"
  ws_outbox :: "('k \<times> string) list"

definition set_add :: "'a \<Rightarrow> 'a list \<Rightarrow> 'a list" where
  "set_add x xs = (if x \<in> set xs then xs else xs @ [x])"

definition ws_send :: "'k \<Rightarrow> string \<Rightarrow> 'k ws_server \<Rightarrow> 'k ws_server" where
  "ws_send socket message srv = srv\<lparr>ws_outbox := ws_outbox srv @ [(socket, message)]\<rparr>"

section \<open>Rooms\<close>

text \<open>\<open>room?.delete(socket); if (room?.size === 0) rooms.delete(eventId)\<close>.\<close>

definition leave_room :: "'k \<Rightarrow> string \<Rightarrow> 'k ws_server \<Rightarrow> 'k ws_server" where
  "leave_room socket eventId srv =
     (case ws_rooms srv eventId of
        None \<Rightarrow> srv
      | Some room \<Rightarrow>
          srv\<lparr>ws_rooms := (ws_rooms srv)(eventId :=
            (if removeAll socket room = [] then None else Some (removeAll socket room)))\<rparr>)"

definition removeFromRooms :: "'k \<Rightarrow> 'k ws_server \<Rightarrow> 'k ws_server" where
  "removeFromRooms socket srv =
     (case ws_states srv socket of
        None \<Rightarrow> srv
      | Some state \<Rightarrow>
          (let srv1 = fold (leave_room socket) (eventIds state) srv
           in srv1\<lparr>ws_states := (ws_states srv1)(socket \<mapsto> state\<lparr>eventIds := []\<rparr>)\<rparr>))"

definition parseFrame :: "string \<Rightarrow> WebSocketClientFrame option" where
  "parseFrame data =
     (case JSON_parse data of Inl _ \<Rightarrow> None | Inr parsed \<Rightarrow> webSocketClientFrameSchema parsed)"

section \<open>Handlers\<close>

fun payload_eventId :: "SeatEventPayload \<Rightarrow> string" where
  "payload_eventId (HeldRecord r) = hr_eventId r"
| "payload_eventId (Held e _ _ _) = e"
| "payload_eventId (Booked e _ _) = e"
| "payload_eventId (Released e _ _ _) = e"

definition onSeatEvent :: "WebSocketSeatEvent \<Rightarrow> 'k ws_server \<Rightarrow> 'k ws_server" where
  "onSeatEvent event srv =
     (case ws_rooms srv (payload_eventId (we_payload event)) of
        None \<Rightarrow> srv
      | Some room \<Rightarrow>
          (let message = stringify (seat_event_json event)
           in fold (\<lambda>socket s. if ws_open s socket then ws_send socket message s else removeFromRooms socket s) room srv))"

text \<open>The upgrade is accepted for the path \<open>/ws\<close> only; \<open>pathname\<close> is the URL parser.\<close>

definition WEBSOCKET_PATH :: string where
  "WEBSOCKET_PATH = ''/ws''"

definition upgrade_accepted :: "(string \<Rightarrow> string) \<Rightarrow> string option \<Rightarrow> bool" where
  "upgrade_accepted pathname url = (pathname (case url of Some u \<Rightarrow> u | None \<Rightarrow> ''/'') = WEBSOCKET_PATH)"

definition on_connection :: "'k \<Rightarrow> 'k ws_server \<Rightarrow> 'k ws_server" where
  "on_connection socket srv =
     srv\<lparr>ws_states := (ws_states srv)(socket \<mapsto> \<lparr>isAlive = True, eventIds = []\<rparr>)\<rparr>"

definition on_pong :: "'k \<Rightarrow> 'k ws_server \<Rightarrow> 'k ws_server" where
  "on_pong socket srv =
     (case ws_states srv socket of
        None \<Rightarrow> srv
      | Some state \<Rightarrow> srv\<lparr>ws_states := (ws_states srv)(socket \<mapsto> state\<lparr>isAlive := True\<rparr>)\<rparr>)"

definition on_message :: "'k \<Rightarrow> string \<Rightarrow> 'k ws_server \<Rightarrow> 'k ws_server" where
  "on_message socket data srv =
     (case parseFrame data of
        None \<Rightarrow>
          ws_send socket (stringify (JObj [(''type'', JStr ''error''), (''message'', JStr ''Invalid WebSocket command'')])) srv
      | Some frame \<Rightarrow>
          (case ws_states srv socket of
             None \<Rightarrow> srv
           | Some state \<Rightarrow>
               (case frame of
                  Subscribe eventId \<Rightarrow>
                    (let room = set_add socket (case ws_rooms srv eventId of Some r \<Rightarrow> r | None \<Rightarrow> [])
                     in ws_send socket
                          (stringify (JObj [(''type'', JStr ''subscription.confirmed''), (''eventId'', JStr eventId)]))
                          (srv\<lparr>ws_rooms := (ws_rooms srv)(eventId \<mapsto> room),
                               ws_states := (ws_states srv)(socket \<mapsto> state\<lparr>eventIds := set_add eventId (eventIds state)\<rparr>)\<rparr>))
                | Unsubscribe eventId \<Rightarrow>
                    (let srv1 = leave_room socket eventId srv
                     in ws_send socket
                          (stringify (JObj [(''type'', JStr ''unsubscription.confirmed''), (''eventId'', JStr eventId)]))
                          (srv1\<lparr>ws_states := (ws_states srv1)(socket \<mapsto> state\<lparr>eventIds := removeAll eventId (eventIds state)\<rparr>)\<rparr>)))))"

text \<open>One round of the heartbeat; \<open>terminate\<close> closes the connection at once.\<close>

definition beat :: "'k \<Rightarrow> 'k ws_server \<Rightarrow> 'k ws_server" where
  "beat socket srv =
     (case ws_states srv socket of
        Some state \<Rightarrow>
          (if isAlive state then srv\<lparr>ws_states := (ws_states srv)(socket \<mapsto> state\<lparr>isAlive := False\<rparr>)\<rparr>
           else (let srv1 = removeFromRooms socket srv in srv1\<lparr>ws_open := (ws_open srv1)(socket := False)\<rparr>))
      | None \<Rightarrow> (let srv1 = removeFromRooms socket srv in srv1\<lparr>ws_open := (ws_open srv1)(socket := False)\<rparr>))"

definition heartbeat :: "'k ws_server \<Rightarrow> 'k ws_server" where
  "heartbeat srv = fold beat (ws_clients srv) srv"

text \<open>The part of \<open>close\<close> that concerns the sockets.\<close>

definition close_sockets :: "'k ws_server \<Rightarrow> 'k ws_server" where
  "close_sockets srv =
     fold (\<lambda>socket s. (removeFromRooms socket s)\<lparr>ws_open := (ws_open s)(socket := False)\<rparr>) (ws_clients srv) srv"

section \<open>The server as a state machine\<close>

text \<open>
  What the library and the backplane report.  \<open>Closing\<close> is a socket that stops being open
  before its \<open>close\<close> event.
\<close>

datatype 'k ws_event =
    Connected 'k
  | Pong 'k
  | Data 'k string
  | Closing 'k
  | Closed 'k
  | Heartbeat
  | SeatEvent WebSocketSeatEvent
  | Shutdown

fun ws_handle :: "'k ws_event \<Rightarrow> 'k ws_server \<Rightarrow> 'k ws_server" where
  "ws_handle (Connected s) srv =
     on_connection s (srv\<lparr>ws_clients := set_add s (ws_clients srv), ws_open := (ws_open srv)(s := True)\<rparr>)"
| "ws_handle (Pong s) srv = on_pong s srv"
| "ws_handle (Data s data) srv = on_message s data srv"
| "ws_handle (Closing s) srv = srv\<lparr>ws_open := (ws_open srv)(s := False)\<rparr>"
| "ws_handle (Closed s) srv =
     removeFromRooms s (srv\<lparr>ws_clients := removeAll s (ws_clients srv), ws_open := (ws_open srv)(s := False)\<rparr>)"
| "ws_handle Heartbeat srv = heartbeat srv"
| "ws_handle (SeatEvent event) srv = onSeatEvent event srv"
| "ws_handle Shutdown srv = close_sockets srv"

definition ws_init :: "'k ws_server" where
  "ws_init = \<lparr>ws_rooms = Map.empty, ws_states = Map.empty, ws_clients = [], ws_open = (\<lambda>_. False), ws_outbox = []\<rparr>"

text \<open>A connection is a new socket.\<close>

inductive ws_reachable :: "'k ws_server \<Rightarrow> bool" where
  ws_start: "ws_reachable ws_init"
| ws_step: "ws_reachable srv \<Longrightarrow> (\<And>s. e = Connected s \<Longrightarrow> ws_states srv s = None) \<Longrightarrow> ws_reachable (ws_handle e srv)"

section \<open>Rooms and states agree\<close>

definition in_room :: "'k ws_server \<Rightarrow> string \<Rightarrow> 'k \<Rightarrow> bool" where
  "in_room srv ev s \<longleftrightarrow> (\<exists>room. ws_rooms srv ev = Some room \<and> s \<in> set room)"

definition subscribed :: "'k ws_server \<Rightarrow> string \<Rightarrow> 'k \<Rightarrow> bool" where
  "subscribed srv ev s \<longleftrightarrow> (\<exists>st. ws_states srv s = Some st \<and> ev \<in> set (eventIds st))"

definition rooms_ok :: "'k ws_server \<Rightarrow> bool" where
  "rooms_ok srv \<longleftrightarrow>
     (\<forall>ev s. in_room srv ev s = subscribed srv ev s) \<and>
     (\<forall>ev room. ws_rooms srv ev = Some room \<longrightarrow> room \<noteq> [] \<and> distinct room)"

lemma set_set_add [simp]: "set (set_add x xs) = insert x (set xs)" "distinct xs \<Longrightarrow> distinct (set_add x xs)"
  by (auto simp: set_add_def)

lemma set_add_nonempty [simp]: "set_add x xs \<noteq> []"
  by (auto simp: set_add_def)

lemma leave_room_views [simp]:
  "ws_states (leave_room s ev srv) = ws_states srv" "ws_clients (leave_room s ev srv) = ws_clients srv"
  "ws_open (leave_room s ev srv) = ws_open srv" "ws_outbox (leave_room s ev srv) = ws_outbox srv"
  by (simp_all add: leave_room_def split: option.split)

lemma in_room_leave: "in_room (leave_room s ev srv) ev' s' \<longleftrightarrow> in_room srv ev' s' \<and> (ev' = ev \<longrightarrow> s' \<noteq> s)"
proof -
  have "removeAll s room = [] \<longleftrightarrow> set room \<subseteq> {s}" for room by (induction room) auto
  then show ?thesis by (auto simp: leave_room_def in_room_def split: option.split if_splits)
qed

definition tidy :: "'k ws_server \<Rightarrow> bool" where
  "tidy srv \<longleftrightarrow> (\<forall>ev room. ws_rooms srv ev = Some room \<longrightarrow> room \<noteq> [] \<and> distinct room)"

lemma tidy_leave: "tidy srv \<Longrightarrow> tidy (leave_room s ev srv)"
  by (auto simp: tidy_def leave_room_def distinct_removeAll split: option.split if_splits)

lemma fold_leave:
  "ws_states (fold (leave_room s) evs srv) = ws_states srv" "ws_clients (fold (leave_room s) evs srv) = ws_clients srv"
  "ws_open (fold (leave_room s) evs srv) = ws_open srv" "ws_outbox (fold (leave_room s) evs srv) = ws_outbox srv"
  "in_room (fold (leave_room s) evs srv) ev' s' \<longleftrightarrow> in_room srv ev' s' \<and> (ev' \<in> set evs \<longrightarrow> s' \<noteq> s)"
  "tidy srv \<Longrightarrow> tidy (fold (leave_room s) evs srv)"
  by (induction evs arbitrary: srv) (auto simp: in_room_leave tidy_leave)

lemma rooms_ok_alt: "rooms_ok srv \<longleftrightarrow> (\<forall>ev s. in_room srv ev s = subscribed srv ev s) \<and> tidy srv"
  by (simp add: rooms_ok_def tidy_def)

lemma in_room_more [simp]:
  "in_room (srv\<lparr>ws_states := a\<rparr>) = in_room srv" "in_room (srv\<lparr>ws_open := b\<rparr>) = in_room srv"
  "in_room (srv\<lparr>ws_clients := c\<rparr>) = in_room srv" "in_room (srv\<lparr>ws_outbox := d\<rparr>) = in_room srv"
  "tidy (srv\<lparr>ws_states := a\<rparr>) = tidy srv" "tidy (srv\<lparr>ws_open := b\<rparr>) = tidy srv"
  "tidy (srv\<lparr>ws_clients := c\<rparr>) = tidy srv" "tidy (srv\<lparr>ws_outbox := d\<rparr>) = tidy srv"
  "subscribed (srv\<lparr>ws_open := b\<rparr>) = subscribed srv" "subscribed (srv\<lparr>ws_clients := c\<rparr>) = subscribed srv"
  "subscribed (srv\<lparr>ws_outbox := d\<rparr>) = subscribed srv" "subscribed (srv\<lparr>ws_rooms := e\<rparr>) = subscribed srv"
  by (simp_all add: in_room_def tidy_def subscribed_def fun_eq_iff)

lemma removeFromRooms_views [simp]:
  "ws_clients (removeFromRooms s srv) = ws_clients srv" "ws_open (removeFromRooms s srv) = ws_open srv"
  "ws_outbox (removeFromRooms s srv) = ws_outbox srv"
  by (simp_all add: removeFromRooms_def Let_def fold_leave split: option.split)

lemma removeFromRooms_states:
  "ws_states (removeFromRooms s srv) = (case ws_states srv s of
     None \<Rightarrow> ws_states srv | Some st \<Rightarrow> (ws_states srv)(s \<mapsto> st\<lparr>eventIds := []\<rparr>))"
  by (simp add: removeFromRooms_def Let_def fold_leave split: option.split)

lemma removeFromRooms_subscribed:
  "subscribed (removeFromRooms s srv) ev s' \<longleftrightarrow> subscribed srv ev s' \<and> s' \<noteq> s"
  by (auto simp: subscribed_def removeFromRooms_states split: option.split)

lemma removeFromRooms_ok: "rooms_ok srv \<Longrightarrow> rooms_ok (removeFromRooms s srv)"
proof -
  assume ok: "rooms_ok srv"
  have "in_room (removeFromRooms s srv) ev s' \<longleftrightarrow> in_room srv ev s' \<and> s' \<noteq> s" for ev s'
  proof (cases "ws_states srv s")
    case None
    then have "\<not> subscribed srv ev s" by (simp add: subscribed_def)
    with ok None show ?thesis by (auto simp: removeFromRooms_def rooms_ok_alt)
  next
    case (Some st)
    have "in_room srv ev s \<Longrightarrow> ev \<in> set (eventIds st)" using ok Some by (auto simp: rooms_ok_alt subscribed_def)
    with Some show ?thesis by (auto simp: removeFromRooms_def Let_def fold_leave)
  qed
  moreover have "tidy (removeFromRooms s srv)"
    using ok by (auto simp: removeFromRooms_def Let_def fold_leave rooms_ok_alt split: option.split)
  ultimately show ?thesis using ok removeFromRooms_subscribed [of s srv] by (simp add: rooms_ok_alt)
qed

lemma rooms_ok_more [simp]:
  "rooms_ok (srv\<lparr>ws_open := b\<rparr>) = rooms_ok srv" "rooms_ok (srv\<lparr>ws_clients := c\<rparr>) = rooms_ok srv"
  "rooms_ok (srv\<lparr>ws_outbox := d\<rparr>) = rooms_ok srv"
  by (simp_all add: rooms_ok_alt)

lemma ws_send_ok [simp]: "rooms_ok (ws_send s m srv) = rooms_ok srv"
  by (simp add: ws_send_def)

text \<open>Changing the \<open>isAlive\<close> of a socket leaves the subscriptions alone.\<close>

lemma alive_ok:
  assumes "rooms_ok srv" and "ws_states srv s = Some st" and "eventIds st' = eventIds st"
  shows "rooms_ok (srv\<lparr>ws_states := (ws_states srv)(s \<mapsto> st')\<rparr>)"
proof -
  have "subscribed (srv\<lparr>ws_states := (ws_states srv)(s \<mapsto> st')\<rparr>) = subscribed srv"
    using assms(2,3) by (auto simp: subscribed_def fun_eq_iff)
  with assms(1) show ?thesis by (simp add: rooms_ok_alt)
qed

lemma on_message_ok:
  assumes "rooms_ok srv"
  shows "rooms_ok (on_message s data srv)"
proof (cases "parseFrame data")
  case None
  with assms show ?thesis by (simp add: on_message_def)
next
  case (Some frame)
  show ?thesis
  proof (cases "ws_states srv s")
    case None
    with assms Some show ?thesis by (simp add: on_message_def)
  next
    case st: (Some st)
    show ?thesis
    proof (cases frame)
      case (Subscribe ev)
      let ?room = "set_add s (case ws_rooms srv ev of Some r \<Rightarrow> r | None \<Rightarrow> [])"
      let ?srv = "srv\<lparr>ws_rooms := (ws_rooms srv)(ev \<mapsto> ?room), ws_states := (ws_states srv)(s \<mapsto> st\<lparr>eventIds := set_add ev (eventIds st)\<rparr>)\<rparr>"
      have "in_room ?srv ev' s' \<longleftrightarrow> in_room srv ev' s' \<or> ev' = ev \<and> s' = s" for ev' s'
        by (cases "ws_rooms srv ev") (auto simp: in_room_def)
      moreover have "subscribed ?srv ev' s' \<longleftrightarrow> subscribed srv ev' s' \<or> ev' = ev \<and> s' = s" for ev' s'
        using st by (auto simp: subscribed_def)
      moreover have "tidy ?srv" using assms by (auto simp: rooms_ok_alt tidy_def split: option.splits)
      ultimately have "rooms_ok ?srv" using assms by (simp add: rooms_ok_alt)
      then show ?thesis using Some st Subscribe by (simp add: on_message_def Let_def del: stringify.simps)
    next
      case (Unsubscribe ev)
      let ?srv = "(leave_room s ev srv)\<lparr>ws_states := (ws_states srv)(s \<mapsto> st\<lparr>eventIds := removeAll ev (eventIds st)\<rparr>)\<rparr>"
      have "subscribed ?srv ev' s' \<longleftrightarrow> subscribed srv ev' s' \<and> (ev' = ev \<longrightarrow> s' \<noteq> s)" for ev' s'
        using st by (auto simp: subscribed_def)
      then have "rooms_ok ?srv" using assms by (auto simp: rooms_ok_alt in_room_leave tidy_leave)
      then show ?thesis using Some st Unsubscribe by (simp add: on_message_def Let_def del: stringify.simps)
    qed
  qed
qed

lemma fold_ok: "(\<And>x srv. rooms_ok srv \<Longrightarrow> rooms_ok (f x srv)) \<Longrightarrow> rooms_ok srv \<Longrightarrow> rooms_ok (fold f xs srv)"
  by (induction xs arbitrary: srv) auto

lemma beat_ok: "rooms_ok srv \<Longrightarrow> rooms_ok (beat s srv)"
  by (auto simp: beat_def Let_def removeFromRooms_ok split: option.split intro: alive_ok)

lemma onSeatEvent_ok: "rooms_ok srv \<Longrightarrow> rooms_ok (onSeatEvent e srv)"
  by (auto simp: onSeatEvent_def Let_def split: option.split intro!: fold_ok removeFromRooms_ok)

lemma ws_handle_ok:
  assumes "rooms_ok srv" and "\<And>s. e = Connected s \<Longrightarrow> ws_states srv s = None"
  shows "rooms_ok (ws_handle e srv)"
proof (cases e)
  case (Connected s)
  let ?srv = "srv\<lparr>ws_clients := set_add s (ws_clients srv), ws_open := (ws_open srv)(s := True)\<rparr>"
  have "subscribed (on_connection s ?srv) = subscribed srv"
    using assms(2) [OF Connected] by (auto simp: subscribed_def on_connection_def fun_eq_iff)
  moreover have "in_room (on_connection s ?srv) = in_room srv" "tidy (on_connection s ?srv) = tidy srv"
    by (simp_all add: on_connection_def)
  ultimately show ?thesis using assms(1) Connected by (simp add: rooms_ok_alt)
next
  case (Pong s)
  with assms(1) show ?thesis by (auto simp: on_pong_def split: option.split intro: alive_ok)
next
  case (Data s data)
  with assms(1) show ?thesis by (simp add: on_message_ok)
next
  case (Closed s)
  with assms(1) show ?thesis by (simp add: removeFromRooms_ok)
next
  case Heartbeat
  with assms(1) show ?thesis by (auto simp: heartbeat_def intro!: fold_ok beat_ok)
next
  case (SeatEvent event)
  with assms(1) show ?thesis by (simp add: onSeatEvent_ok)
next
  case Shutdown
  with assms(1) show ?thesis by (auto simp: close_sockets_def intro!: fold_ok removeFromRooms_ok)
qed (use assms(1) in simp)

section \<open>Delivery\<close>

text \<open>The sockets of a room that get an event, and those found closed.\<close>

lemma deliver_fold:
  "ws_outbox (fold (\<lambda>socket s. if ws_open s socket then ws_send socket message s else removeFromRooms socket s) room srv) =
     ws_outbox srv @ map (\<lambda>s. (s, message)) (filter (ws_open srv) room) \<and>
   ws_open (fold (\<lambda>socket s. if ws_open s socket then ws_send socket message s else removeFromRooms socket s) room srv) = ws_open srv \<and>
   (subscribed (fold (\<lambda>socket s. if ws_open s socket then ws_send socket message s else removeFromRooms socket s) room srv) ev s' \<longleftrightarrow>
     subscribed srv ev s' \<and> (s' \<in> set room \<longrightarrow> ws_open srv s'))"
proof (induction room arbitrary: srv)
  case (Cons x room)
  then show ?case
    by (auto simp: ws_send_def removeFromRooms_subscribed)
qed simp

lemma onSeatEvent_run:
  assumes "rooms_ok srv"
  shows "\<exists>receivers. distinct receivers \<and>
      set receivers = {s. in_room srv (payload_eventId (we_payload e)) s \<and> ws_open srv s} \<and>
      ws_outbox (onSeatEvent e srv) = ws_outbox srv @ map (\<lambda>s. (s, stringify (seat_event_json e))) receivers \<and>
      (\<forall>ev s. in_room (onSeatEvent e srv) ev s \<longleftrightarrow> in_room srv ev s \<and>
         (in_room srv (payload_eventId (we_payload e)) s \<longrightarrow> ws_open srv s))"
proof -
  let ?ev = "payload_eventId (we_payload e)" and ?m = "stringify (seat_event_json e)"
  have ok: "rooms_ok (onSeatEvent e srv)" by (rule onSeatEvent_ok) (rule assms)
  show ?thesis
  proof (cases "ws_rooms srv ?ev")
    case None
    then have "onSeatEvent e srv = srv" "\<And>s. \<not> in_room srv ?ev s" by (simp_all add: onSeatEvent_def in_room_def)
    then show ?thesis by (intro exI [of _ "[]"]) auto
  next
    case (Some room)
    have set_room: "s \<in> set room \<longleftrightarrow> in_room srv ?ev s" for s using Some by (simp add: in_room_def)
    have dist: "distinct room" using assms Some by (simp add: rooms_ok_def)
    have out: "ws_outbox (onSeatEvent e srv) = ws_outbox srv @ map (\<lambda>s. (s, ?m)) (filter (ws_open srv) room)"
      and sub: "subscribed (onSeatEvent e srv) ev s \<longleftrightarrow> subscribed srv ev s \<and> (s \<in> set room \<longrightarrow> ws_open srv s)" for ev s
      using deliver_fold [of ?m room srv ev s] Some by (simp_all add: onSeatEvent_def Let_def)
    have "in_room (onSeatEvent e srv) ev s \<longleftrightarrow> in_room srv ev s \<and> (in_room srv ?ev s \<longrightarrow> ws_open srv s)" for ev s
      using sub [of ev s] ok assms set_room by (simp add: rooms_ok_alt)
    with out dist set_room show ?thesis by (intro exI [of _ "filter (ws_open srv) room"]) auto
  qed
qed

section \<open>The heartbeat\<close>

lemma ws_states_send [simp]: "ws_states (ws_send s m srv) = ws_states srv"
  by (simp add: ws_send_def)

text \<open>A socket that is known and not alive.\<close>

definition silent_socket :: "'k ws_server \<Rightarrow> 'k \<Rightarrow> bool" where
  "silent_socket srv s \<longleftrightarrow> (\<exists>st. ws_states srv s = Some st \<and> \<not> isAlive st)"

lemma silent_removeFromRooms [simp]: "silent_socket (removeFromRooms s' srv) s = silent_socket srv s"
  by (auto simp: silent_socket_def removeFromRooms_states split: option.split)

lemma silent_more [simp]:
  "silent_socket (srv\<lparr>ws_open := b\<rparr>) = silent_socket srv" "silent_socket (srv\<lparr>ws_clients := c\<rparr>) = silent_socket srv"
  "silent_socket (srv\<lparr>ws_outbox := d\<rparr>) = silent_socket srv" "silent_socket (srv\<lparr>ws_rooms := e\<rparr>) = silent_socket srv"
  "silent_socket (ws_send s' m srv) = silent_socket srv"
  by (simp_all add: silent_socket_def fun_eq_iff)

lemma silent_beat: "silent_socket srv s \<Longrightarrow> silent_socket (beat s' srv) s"
  by (auto simp: beat_def Let_def split: option.split) (auto simp: silent_socket_def)

lemma fold_inv: "(\<And>x srv. P srv \<Longrightarrow> P (f x srv)) \<Longrightarrow> P srv \<Longrightarrow> P (fold f xs srv)"
  by (induction xs arbitrary: srv) auto

lemma silent_heartbeat: "silent_socket srv s \<Longrightarrow> silent_socket (heartbeat srv) s"
  unfolding heartbeat_def by (rule fold_inv) (rule silent_beat)

lemma beat_silences:
  assumes "ws_states srv s = Some st"
  shows "silent_socket (beat s srv) s"
  using assms by (auto simp: beat_def Let_def) (auto simp: silent_socket_def removeFromRooms_states)

lemma heartbeat_silences:
  assumes "s \<in> set (ws_clients srv)" and "ws_states srv s = Some st"
  shows "silent_socket (heartbeat srv) s"
proof -
  have "s \<in> set cs \<Longrightarrow> ws_states srv s \<noteq> None \<Longrightarrow> silent_socket (fold beat cs srv) s" for cs
  proof (induction cs arbitrary: srv)
    case (Cons c cs)
    show ?case
    proof (cases "c = s")
      case True
      have "silent_socket (beat s srv) s" using Cons.prems(2) beat_silences by fastforce
      then show ?thesis using True by (simp add: fold_inv [where P = "\<lambda>srv. silent_socket srv s"] silent_beat)
    next
      case False
      have "ws_states (beat c srv) s \<noteq> None"
        using Cons.prems(2) by (auto simp: beat_def Let_def removeFromRooms_states split: option.split)
      with Cons False show ?thesis by auto
    qed
  qed simp
  with assms show ?thesis by (simp add: heartbeat_def)
qed

text \<open>No event but a pong of the socket, or its connection, makes it alive again.\<close>

lemma silent_handle:
  assumes "silent_socket srv s" and "e \<noteq> Pong s" and "e \<noteq> Connected s"
  shows "silent_socket (ws_handle e srv) s"
proof (cases e)
  case (Connected s')
  with assms show ?thesis by (simp add: on_connection_def silent_socket_def)
next
  case (Pong s')
  with assms show ?thesis by (auto simp: on_pong_def silent_socket_def split: option.split)
next
  case (Data s' data)
  with assms(1) show ?thesis
    by (auto simp: on_message_def Let_def silent_socket_def split: option.split WebSocketClientFrame.split simp del: stringify.simps)
next
  case Heartbeat
  with assms(1) show ?thesis by (simp add: silent_heartbeat)
next
  case (SeatEvent event)
  with assms(1) show ?thesis
    by (auto simp: onSeatEvent_def Let_def split: option.split intro!: fold_inv [where P = "\<lambda>srv. silent_socket srv s"])
next
  case Shutdown
  with assms(1) show ?thesis
    by (auto simp: close_sockets_def intro!: fold_inv [where P = "\<lambda>srv. silent_socket srv s"])
qed (use assms(1) in simp_all)

lemma silent_handles:
  "silent_socket srv s \<Longrightarrow> Pong s \<notin> set es \<Longrightarrow> Connected s \<notin> set es \<Longrightarrow> silent_socket (fold ws_handle es srv) s"
proof (induction es arbitrary: srv)
  case (Cons e es)
  have "silent_socket (ws_handle e srv) s"
    by (rule silent_handle) (use Cons.prems in auto)
  with Cons show ?case by simp
qed simp

definition evicted :: "'k ws_server \<Rightarrow> 'k \<Rightarrow> bool" where
  "evicted srv s \<longleftrightarrow> \<not> ws_open srv s \<and> (\<forall>ev. \<not> subscribed srv ev s) \<and> silent_socket srv s"

lemma evicted_beat: "evicted srv s \<Longrightarrow> evicted (beat s' srv) s"
proof (cases "ws_states srv s'")
  case None
  moreover assume "evicted srv s"
  ultimately show ?thesis by (simp add: evicted_def beat_def Let_def removeFromRooms_subscribed)
next
  case (Some st)
  assume ev: "evicted srv s"
  have "\<not> subscribed (beat s' srv) ev s" for ev
  proof (cases "isAlive st")
    case True
    have "\<not> subscribed srv ev s" using ev by (simp add: evicted_def)
    with True Some show ?thesis by (cases "s = s'") (simp_all add: beat_def subscribed_def)
  next
    case False
    with Some ev show ?thesis by (simp add: beat_def Let_def removeFromRooms_subscribed evicted_def)
  qed
  moreover have "\<not> ws_open (beat s' srv) s"
    using Some ev by (simp add: beat_def Let_def evicted_def)
  ultimately show ?thesis using ev silent_beat [of srv s s'] by (auto simp: evicted_def)
qed

lemma heartbeat_evicts:
  assumes "s \<in> set (ws_clients srv)" and "silent_socket srv s"
  shows "evicted (heartbeat srv) s"
proof -
  have "s \<in> set cs \<Longrightarrow> silent_socket srv s \<Longrightarrow> evicted (fold beat cs srv) s" for cs
  proof (induction cs arbitrary: srv)
    case (Cons c cs)
    show ?case
    proof (cases "c = s")
      case True
      obtain st where "ws_states srv s = Some st" "\<not> isAlive st" using Cons.prems(2) by (auto simp: silent_socket_def)
      then have "evicted (beat s srv) s"
        using silent_beat [OF Cons.prems(2), of s] by (simp add: evicted_def beat_def Let_def removeFromRooms_subscribed)
      then show ?thesis using True by (simp add: fold_inv [where P = "\<lambda>srv. evicted srv s"] evicted_beat)
    next
      case False
      with Cons.prems(1) have "s \<in> set cs" by simp
      from Cons.IH [OF this silent_beat [OF Cons.prems(2)]] show ?thesis by simp
    qed
  qed simp
  with assms show ?thesis by (simp add: heartbeat_def)
qed

end
