(* ===== verification/Broadcast.thy ===== *)
theory Broadcast imports Websocket Ref_Store begin

text \<open>
  Publication, adapter and sockets together: what \<open>publishSeatEvent\<close> of one process makes
  the sockets of another one receive; the life of an adapter and of a socket.
\<close>

section \<open>Rooms\<close>

lemma ws_reachable_ok: "ws_reachable srv \<Longrightarrow> rooms_ok srv"
proof (induction rule: ws_reachable.induct)
  case ws_start
  show ?case by (simp add: rooms_ok_alt in_room_def subscribed_def tidy_def ws_init_def)
next
  case (ws_step srv e)
  then show ?case by (blast intro: ws_handle_ok)
qed

text \<open>A socket that connects and subscribes.\<close>

definition frame_text :: "string \<Rightarrow> string \<Rightarrow> string" where
  "frame_text type eventId = stringify (JObj [(''type'', JStr type), (''eventId'', JStr eventId)])"

lemma parse_frame_text:
  "parseFrame (frame_text ''subscribe'' ev) = (if ev = [] then None else Some (Subscribe ev))"
  "parseFrame (frame_text ''unsubscribe'' ev) = (if ev = [] then None else Some (Unsubscribe ev))"
  by (simp_all add: parseFrame_def frame_text_def webSocketClientFrameSchema_def member_def z_min1_def del: stringify.simps)

definition sample_events :: "nat ws_event list" where
  "sample_events = [Connected 0, Connected 1, Data 0 (frame_text ''subscribe'' ''ev''), Data 1 (frame_text ''subscribe'' ''ev''),
     Closing 1]"

definition sample_server :: "nat ws_server" where
  "sample_server = fold ws_handle sample_events ws_init"

lemma sample_server_views:
  "ws_rooms sample_server = [''ev'' \<mapsto> [0, 1]]" "ws_clients sample_server = [0, 1]"
  "ws_states sample_server = [0 \<mapsto> \<lparr>isAlive = True, eventIds = [''ev'']\<rparr>, 1 \<mapsto> \<lparr>isAlive = True, eventIds = [''ev'']\<rparr>]"
  "ws_open sample_server = (\<lambda>s. s = 0)"
  by (simp_all add: sample_server_def sample_events_def ws_init_def on_connection_def on_message_def parse_frame_text
      ws_send_def set_add_def fun_eq_iff del: stringify.simps)

lemma sample_server_reachable: "ws_reachable sample_server"
  unfolding sample_server_def sample_events_def fold.simps comp_apply id_apply
  by (intro ws_step ws_start)
     (simp_all add: ws_init_def on_connection_def on_message_def parse_frame_text ws_send_def set_add_def del: stringify.simps)

text \<open>
  Claim C32.  In every reachable state of the WebSocket server the two registers agree: a
  socket is in the room of an event exactly when the event is in the socket's own list,
  rooms hold no socket twice and no empty room is kept.  Whatever the order of connections,
  frames, pongs, closes, heartbeats and events.
\<close>

theorem rooms_match_states:
  assumes "ws_reachable srv"
  shows "(\<forall>ev s. (\<exists>room. ws_rooms srv ev = Some room \<and> s \<in> set room) \<longleftrightarrow>
           (\<exists>st. ws_states srv s = Some st \<and> ev \<in> set (eventIds st))) \<and>
    (\<forall>ev room. ws_rooms srv ev = Some room \<longrightarrow> room \<noteq> [] \<and> distinct room)"
  using ws_reachable_ok [OF assms] by (simp add: rooms_ok_def in_room_def subscribed_def)

theorem rooms_match_states_witness:
  "ws_reachable sample_server \<and> (\<forall>ev s. (\<exists>room. ws_rooms sample_server ev = Some room \<and> s \<in> set room) \<longleftrightarrow>
           (\<exists>st. ws_states sample_server s = Some st \<and> ev \<in> set (eventIds st))) \<and>
   ws_rooms sample_server ''ev'' = Some [0, 1]"
  using rooms_match_states [OF sample_server_reachable] sample_server_reachable by (simp add: sample_server_views)

section \<open>From the publisher to the sockets\<close>

text \<open>What the adapter of a process passes on reaches its server, in order.\<close>

definition deliver ::
  "zod_formats \<Rightarrow> ('s, 'l) adapter \<Rightarrow> string \<times> string \<Rightarrow> 'k ws_server \<Rightarrow> 'k ws_server" where
  "deliver Z a message srv =
     fold (\<lambda>call. ws_handle (SeatEvent (snd call))) (dispatched Z a (fst message) (snd message)) srv"

lemma published_message:
  assumes "run (adapter_publishSeatEvent svc e) w = (w', Inr ())"
  shows "w_sent w' = w_sent w @ [(WS_SEAT_EVENTS_CHANNEL, stringify (seat_event_json e))]"
  using assms
  by (auto simp: adapter_publishSeatEvent_def run_simps Let_def split: if_splits prod.splits sum.splits simp del: stringify.simps)

lemma dispatched_published:
  "ad_listener a = Some l \<Longrightarrow> dispatched Z a WS_SEAT_EVENTS_CHANNEL (stringify (seat_event_json e)) =
    (if valid_event Z e then replicate (ad_handlers a) (l, public_event e) else [])"
  by (simp add: dispatched_def handle_published del: stringify.simps)

lemma payload_eventId_public [simp]: "payload_eventId (public_payload p) = payload_eventId p"
  by (cases p) simp_all

lemma freshly_connected:
  assumes "run (adapter_connect C l) a = (a', Inr ())" and "\<not> ad_connected a" and "ad_handlers a = 0"
  shows "ad_listener a' = Some l" "ad_handlers a' = 1" "ad_connected a'"
  using adapter_connect_run [OF assms(1)] assms(2,3) by auto

text \<open>
  Claim C31.  From one process to the sockets of another.  When \<open>publishSeatEvent\<close> has sent an
  event and the adapter of a process has connected, the sockets of that process that have
  subscribed to the event and are open get one message each, no other socket gets any, and
  the text is the event without the id of the buyer; sockets found closed have left the room.
\<close>

theorem seat_event_delivery:
  assumes "run (adapter_publishSeatEvent svc e) w = (w', Inr ())"
    and "run (adapter_connect C l) a = (a', Inr ())" and "\<not> ad_connected a" and "ad_handlers a = 0"
    and "ws_reachable srv" and "valid_event Z e"
  shows "\<exists>receivers. distinct receivers \<and>
      set receivers = {s. subscribed srv (payload_eventId (we_payload e)) s \<and> ws_open srv s} \<and>
      ws_outbox (deliver Z a' (last (w_sent w')) srv) =
        ws_outbox srv @ map (\<lambda>s. (s, stringify (seat_event_json (e\<lparr>we_payload := public_payload (we_payload e)\<rparr>)))) receivers \<and>
      (\<forall>ev s. subscribed (deliver Z a' (last (w_sent w')) srv) ev s \<longleftrightarrow> subscribed srv ev s \<and>
         (subscribed srv (payload_eventId (we_payload e)) s \<longrightarrow> ws_open srv s))"
proof -
  have d: "deliver Z a' (last (w_sent w')) srv = onSeatEvent (public_event e) srv"
    using published_message [OF assms(1)] freshly_connected [OF assms(2-4)] assms(6)
    by (simp add: deliver_def dispatched_published del: stringify.simps)
  have ok: "rooms_ok srv" and ok': "rooms_ok (onSeatEvent (public_event e) srv)"
    using ws_reachable_ok [OF assms(5)] by (simp_all add: onSeatEvent_ok)
  have r: "subscribed srv = in_room srv" "subscribed (onSeatEvent (public_event e) srv) = in_room (onSeatEvent (public_event e) srv)"
    using ok ok' by (simp_all add: rooms_ok_def fun_eq_iff)
  have "payload_eventId (we_payload (public_event e)) = payload_eventId (we_payload e)" by (simp add: public_event_def)
  then show ?thesis
    using onSeatEvent_run [OF ok, of "public_event e"] unfolding d r by (simp add: public_event_def del: stringify.simps)
qed

text \<open>Clients whose commands all succeed; the formats of the sample event.\<close>

definition ready_clients :: "unit pubsub_clients" where
  "ready_clients = \<lparr>publisher_status = (\<lambda>_. ''wait''), subscriber_status = (\<lambda>_. ''wait''),
     publisher_connect = (\<lambda>s. (s, Inr ())), subscriber_connect = (\<lambda>s. (s, Inr ())),
     subscriber_subscribe = (\<lambda>_ s. (s, Inr ())), publisher_quit = (\<lambda>s. (s, Inr ())), subscriber_quit = (\<lambda>s. (s, Inr ()))\<rparr>"

definition fresh_adapter :: "(unit, nat) adapter" where
  "fresh_adapter = \<lparr>ad_clients = (), ad_listener = None, ad_connected = False, ad_handlers = 0\<rparr>"

definition sample_formats :: zod_formats where
  "sample_formats = \<lparr>is_uuid = (\<lambda>s. length s = 4), is_datetime = (\<lambda>s. length s = 24)\<rparr>"

definition sample_event :: WebSocketSeatEvent where
  "sample_event = \<lparr>we_eventId = ''uuid'', we_schemaVersion = 1, we_occurredAt = ''2026-01-01T00:00:00.000Z'',
     we_correlationId = ''c'', we_payload = HeldRecord \<lparr>hr_holdId = ''h1'', hr_eventId = ''ev'', hr_seatId = ''s1'',
       hr_userId = ''u1'', hr_expiresAt = ''2026-01-01T00:10:00.000Z''\<rparr>\<rparr>"

lemma ready_connect:
  "run (adapter_connect ready_clients l) a =
     (a\<lparr>ad_listener := Some l, ad_connected := True, ad_handlers := (if ad_connected a then ad_handlers a else Suc (ad_handlers a))\<rparr>, Inr ())"
  by (simp add: adapter_connect_def subscribeToChannel_def ready_clients_def run_simps)

lemma sample_valid: "valid_event sample_formats sample_event"
  by (simp add: valid_event_def sample_event_def sample_formats_def WEBSOCKET_SEAT_EVENT_SCHEMA_VERSION_def)

lemma sample_published:
  "run (adapter_publishSeatEvent ref_services sample_event) ref_world =
     (ref_world\<lparr>w_sent := [(WS_SEAT_EVENTS_CHANNEL, stringify (seat_event_json sample_event))]\<rparr>, Inr ())"
  by (simp add: adapter_publishSeatEvent_def run_simps ref_world_def ref_services_def ref_client_def Let_def del: stringify.simps)

theorem seat_event_delivery_witness:
  "\<exists>a'. run (adapter_connect ready_clients 7) fresh_adapter = (a', Inr ()) \<and>
    ws_outbox (deliver sample_formats a' (WS_SEAT_EVENTS_CHANNEL, stringify (seat_event_json sample_event)) sample_server) =
      ws_outbox sample_server @ [(0, stringify (seat_event_json (sample_event\<lparr>we_payload := Held ''ev'' ''s1'' ''h1'' ''2026-01-01T00:10:00.000Z''\<rparr>)))]"
proof -
  obtain a' where a: "run (adapter_connect ready_clients 7) fresh_adapter = (a', Inr ())" by (simp add: ready_connect)
  have "{s. subscribed sample_server ''ev'' s \<and> ws_open sample_server s} = {0}"
    by (auto simp: subscribed_def sample_server_views)
  moreover obtain receivers where "distinct receivers"
    "set receivers = {s. subscribed sample_server ''ev'' s \<and> ws_open sample_server s}"
    "ws_outbox (deliver sample_formats a' (WS_SEAT_EVENTS_CHANNEL, stringify (seat_event_json sample_event)) sample_server) =
      ws_outbox sample_server @ map (\<lambda>s. (s, stringify (seat_event_json (sample_event\<lparr>we_payload := Held ''ev'' ''s1'' ''h1'' ''2026-01-01T00:10:00.000Z''\<rparr>)))) receivers"
    using seat_event_delivery [OF sample_published a _ _ sample_server_reachable sample_valid]
    by (auto simp: fresh_adapter_def sample_event_def simp del: stringify.simps)
  moreover have "receivers = [0]" if "distinct receivers" "set receivers = {0::nat}" for receivers
    using that by (cases receivers) (auto simp: distinct_insert subset_singleton_iff)
  ultimately have "ws_outbox (deliver sample_formats a' (WS_SEAT_EVENTS_CHANNEL, stringify (seat_event_json sample_event)) sample_server) =
      ws_outbox sample_server @ [(0, stringify (seat_event_json (sample_event\<lparr>we_payload := Held ''ev'' ''s1'' ''h1'' ''2026-01-01T00:10:00.000Z''\<rparr>)))]"
    by (metis (no_types, lifting) list.simps(8,9))
  with a show ?thesis by blast
qed

section \<open>The life of a socket\<close>

lemma beat_self:
  "ws_states (beat s srv) s = map_option (\<lambda>st. if isAlive st then st\<lparr>isAlive := False\<rparr> else st\<lparr>eventIds := []\<rparr>) (ws_states srv s)"
  "ws_open (beat s srv) s \<longleftrightarrow> ws_open srv s \<and> (\<exists>st. ws_states srv s = Some st \<and> isAlive st)"
  by (simp_all add: beat_def Let_def removeFromRooms_states split: option.split)

lemma beat_other:
  "c \<noteq> s \<Longrightarrow> ws_states (beat c srv) s = ws_states srv s"
  "c \<noteq> s \<Longrightarrow> ws_open (beat c srv) s = ws_open srv s"
  by (simp_all add: beat_def Let_def removeFromRooms_states split: option.split)

lemma beats_other:
  "s \<notin> set cs \<Longrightarrow> ws_states (fold beat cs srv) s = ws_states srv s \<and> ws_open (fold beat cs srv) s = ws_open srv s"
proof (induction cs arbitrary: srv)
  case (Cons c cs)
  then have "c \<noteq> s" by auto
  with Cons show ?case by (simp add: beat_other)
qed simp

lemma heartbeat_member:
  assumes "distinct (ws_clients srv)" and "s \<in> set (ws_clients srv)"
  shows "ws_states (heartbeat srv) s = ws_states (beat s srv) s" "ws_open (heartbeat srv) s = ws_open (beat s srv) s"
proof -
  obtain ys zs where cs: "ws_clients srv = ys @ s # zs" using assms(2) split_list by fastforce
  with assms(1) have "s \<notin> set ys" "s \<notin> set zs" by auto
  then show "ws_states (heartbeat srv) s = ws_states (beat s srv) s" "ws_open (heartbeat srv) s = ws_open (beat s srv) s"
    by (simp_all add: heartbeat_def cs beats_other beat_self)
qed

lemma fold_clients: "(\<And>x srv. ws_clients (f x srv) = ws_clients srv) \<Longrightarrow> ws_clients (fold f xs srv) = ws_clients srv"
  by (induction xs arbitrary: srv) auto

lemma handle_clients:
  "ws_clients (ws_handle e srv) =
    (case e of Connected s \<Rightarrow> set_add s (ws_clients srv) | Closed s \<Rightarrow> removeAll s (ws_clients srv) | _ \<Rightarrow> ws_clients srv)"
proof (cases e)
  case Heartbeat
  have "ws_clients (beat s srv') = ws_clients srv'" for s and srv' :: "'a ws_server"
    by (simp add: beat_def Let_def split: option.split)
  with Heartbeat show ?thesis by (simp add: heartbeat_def fold_clients)
next
  case (SeatEvent event)
  then show ?thesis by (simp add: onSeatEvent_def Let_def ws_send_def fold_clients split: option.split)
next
  case Shutdown
  then show ?thesis by (simp add: close_sockets_def fold_clients)
next
  case (Data s data)
  then show ?thesis
    by (simp add: on_message_def Let_def ws_send_def split: option.split WebSocketClientFrame.split del: stringify.simps)
qed (simp_all add: on_connection_def on_pong_def split: option.split)

lemma ws_reachable_distinct: "ws_reachable srv \<Longrightarrow> distinct (ws_clients srv)"
  by (induction rule: ws_reachable.induct)
     (auto simp: ws_init_def handle_clients distinct_removeAll split: ws_event.split)

lemma handles_clients: "s \<in> set (ws_clients srv) \<Longrightarrow> Closed s \<notin> set es \<Longrightarrow> s \<in> set (ws_clients (fold ws_handle es srv))"
proof (induction es arbitrary: srv)
  case (Cons e es)
  then have "s \<in> set (ws_clients (ws_handle e srv))" by (auto simp: handle_clients split: ws_event.split)
  with Cons show ?case by simp
qed simp



section \<open>The life of an adapter\<close>

text \<open>
  The adapter of a process: after its first successful \<open>connect\<close> every valid event
  reaches the listener once; a second \<open>connect\<close> does not touch the network and hands the
  events, still once each, to the new listener; once \<open>disconnect\<close> has begun nothing is
  dispatched, whatever the clients answer.
\<close>

theorem adapter_lifecycle:
  assumes "run (adapter_connect C l) a = (a1, Inr ())" and "\<not> ad_connected a" and "ad_handlers a = 0"
    and "run (adapter_connect C l') a1 = (a2, x)" and "run (adapter_disconnect C) a2 = (a3, y)" and "valid_event Z e"
  shows "dispatched Z a1 WS_SEAT_EVENTS_CHANNEL (stringify (seat_event_json e)) = [(l, public_event e)] \<and>
    x = Inr () \<and> ad_clients a2 = ad_clients a1 \<and>
    dispatched Z a2 WS_SEAT_EVENTS_CHANNEL (stringify (seat_event_json e)) = [(l', public_event e)] \<and>
    (\<forall>channel message. dispatched Z a3 channel message = []) \<and> \<not> ad_connected a3"
proof -
  note a1 = freshly_connected [OF assms(1-3)]
  have a2: "a2 = a1\<lparr>ad_listener := Some l'\<rparr>" "x = Inr ()" using adapter_connect_run [OF assms(4)] a1(3) by auto
  have a3: "ad_listener a3 = None" "\<not> ad_connected a3"
    using assms(5) by (auto simp: adapter_disconnect_def run_simps split: prod.splits sum.splits if_splits)
  show ?thesis
    using a1 a2 a3 assms(6) by (simp add: dispatched_published dispatched_def [of Z a3] handle_message_def del: stringify.simps)
qed

theorem adapter_lifecycle_witness:
  "\<exists>a1 a2. run (adapter_connect ready_clients 7) fresh_adapter = (a1, Inr ()) \<and>
    run (adapter_connect ready_clients 8) a1 = (a2, Inr ()) \<and>
    dispatched sample_formats a2 WS_SEAT_EVENTS_CHANNEL (stringify (seat_event_json sample_event)) = [(8, public_event sample_event)]"
proof -
  obtain a1 a2 a3 y where a: "run (adapter_connect ready_clients 7) fresh_adapter = (a1, Inr ())"
    "run (adapter_connect ready_clients 8) a1 = (a2, Inr ())" "run (adapter_disconnect ready_clients) a2 = (a3, y)"
    by (metis ready_connect surj_pair)
  from adapter_lifecycle [OF a(1) _ _ a(2,3) sample_valid] a(1,2) show ?thesis
    by (simp add: fresh_adapter_def)
qed

end
