(* ===== verification/Geo.thy ===== *)
theory Geo imports Complex_Main Services "HOL-Library.Product_Lexorder" "HOL-Library.Multiset" begin

text \<open>
  \<open>src/src/services/geo.service.ts\<close>: search of events near a coordinate.  Numbers are exact
  rationals with the three special values of JavaScript; the rounding of doubles is left
  out.  The index (\<open>GEOADD\<close>, \<open>GEOSEARCH\<close>) and the two queries are parameters.
\<close>

section \<open>Numbers\<close>

datatype number = Fin rat | PosInf | NegInf | NotANumber

definition is_digit :: "char \<Rightarrow> bool" where
  "is_digit c \<longleftrightarrow> digit_val c \<noteq> None"

definition digits_value :: "string \<Rightarrow> nat" where
  "digits_value ds = fst (read_digits 0 ds)"

text \<open>The exponent part of a decimal literal, which may be missing.\<close>

definition exponent_value :: "string \<Rightarrow> int option" where
  "exponent_value s =
     (case s of
        [] \<Rightarrow> Some 0
      | c # r \<Rightarrow>
          (if c \<noteq> CHR ''e'' \<and> c \<noteq> CHR ''E'' then None
           else
             (let neg = (r \<noteq> [] \<and> hd r = CHR ''-'');
                  ds = (if r \<noteq> [] \<and> (hd r = CHR ''-'' \<or> hd r = CHR ''+'') then tl r else r)
              in if ds = [] \<or> \<not> list_all is_digit ds then None
                 else Some ((if neg then - 1 else 1) * int (digits_value ds)))))"

definition scale :: "rat \<Rightarrow> int \<Rightarrow> rat" where
  "scale x e = (if 0 \<le> e then x * 10 ^ nat e else x / 10 ^ nat (- e))"

definition decimal_value :: "string \<Rightarrow> rat option" where
  "decimal_value s =
     (let ip = takeWhile is_digit s; r = dropWhile is_digit s;
          dot = (r \<noteq> [] \<and> hd r = CHR ''.'');
          fp = (if dot then takeWhile is_digit (tl r) else []);
          rest = (if dot then dropWhile is_digit (tl r) else r)
      in if ip = [] \<and> fp = [] then None
         else map_option (scale (of_nat (digits_value ip) + of_nat (digits_value fp) / 10 ^ length fp)) (exponent_value rest))"

definition radix_digit :: "char \<Rightarrow> nat" where
  "radix_digit c =
     (let n = of_char c in
      if 48 \<le> n \<and> n \<le> 57 then n - 48
      else if 97 \<le> n \<and> n \<le> 102 then n - 87
      else if 65 \<le> n \<and> n \<le> 70 then n - 55
      else 99)"

definition radix_value :: "nat \<Rightarrow> string \<Rightarrow> rat option" where
  "radix_value b ds =
     (if ds = [] \<or> (\<exists>c \<in> set ds. b \<le> radix_digit c) then None
      else Some (of_nat (foldl (\<lambda>acc c. b * acc + radix_digit c) 0 ds)))"

text \<open>Beyond this bound a literal is rounded to \<open>Infinity\<close>.\<close>

definition double_bound :: rat where
  "double_bound = 2 ^ 1024 - 2 ^ 970"

definition rounded :: "rat \<Rightarrow> number" where
  "rounded x = (if double_bound \<le> x then PosInf else if x \<le> - double_bound then NegInf else Fin x)"

fun negated :: "number \<Rightarrow> number" where
  "negated (Fin x) = Fin (- x)"
| "negated PosInf = NegInf"
| "negated NegInf = PosInf"
| "negated NotANumber = NotANumber"

definition unsigned_number :: "string \<Rightarrow> number" where
  "unsigned_number s =
     (if s = ''Infinity'' then PosInf
      else case decimal_value s of Some x \<Rightarrow> rounded x | None \<Rightarrow> NotANumber)"

text \<open>\<open>Number(text)\<close>.\<close>

definition js_Number :: "string \<Rightarrow> number" where
  "js_Number text =
     (let s = js_trim text in
      if s = [] then Fin 0
      else if hd s = CHR ''-'' then negated (unsigned_number (tl s))
      else if hd s = CHR ''+'' then unsigned_number (tl s)
      else if is_prefix ''0x'' s \<or> is_prefix ''0X'' s then (case radix_value 16 (drop 2 s) of Some x \<Rightarrow> rounded x | None \<Rightarrow> NotANumber)
      else if is_prefix ''0o'' s \<or> is_prefix ''0O'' s then (case radix_value 8 (drop 2 s) of Some x \<Rightarrow> rounded x | None \<Rightarrow> NotANumber)
      else if is_prefix ''0b'' s \<or> is_prefix ''0B'' s then (case radix_value 2 (drop 2 s) of Some x \<Rightarrow> rounded x | None \<Rightarrow> NotANumber)
      else unsigned_number s)"

section \<open>Data\<close>

definition VENUES_GEO_KEY :: string where
  "VENUES_GEO_KEY = ''venues:geo''"

definition MAX_SEARCH_LIMIT :: int where
  "MAX_SEARCH_LIMIT = 100"

definition MAX_RADIUS_KM :: rat where
  "MAX_RADIUS_KM = 500"

record NearbyEventSearchQuery =
  q_lat :: number
  q_lng :: number
  q_radiusKm :: number
  q_limit :: number

record venue_row =
  vn_id :: string
  vn_name :: string
  vn_latitude :: rat
  vn_longitude :: rat

record EventWithVenue = event_row +
  ev_venueId :: "string option"
  ev_venue :: "venue_row option"

record NearbyEventResult =
  ne_eventId :: string
  ne_name :: string
  ne_startsAt :: int
  ne_venue :: venue_row
  ne_distanceKm :: rat

type_synonym GeoVenueDistance = "string \<times> rat"

text \<open>
  \<open>geo_search key lng lat radiusKm count\<close> is the ascending search by radius with distances;
  \<open>geo_pipeline\<close> executes the \<open>GEOADD\<close>s of one pipeline.  \<open>geo_events ids isActive from\<close> is the
  query for the events of these venues.
\<close>

record ('r, 'd) geo_services =
  geo_search :: "string \<Rightarrow> rat \<Rightarrow> rat \<Rightarrow> rat \<Rightarrow> int \<Rightarrow> 'r \<Rightarrow> 'r \<times> (exn + json)"
  geo_pipeline :: "(string \<times> rat \<times> rat \<times> string) list \<Rightarrow> 'r \<Rightarrow> 'r \<times> (exn + unit)"
  geo_venues :: "'d \<Rightarrow> exn + venue_row list"
  geo_events :: "string list \<Rightarrow> bool \<Rightarrow> int \<Rightarrow> 'd \<Rightarrow> exn + EventWithVenue list"

section \<open>The service\<close>

definition syncVenuesToGeoIndex :: "('r, 'd) geo_services \<Rightarrow> (('r, 'd) world, nat) proc" where
  "syncVenuesToGeoIndex G =
     await (db_read (geo_venues G)) (\<lambda>venues.
     if venues = [] then Ret 0
     else
       await (redis_do (geo_pipeline G
         (map (\<lambda>venue. (VENUES_GEO_KEY, vn_longitude venue, vn_latitude venue, vn_id venue)) venues))) (\<lambda>_.
       Ret (length venues)))"

definition in_range :: "rat \<Rightarrow> rat \<Rightarrow> number \<Rightarrow> bool" where
  "in_range lo hi x = (case x of Fin v \<Rightarrow> lo \<le> v \<and> v \<le> hi | _ \<Rightarrow> False)"

definition isInteger :: "number \<Rightarrow> bool" where
  "isInteger x = (case x of Fin v \<Rightarrow> of_int \<lfloor>v\<rfloor> = v | _ \<Rightarrow> False)"

definition validateSearchQuery :: "NearbyEventSearchQuery \<Rightarrow> exn + unit" where
  "validateSearchQuery query =
     (if \<not> in_range (- 90) 90 (q_lat query) then Inl (BadRequestError ''lat must be between -90 and 90'')
      else if \<not> in_range (- 180) 180 (q_lng query) then Inl (BadRequestError ''lng must be between -180 and 180'')
      else if \<not> in_range 0 MAX_RADIUS_KM (q_radiusKm query) \<or> q_radiusKm query = Fin 0
      then Inl (BadRequestError ''radiusKm must be greater than 0 and no more than 500'')
      else if \<not> isInteger (q_limit query) \<or> \<not> in_range 1 (of_int MAX_SEARCH_LIMIT) (q_limit query)
      then Inl (BadRequestError ''limit must be an integer between 1 and 100'')
      else Inr ())"

definition js_at :: "json list \<Rightarrow> nat \<Rightarrow> json option" where
  "js_at xs i = (if i < length xs then Some (xs ! i) else None)"

text \<open>What one pair of the reply contributes.\<close>

definition geo_entry :: "json option \<Rightarrow> json option \<Rightarrow> GeoVenueDistance list" where
  "geo_entry venueId distance =
     (case (venueId, distance) of
        (Some (JStr v), Some (JStr d)) \<Rightarrow> (case js_Number d of Fin x \<Rightarrow> [(v, x)] | _ \<Rightarrow> [])
      | _ \<Rightarrow> [])"

fun flat_entries :: "json list \<Rightarrow> GeoVenueDistance list" where
  "flat_entries (venueId # distance # rest) = geo_entry (Some venueId) (Some distance) @ flat_entries rest"
| "flat_entries _ = []"

fun is_array :: "json \<Rightarrow> bool" where
  "is_array (JArr _) = True"
| "is_array _ = False"

fun nested_entry :: "json \<Rightarrow> GeoVenueDistance list" where
  "nested_entry (JArr result) = geo_entry (js_at result 0) (js_at result 1)"
| "nested_entry _ = []"

definition parseGeoResults :: "json \<Rightarrow> GeoVenueDistance list" where
  "parseGeoResults rawResults =
     (case rawResults of
        JArr results \<Rightarrow>
          (if list_all is_array results then concat (map nested_entry results) else flat_entries results)
      | _ \<Rightarrow> [])"

text \<open>
  \<open>new Map(pairs)\<close> keeps the last pair of a key.  The comparator of the sort is the difference
  of distances; a venue without distance counts as \<open>Infinity\<close>, and two of those as equal.
\<close>

definition distanceByVenueId :: "GeoVenueDistance list \<Rightarrow> string \<Rightarrow> rat option" where
  "distanceByVenueId nearby = map_of (rev nearby)"

definition venue_key :: "EventWithVenue \<Rightarrow> string" where
  "venue_key event = (case ev_venueId event of Some v \<Rightarrow> v | None \<Rightarrow> [])"

definition sort_distance :: "GeoVenueDistance list \<Rightarrow> EventWithVenue \<Rightarrow> bool \<times> rat" where
  "sort_distance nearby event =
     (case distanceByVenueId nearby (venue_key event) of Some d \<Rightarrow> (False, d) | None \<Rightarrow> (True, 0))"

definition nearby_result :: "GeoVenueDistance list \<Rightarrow> EventWithVenue \<Rightarrow> NearbyEventResult" where
  "nearby_result nearby event =
     \<lparr>ne_eventId = evt_id event, ne_name = evt_name event, ne_startsAt = evt_startsAt event,
      ne_venue = the (ev_venue event),
      ne_distanceKm = (case distanceByVenueId nearby (venue_key event) of Some d \<Rightarrow> d | None \<Rightarrow> 0)\<rparr>"

definition rank_events :: "NearbyEventSearchQuery \<Rightarrow> GeoVenueDistance list \<Rightarrow> EventWithVenue list \<Rightarrow> NearbyEventResult list" where
  "rank_events query nearby events =
     map (nearby_result nearby)
       (take (case q_limit query of Fin l \<Rightarrow> nat \<lfloor>l\<rfloor> | _ \<Rightarrow> 0)
         (sort_key (sort_distance nearby) (filter (\<lambda>event. ev_venue event \<noteq> None) events)))"

definition finite_value :: "number \<Rightarrow> rat" where
  "finite_value x = (case x of Fin v \<Rightarrow> v | _ \<Rightarrow> 0)"

definition searchNearbyEvents ::
  "('r, 'd) geo_services \<Rightarrow> NearbyEventSearchQuery \<Rightarrow> (('r, 'd) world, NearbyEventResult list) proc" where
  "searchNearbyEvents G query =
     await (sync (validateSearchQuery query)) (\<lambda>_.
     await (redis_do (geo_search G VENUES_GEO_KEY (finite_value (q_lng query)) (finite_value (q_lat query))
       (finite_value (q_radiusKm query)) (min (\<lfloor>finite_value (q_limit query)\<rfloor> * 4) MAX_SEARCH_LIMIT))) (\<lambda>rawResults.
     let nearbyVenues = parseGeoResults rawResults in
     if nearbyVenues = [] then Ret []
     else
       await Date_now (\<lambda>now.
       await (db_read (geo_events G (map fst nearbyVenues) True now)) (\<lambda>events.
       Ret (rank_events query nearbyVenues events)))))"

section \<open>Ranking\<close>

text \<open>What the two shapes of a reply contain: nested pairs (RESP3) or one flat array (RESP2).\<close>

definition nested_reply :: "(json \<times> json) list \<Rightarrow> json" where
  "nested_reply ps = JArr (map (\<lambda>(v, d). JArr [v, d]) ps)"

definition flat_reply :: "(json \<times> json) list \<Rightarrow> json" where
  "flat_reply ps = JArr (concat (map (\<lambda>(v, d). [v, d]) ps))"

lemma parse_nested: "parseGeoResults (nested_reply ps) = concat (map (\<lambda>(v, d). geo_entry (Some v) (Some d)) ps)"
proof -
  have "list_all is_array (map (\<lambda>(v, d). JArr [v, d]) ps)" by (induction ps) auto
  moreover have "concat (map nested_entry (map (\<lambda>(v, d). JArr [v, d]) ps)) = concat (map (\<lambda>(v, d). geo_entry (Some v) (Some d)) ps)"
    by (induction ps) (auto simp: js_at_def)
  ultimately show ?thesis by (simp add: parseGeoResults_def nested_reply_def)
qed

lemma flat_entries_pairs:
  "flat_entries (concat (map (\<lambda>(v, d). [v, d]) ps)) = concat (map (\<lambda>(v, d). geo_entry (Some v) (Some d)) ps)"
  by (induction ps) auto

lemma parse_flat:
  assumes "ps \<noteq> []" and "\<not> is_array (fst (hd ps))"
  shows "parseGeoResults (flat_reply ps) = concat (map (\<lambda>(v, d). geo_entry (Some v) (Some d)) ps)"
proof -
  obtain v d qs where "ps = (v, d) # qs" using assms(1) by (cases ps) auto
  then have "\<not> list_all is_array (concat (map (\<lambda>(v, d). [v, d]) ps))" using assms(2) by simp
  then show ?thesis by (simp add: parseGeoResults_def flat_reply_def flat_entries_pairs)
qed

lemma search_run:
  "run (searchNearbyEvents G query) w =
    (case validateSearchQuery query of
       Inl e \<Rightarrow> (w, Inl e)
     | Inr _ \<Rightarrow>
         (case geo_search G VENUES_GEO_KEY (finite_value (q_lng query)) (finite_value (q_lat query))
            (finite_value (q_radiusKm query)) (min (\<lfloor>finite_value (q_limit query)\<rfloor> * 4) MAX_SEARCH_LIMIT) (w_redis w) of
            (r, Inl e) \<Rightarrow> (w\<lparr>w_redis := r\<rparr>, Inl e)
          | (r, Inr raw) \<Rightarrow>
              (w\<lparr>w_redis := r\<rparr>,
               if parseGeoResults raw = [] then Inr []
               else case geo_events G (map fst (parseGeoResults raw)) True (w_clock w) (w_db w) of
                      Inl e \<Rightarrow> Inl e
                    | Inr events \<Rightarrow> Inr (rank_events query (parseGeoResults raw) events))))"
  by (simp add: searchNearbyEvents_def run_simps Let_def split: sum.split prod.split)

text \<open>A venue of the reply has a distance.\<close>

lemma distance_known: "v \<in> fst ` set nearby \<Longrightarrow> \<exists>d. distanceByVenueId nearby v = Some d \<and> (v, d) \<in> set nearby"
proof -
  assume "v \<in> fst ` set nearby"
  then have "v \<in> fst ` set (rev nearby)" by simp
  then obtain d where d: "map_of (rev nearby) v = Some d"
    by (metis map_of_eq_None_iff not_None_eq)
  then have "(v, d) \<in> set nearby" using map_of_SomeD [OF d] by simp
  with d show ?thesis by (simp add: distanceByVenueId_def)
qed

text \<open>
  What a search promises of its results: the first \<open>n\<close> of the events that have a venue, in
  ascending order of the distance reported for the venue.
\<close>

definition nearest_first ::
  "nat \<Rightarrow> GeoVenueDistance list \<Rightarrow> EventWithVenue list \<Rightarrow> NearbyEventResult list \<Rightarrow> bool" where
  "nearest_first n nearby events results \<longleftrightarrow>
     (\<exists>ordered. mset ordered = mset (filter (\<lambda>e. ev_venue e \<noteq> None) events) \<and>
        results = map (nearby_result nearby) (take n ordered) \<and>
        sorted (map (\<lambda>e. ne_distanceKm (nearby_result nearby e)) ordered) \<and>
        (\<forall>e \<in> set ordered. (venue_key e, ne_distanceKm (nearby_result nearby e)) \<in> set nearby))"

lemma nearest_first_sorted: "nearest_first n nearby events results \<Longrightarrow> sorted (map ne_distanceKm results)"
  by (auto simp: nearest_first_def o_def take_map [symmetric] intro: sorted_wrt_take)

lemma nearest_first_length: "nearest_first n nearby events results \<Longrightarrow> length results \<le> n"
  by (auto simp: nearest_first_def)

lemma ranked:
  assumes "\<forall>e \<in> set events. venue_key e \<in> fst ` set nearby" and "q_limit query = Fin (of_nat n)"
  shows "nearest_first n nearby events (rank_events query nearby events)"
  unfolding nearest_first_def
proof (intro exI conjI)
  let ?o = "sort_key (sort_distance nearby) (filter (\<lambda>e. ev_venue e \<noteq> None) events)"
  show "mset ?o = mset (filter (\<lambda>e. ev_venue e \<noteq> None) events)" by simp
  show "rank_events query nearby events = map (nearby_result nearby) (take n ?o)"
    by (simp add: rank_events_def assms(2))
  have d: "\<exists>d. distanceByVenueId nearby (venue_key e) = Some d \<and> (venue_key e, d) \<in> set nearby" if "e \<in> set ?o" for e
    using that assms(1) distance_known by simp
  then show "\<forall>e \<in> set ?o. (venue_key e, ne_distanceKm (nearby_result nearby e)) \<in> set nearby"
    by (fastforce simp: nearby_result_def)
  have "sort_distance nearby e = (False, ne_distanceKm (nearby_result nearby e))" if "e \<in> set ?o" for e
    using d [OF that] by (auto simp: sort_distance_def nearby_result_def)
  then have eq: "map (sort_distance nearby) ?o = map (\<lambda>e. (False, ne_distanceKm (nearby_result nearby e))) ?o" by simp
  have "sorted (map (sort_distance nearby) ?o)" by simp
  then have "sorted (map (\<lambda>e. (False, ne_distanceKm (nearby_result nearby e))) ?o)" unfolding eq .
  then have "sorted (map (Pair False) (map (\<lambda>e. ne_distanceKm (nearby_result nearby e)) ?o))" by (simp add: o_def)
  then show "sorted (map (\<lambda>e. ne_distanceKm (nearby_result nearby e)) ?o)"
    by (simp add: sorted_map)
qed

lemma valid_limit: "validateSearchQuery query = Inr () \<Longrightarrow> \<exists>n. q_limit query = Fin (of_nat n) \<and> 1 \<le> n \<and> n \<le> 100"
proof -
  assume v: "validateSearchQuery query = Inr ()"
  then obtain x where x: "q_limit query = Fin x" "of_int \<lfloor>x\<rfloor> = x" "1 \<le> x" "x \<le> 100"
    by (auto simp: validateSearchQuery_def isInteger_def in_range_def MAX_SEARCH_LIMIT_def split: if_splits number.splits)
  have f: "1 \<le> \<lfloor>x\<rfloor>" "\<lfloor>x\<rfloor> \<le> 100" using x(3,4) by (simp_all add: le_floor_iff floor_le_iff)
  then have "of_nat (nat \<lfloor>x\<rfloor>) = x" using x(2) by (simp add: of_nat_nat)
  with x(1) f show ?thesis by (intro exI [of _ "nat \<lfloor>x\<rfloor>"]) auto
qed

text \<open>The contract of the query: \<open>venueId: { in: ids }\<close> selects events of these venues.\<close>

definition asked_venues_only :: "('r, 'd) geo_services \<Rightarrow> 'd \<Rightarrow> bool" where
  "asked_venues_only G d \<longleftrightarrow>
     (\<forall>ids now events. geo_events G ids True now d = Inr events \<longrightarrow> (\<forall>e \<in> set events. \<exists>v \<in> set ids. ev_venueId e = Some v))"

lemma valid_numbers:
  assumes "validateSearchQuery query = Inr ()"
  obtains lat lng radius n where "q_lat query = Fin lat" "q_lng query = Fin lng" "q_radiusKm query = Fin radius"
    "q_limit query = Fin (of_nat n)"
  using assms valid_limit [OF assms] by (auto simp: validateSearchQuery_def in_range_def split: if_splits number.splits)

text \<open>What is made of the reply of the index.\<close>

lemma search_results:
  assumes "asked_venues_only G d" and "q_limit query = Fin (of_nat n)"
    and "(if near = [] then Inr [] else case geo_events G (map fst near) True now d of
        Inl e \<Rightarrow> Inl e | Inr events \<Rightarrow> Inr (rank_events query near events)) = (Inr results :: exn + NearbyEventResult list)"
  shows "length results \<le> n \<and> (near = [] \<and> results = [] \<or>
    (\<exists>events. geo_events G (map fst near) True now d = Inr events \<and> nearest_first n near events results))"
proof (cases "near = []")
  case False
  with assms(3) obtain events where ev: "geo_events G (map fst near) True now d = Inr events"
    and results: "results = rank_events query near events" by (auto split: sum.splits)
  have "\<forall>e \<in> set events. venue_key e \<in> fst ` set near"
    using assms(1) ev by (fastforce simp: asked_venues_only_def venue_key_def)
  note o = ranked [OF this assms(2)]
  with ev results nearest_first_length [OF o] show ?thesis by auto
qed (use assms(3) in simp)

text \<open>
  Claim C36.  A search answers the error of the validation without asking anyone, or, from
  what the index and the query say, the events in ascending order of the distance Redis
  reported for their venue, as many as were asked for: every event it leaves out is at
  least as far as those it returns.  Nothing but the Redis state it reads can differ after it.
\<close>

theorem nearby_search_outcome:
  assumes "run (searchNearbyEvents G query) w = (w', x)"
    and "asked_venues_only G (w_db w)"
  shows "(\<forall>e. validateSearchQuery query = Inl e \<longrightarrow> x = Inl e \<and> w' = w) \<and> w_db w' = w_db w \<and>
    (\<forall>results. x = Inr results \<longrightarrow>
      (\<exists>raw lat lng radius n. q_lat query = Fin lat \<and> q_lng query = Fin lng \<and> q_radiusKm query = Fin radius \<and>
         q_limit query = Fin (of_nat n) \<and> length results \<le> n \<and>
         geo_search G VENUES_GEO_KEY lng lat radius (min (4 * int n) 100) (w_redis w) = (w_redis w', Inr raw) \<and>
         (parseGeoResults raw = [] \<and> results = [] \<or>
          (\<exists>events. geo_events G (map fst (parseGeoResults raw)) True (w_clock w) (w_db w) = Inr events \<and>
             nearest_first n (parseGeoResults raw) events results))))"
proof (cases "validateSearchQuery query")
  case (Inl e)
  with assms(1) show ?thesis by (auto simp: search_run)
next
  case (Inr u)
  then have "validateSearchQuery query = Inr ()" by simp
  then obtain lat lng radius n where q: "q_lat query = Fin lat" "q_lng query = Fin lng" "q_radiusKm query = Fin radius"
    "q_limit query = Fin (of_nat n)" by (rule valid_numbers)
  obtain r y where gs: "geo_search G VENUES_GEO_KEY lng lat radius (min (4 * int n) 100) (w_redis w) = (r, y)" by force
  have "min (\<lfloor>finite_value (q_limit query)\<rfloor> * 4) MAX_SEARCH_LIMIT = min (4 * int n) 100"
    using q(4) by (simp add: finite_value_def MAX_SEARCH_LIMIT_def)
  note run = assms(1) [unfolded search_run Inr this, simplified q finite_value_def number.case gs, simplified]
  show ?thesis
  proof (cases y)
    case (Inl e)
    with run Inr show ?thesis by auto
  next
    case raw: (Inr raw)
    with run have w': "w' = w\<lparr>w_redis := r\<rparr>"
      and x: "x = (if parseGeoResults raw = [] then Inr [] else case geo_events G (map fst (parseGeoResults raw)) True (w_clock w) (w_db w) of
        Inl e \<Rightarrow> Inl e | Inr events \<Rightarrow> Inr (rank_events query (parseGeoResults raw) events))" by simp_all
    with search_results [OF assms(2) q(4)] gs q raw Inr show ?thesis by fastforce
  qed
qed

text \<open>An index with two venues, the second one farther, and three events.\<close>

definition sample_venue :: "string \<Rightarrow> venue_row" where
  "sample_venue v = \<lparr>vn_id = v, vn_name = v, vn_latitude = 24, vn_longitude = 67\<rparr>"

definition sample_event_at :: "string \<Rightarrow> string \<Rightarrow> EventWithVenue" where
  "sample_event_at i v = \<lparr>evt_id = i, evt_name = i, evt_startsAt = 5, ev_venueId = Some v, ev_venue = Some (sample_venue v)\<rparr>"

definition sample_candidates :: "EventWithVenue list" where
  "sample_candidates = [sample_event_at ''e2'' ''v2'', sample_event_at ''e1'' ''v1'', sample_event_at ''e3'' ''v2'']"

definition sample_geo :: "('r, 'd) geo_services" where
  "sample_geo = \<lparr>
     geo_search = (\<lambda>_ _ _ _ _ r. (r, Inr (nested_reply [(JStr ''v1'', JStr ''0.5''), (JStr ''v2'', JStr ''12.25'')]))),
     geo_pipeline = (\<lambda>_ r. (r, Inr ())), geo_venues = (\<lambda>_. Inr []),
     geo_events = (\<lambda>ids _ _ _. Inr (filter (\<lambda>e. \<exists>v \<in> set ids. ev_venueId e = Some v) sample_candidates))\<rparr>"

definition sample_query :: NearbyEventSearchQuery where
  "sample_query = \<lparr>q_lat = Fin 24, q_lng = Fin 67, q_radiusKm = Fin 20, q_limit = Fin 2\<rparr>"

lemma js_Number_samples: "js_Number ''0.5'' = Fin (1/2)" "js_Number ''12.25'' = Fin (49/4)" "js_Number '' -1e2 '' = Fin (- 100)"
  by (simp_all add: js_Number_def js_trim_def is_js_space_def unsigned_number_def decimal_value_def is_digit_def digit_val_def
      digits_value_def exponent_value_def scale_def rounded_def double_bound_def Let_def)

lemma sample_parse: "parseGeoResults (nested_reply [(JStr ''v1'', JStr ''0.5''), (JStr ''v2'', JStr ''12.25'')]) = [(''v1'', 1/2), (''v2'', 49/4)]"
  by (simp add: parse_nested geo_entry_def js_Number_samples)

lemma sample_search_run:
  "\<exists>results. run (searchNearbyEvents (sample_geo :: ('r, 'd) geo_services) sample_query) (w :: ('r, 'd) world) = (w, Inr results) \<and>
    map ne_eventId results = [''e1'', ''e2'']"
proof -
  have "validateSearchQuery sample_query = Inr ()"
    by (simp add: sample_query_def validateSearchQuery_def in_range_def isInteger_def MAX_RADIUS_KM_def MAX_SEARCH_LIMIT_def)
  then show ?thesis
    by (simp add: search_run sample_geo_def sample_parse)
       (simp add: sample_query_def rank_events_def sample_candidates_def sample_event_at_def sort_distance_def distanceByVenueId_def
         venue_key_def nearby_result_def)
qed

definition sample_world :: "(unit, unit) world" where
  "sample_world = \<lparr>w_redis = (), w_db = (), w_clock = 0, w_digests = Map.empty, w_adapter_connected = True,
     w_consumer_running = False, w_sent = []\<rparr>"

theorem nearby_search_outcome_witness:
  "\<exists>w' results. run (searchNearbyEvents sample_geo sample_query) sample_world = (w', Inr results) \<and>
    map ne_eventId results = [''e1'', ''e2''] \<and> sorted (map ne_distanceKm results)"
proof -
  obtain results where r: "run (searchNearbyEvents sample_geo sample_query) sample_world = (sample_world, Inr results)"
    "map ne_eventId results = [''e1'', ''e2'']" by (rule exE [OF sample_search_run [of sample_world]]) (erule conjE, rule that)
  have q: "asked_venues_only sample_geo (w_db sample_world)"
    by (auto simp: asked_venues_only_def sample_geo_def)
  have "results = [] \<or> (\<exists>n near events. nearest_first n near events results)"
    using nearby_search_outcome [OF r(1) q] by blast
  then have "sorted (map ne_distanceKm results)" by (auto intro: nearest_first_sorted)
  with r show ?thesis by (intro exI conjI)
qed

text \<open>
  Both shapes in which Redis clients hand over the reply, nested pairs and one flat
  array, are read to the same list of distances, whatever else the pairs contain.
\<close>

theorem geo_reply_shapes:
  assumes "ps = [] \<or> \<not> is_array (fst (hd ps))"
  shows "parseGeoResults (JArr (concat (map (\<lambda>(v, d). [v, d]) ps))) = parseGeoResults (JArr (map (\<lambda>(v, d). JArr [v, d]) ps))"
  using assms parse_flat [of ps] parse_nested [of ps] by (cases "ps = []") (auto simp: flat_reply_def nested_reply_def)

theorem geo_reply_shapes_witness:
  "parseGeoResults (JArr [JStr ''v1'', JStr ''0.5'', JStr ''v2'', JStr ''12.25'']) = [(''v1'', 1/2), (''v2'', 49/4)]"
  using geo_reply_shapes [of "[(JStr ''v1'', JStr ''0.5''), (JStr ''v2'', JStr ''12.25'')]"] sample_parse
  by (simp add: nested_reply_def)

end
