(* ===== verification/Ticket.thy ===== *)
theory Ticket imports Pubsub Seat_Lock begin

text \<open>
  \<open>src/src/services/ticket.service.ts\<close>: \<open>holdSeat\<close>, \<open>createOrder\<close> and \<open>releaseSeat\<close>.  Every
  value of \<open>randomUUID()\<close> a call draws is \<open>uuid n\<close>, in the order of the draws: the hold id,
  the id of the seat event, the id of the order event.
\<close>

section \<open>The service\<close>

definition DEFAULT_HOLD_TTL_SECONDS :: int where
  "DEFAULT_HOLD_TTL_SECONDS = 600"

text \<open>A failure to publish is logged and otherwise ignored.\<close>

definition publishSeatEvent :: "('r, 'd) services \<Rightarrow> WebSocketSeatEvent \<Rightarrow> (('r, 'd) world, unit) proc" where
  "publishSeatEvent svc event = catch (adapter_publishSeatEvent svc event) (\<lambda>error. Ret ())"

definition trimmed_member :: "json option \<Rightarrow> string" where
  "trimmed_member v = (case as_string v of Some s \<Rightarrow> js_trim s | None \<Rightarrow> [])"

definition normalizeHoldRequest :: "'m HoldSeatPayload_scheme \<Rightarrow> exn + HoldSeatRequest" where
  "normalizeHoldRequest payload =
     (let eventId = trimmed_member (pl_eventId payload);
          seatId = trimmed_member (pl_seatId payload);
          userId = trimmed_member (pl_userId payload)
      in if length eventId = 0 \<or> length seatId = 0 \<or> length userId = 0
         then Inl (BadRequestError ''eventId, seatId, and userId are required'')
         else Inr \<lparr>rq_eventId = eventId, rq_seatId = seatId, rq_userId = userId\<rparr>)"

text \<open>
  The lookup with which both \<open>holdSeat\<close> and \<open>createOrder\<close> begin: the event, its seat of
  the requested id, and the check that it is not sold.
\<close>

definition open_seat :: "('r, 'd) services \<Rightarrow> HoldSeatRequest \<Rightarrow> (('r, 'd) world, seat_row) proc" where
  "open_seat svc request =
     await (db_read (pc_event_with_seat (prisma svc) (rq_eventId request) (rq_seatId request))) (\<lambda>found.
       case found of
         None \<Rightarrow> Throw (NotFoundError ''Event not found'')
       | Some (event, []) \<Rightarrow> Throw (NotFoundError ''Seat not found for the event'')
       | Some (event, seat # _) \<Rightarrow>
           (if seat_status seat = SOLD then Throw (ConflictError ''Seat already sold'') else Ret seat))"

definition hold_record :: "HoldSeatRequest \<Rightarrow> SeatLockExecution \<Rightarrow> SeatHoldRecord" where
  "hold_record request execution =
     \<lparr>hr_holdId = se_holdId execution, hr_eventId = rq_eventId request, hr_seatId = rq_seatId request,
      hr_userId = rq_userId request, hr_expiresAt = toISOString (se_expiresAt execution)\<rparr>"

text \<open>A seat event of the services: a fresh id, the version, the time of its construction.\<close>

definition seat_event :: "string \<Rightarrow> int \<Rightarrow> string \<Rightarrow> SeatEventPayload \<Rightarrow> WebSocketSeatEvent" where
  "seat_event randomUUID now correlationId payload =
     \<lparr>we_eventId = randomUUID, we_schemaVersion = WEBSOCKET_SEAT_EVENT_SCHEMA_VERSION,
      we_occurredAt = toISOString now, we_correlationId = correlationId, we_payload = payload\<rparr>"

text \<open>The rest of \<open>holdSeat\<close> once the lock script has answered.\<close>

definition answer_hold ::
  "('r, 'd) services \<Rightarrow> string \<Rightarrow> HoldSeatRequest \<Rightarrow> SeatLockExecution \<Rightarrow> (('r, 'd) world, HoldSeatResponse) proc" where
  "answer_hold svc randomUUID request execution =
     (if se_result execution = RInt 1 then
        (let record = hold_record request execution
         in await Date_now (\<lambda>now.
            await (publishSeatEvent svc (seat_event randomUUID now (hr_holdId record) (HeldRecord record))) (\<lambda>_.
            Ret (HoldSeatSuccess record))))
      else Ret (HoldSeatConflict ''Seat is currently unavailable or already held''))"

definition holdSeat ::
  "('r, 'd) services \<Rightarrow> (nat \<Rightarrow> string) \<Rightarrow> 'm HoldSeatPayload_scheme \<Rightarrow> (('r, 'd) world, HoldSeatResponse) proc" where
  "holdSeat svc uuid payload =
     await (sync (normalizeHoldRequest payload)) (\<lambda>request.
     await (open_seat svc request) (\<lambda>seat.
     await (acquireSeatHold svc (uuid 0) (rq_eventId request) (rq_seatId request) (rq_userId request)
              (Finite DEFAULT_HOLD_TTL_SECONDS)) (\<lambda>execution.
     answer_hold svc (uuid 1) request execution)))"

text \<open>The callback of the transaction of \<open>createOrder\<close>.\<close>

definition create_order_transaction ::
  "'d prisma_client \<Rightarrow> HoldSeatRequest \<Rightarrow> SeatLockExecution \<Rightarrow> 'd \<Rightarrow> 'd \<times> (exn + order_row)" where
  "create_order_transaction P request execution d =
     (case pc_seat_updateMany P (rq_seatId request) (rq_eventId request) AVAILABLE HELD d of
        (d1, Inl e) \<Rightarrow> (d1, Inl e)
      | (d1, Inr count) \<Rightarrow>
          (if count \<noteq> 1 then (d1, Inl (ConflictError ''Seat state changed before order creation''))
           else pc_order_create P
                  \<lparr>ord_holdId = se_holdId execution, ord_eventId = rq_eventId request,
                   ord_seatId = rq_seatId request, ord_userId = rq_userId request,
                   ord_expiresAt = se_expiresAt execution, ord_status = PROCESSING\<rparr> d1))"

definition order_payload :: "HoldSeatRequest \<Rightarrow> SeatLockExecution \<Rightarrow> order_row \<Rightarrow> OrderCreatedEventPayload" where
  "order_payload request execution order =
     \<lparr>oc_holdId = se_holdId execution, oc_orderId = ord_id order, oc_eventId = rq_eventId request,
      oc_seatId = rq_seatId request, oc_userId = rq_userId request,
      oc_expiresAt = toISOString (se_expiresAt execution)\<rparr>"

definition order_fields :: "string \<Rightarrow> int \<Rightarrow> OrderCreatedEventPayload \<Rightarrow> (string \<times> string) list" where
  "order_fields eventId now payload =
     [(''eventId'', eventId), (''eventType'', ORDER_EVENT_TYPE),
      (''schemaVersion'', show_int ORDER_EVENT_SCHEMA_VERSION), (''occurredAt'', toISOString now),
      (''payload'', stringify (order_payload_json payload))]"

text \<open>The rest of \<open>createOrder\<close> once the caller has the hold: transaction, seat event, stream entry.\<close>

definition place_order ::
  "('r, 'd) services \<Rightarrow> (nat \<Rightarrow> string) \<Rightarrow> HoldSeatRequest \<Rightarrow> SeatLockExecution \<Rightarrow>
   (('r, 'd) world, CreateOrderResponse) proc" where
  "place_order svc uuid request execution =
     await (db_do (pc_transaction_order (prisma svc)
              (create_order_transaction (prisma svc) request execution))) (\<lambda>order.
     await Date_now (\<lambda>now1.
     await (publishSeatEvent svc (seat_event (uuid 1) now1 (se_holdId execution)
              (Held (rq_eventId request) (rq_seatId request) (se_holdId execution)
                 (toISOString (se_expiresAt execution))))) (\<lambda>_.
     await Date_now (\<lambda>now2.
     await (redis_do (c_xadd (redis svc) ORDER_STREAM_KEY
              (order_fields (uuid 2) now2 (order_payload request execution order)))) (\<lambda>_.
     Ret \<lparr>co_orderId = ord_id order\<rparr>)))))"

definition createOrder ::
  "('r, 'd) services \<Rightarrow> (nat \<Rightarrow> string) \<Rightarrow> 'm HoldSeatPayload_scheme \<Rightarrow> (('r, 'd) world, CreateOrderResponse) proc" where
  "createOrder svc uuid payload =
     await (sync (normalizeHoldRequest payload)) (\<lambda>request.
     await (open_seat svc request) (\<lambda>seat.
     await (acquireSeatHold svc (uuid 0) (rq_eventId request) (rq_seatId request) (rq_userId request)
              (Finite DEFAULT_HOLD_TTL_SECONDS)) (\<lambda>execution.
     if se_result execution \<noteq> RInt 1
     then Throw (ConflictError ''Seat is currently unavailable or already held'')
     else place_order svc uuid request execution)))"

definition releaseSeat ::
  "('r, 'd) services \<Rightarrow> (nat \<Rightarrow> string) \<Rightarrow> ReleaseSeatRequest \<Rightarrow> (('r, 'd) world, ReleaseSeatResponse) proc" where
  "releaseSeat svc uuid payload =
     await (sync (normalizeHoldRequest payload)) (\<lambda>request.
     if length (js_trim (pl_holdId payload)) = 0 then Throw (BadRequestError ''holdId is required'')
     else
       await (db_read (pc_order_findUnique (prisma svc) (pl_holdId payload))) (\<lambda>existingOrder.
       if existingOrder \<noteq> None then Throw (ConflictError ''Seat hold is already associated with an order'')
       else
         await (releaseSeatHold svc (rq_eventId request) (rq_seatId request) (rq_userId request)
                  (pl_holdId payload)) (\<lambda>released.
         if \<not> released then Throw (ConflictError ''Seat hold is unavailable or owned by another user'')
         else
           await (db_do (pc_seat_updateMany (prisma svc) (rq_seatId request) (rq_eventId request) HELD AVAILABLE)) (\<lambda>_.
           await Date_now (\<lambda>now.
           await (publishSeatEvent svc (seat_event (uuid 0) now (pl_holdId payload)
                    (Released (rq_eventId request) (rq_seatId request) (pl_holdId payload) ''released''))) (\<lambda>_.
           Ret \<lparr>rel_eventId = rq_eventId request, rel_seatId = rq_seatId request,
                rel_holdId = pl_holdId payload\<rparr>))))))"

section \<open>Requests\<close>

lemma trimmed_member_idem: "js_trim (trimmed_member v) = trimmed_member v"
  by (cases "as_string v") (simp_all add: trimmed_member_def js_trim_idem, simp add: js_trim_def)

lemma normalize_Inr:
  "normalizeHoldRequest payload = Inr rq \<longleftrightarrow>
     rq = \<lparr>rq_eventId = trimmed_member (pl_eventId payload), rq_seatId = trimmed_member (pl_seatId payload),
           rq_userId = trimmed_member (pl_userId payload)\<rparr> \<and>
     rq_eventId rq \<noteq> [] \<and> rq_seatId rq \<noteq> [] \<and> rq_userId rq \<noteq> []"
  by (auto simp: normalizeHoldRequest_def Let_def)

lemma normalize_Inl:
  "normalizeHoldRequest payload = Inl e \<Longrightarrow>
     e = BadRequestError ''eventId, seatId, and userId are required''"
  by (auto simp: normalizeHoldRequest_def Let_def split: if_splits)

text \<open>The seat the request names exists and is not sold.\<close>

definition on_sale ::
  "('d \<Rightarrow> string \<Rightarrow> seat_row option) \<Rightarrow> ('d \<Rightarrow> string \<Rightarrow> event_row option) \<Rightarrow> HoldSeatRequest \<Rightarrow> 'd \<Rightarrow> bool" where
  "on_sale seats events rq d \<longleftrightarrow>
     events d (rq_eventId rq) \<noteq> None \<and>
     (\<exists>s. seats d (rq_seatId rq) = Some s \<and> seat_eventId s = rq_eventId rq \<and> seat_status s \<noteq> SOLD)"

text \<open>The key of the requested seat, and the well-formedness of every seat key.\<close>

abbreviation request_key :: "HoldSeatRequest \<Rightarrow> string" where
  "request_key rq \<equiv> seatLockKey (rq_eventId rq) (rq_seatId rq)"

definition seat_keys_ok :: "'r redis_server \<Rightarrow> ('r, 'd) world \<Rightarrow> bool" where
  "seat_keys_ok S w \<longleftrightarrow> (\<forall>ev sid. well_held S (seatLockKey ev sid) (w_redis w))"

text \<open>The database after the transaction of \<open>createOrder\<close>: seat held, order recorded.\<close>

definition order_placed ::
  "('d \<Rightarrow> string \<Rightarrow> seat_row option) \<Rightarrow> ('d \<Rightarrow> string \<Rightarrow> order_row option) \<Rightarrow> ('d \<Rightarrow> string \<Rightarrow> event_row option) \<Rightarrow>
   HoldSeatRequest \<Rightarrow> string \<Rightarrow> int \<Rightarrow> order_row \<Rightarrow> 'd \<Rightarrow> 'd \<Rightarrow> bool" where
  "order_placed seats orders events rq hold expires row d d' \<longleftrightarrow>
     (\<exists>s. seats d (rq_seatId rq) = Some s \<and> seat_eventId s = rq_eventId rq \<and> seat_status s = AVAILABLE \<and>
        seats d' = (seats d)(rq_seatId rq \<mapsto> s\<lparr>seat_status := HELD\<rparr>)) \<and>
     orders d hold = None \<and> orders d' = (orders d)(hold \<mapsto> row) \<and> events d' = events d \<and>
     order_data.truncate row = \<lparr>ord_holdId = hold, ord_eventId = rq_eventId rq, ord_seatId = rq_seatId rq,
        ord_userId = rq_userId rq, ord_expiresAt = expires, ord_status = PROCESSING\<rparr>"

text \<open>A successful attempt, as the handlers see it.\<close>

definition hold_taken ::
  "'r redis_server \<Rightarrow> (string \<Rightarrow> 'r \<Rightarrow> nat option) \<Rightarrow> HoldSeatRequest \<Rightarrow> string \<Rightarrow> 'r \<Rightarrow> 'r \<Rightarrow> bool" where
  "hold_taken S pttl rq hold r r' \<longleftrightarrow>
     GET S (request_key rq) r = None \<and> held_by S (request_key rq) (rq_userId rq) hold r' \<and>
     pttl (request_key rq) r' = Some 600000 \<and>
     (\<forall>k. k \<noteq> request_key rq \<longrightarrow> GET S k r' = GET S k r)"

text \<open>One more entry at the end of the stream, handed to nobody yet.\<close>

definition stream_appended ::
  "('r \<Rightarrow> stream_entry list) \<Rightarrow> ('r \<Rightarrow> string list option) \<Rightarrow> (string \<times> string) list \<Rightarrow> 'r \<Rightarrow> 'r \<Rightarrow> bool" where
  "stream_appended entries undelivered fs r r' \<longleftrightarrow>
     (\<exists>i. i \<notin> fst ` set (entries r) \<and> entries r' = entries r @ [(i, fs)] \<and>
        undelivered r' = map_option (\<lambda>u. u @ [i]) (undelivered r))"

text \<open>The seat row after a release: held becomes available, anything else stays.\<close>

definition seat_reopened ::
  "('d \<Rightarrow> string \<Rightarrow> seat_row option) \<Rightarrow> ('d \<Rightarrow> string \<Rightarrow> order_row option) \<Rightarrow> HoldSeatRequest \<Rightarrow> 'd \<Rightarrow> 'd \<Rightarrow> bool" where
  "seat_reopened seats orders rq d d' \<longleftrightarrow>
     orders d' = orders d \<and>
     seats d' =
       (case seats d (rq_seatId rq) of
          Some s \<Rightarrow>
            if seat_eventId s = rq_eventId rq \<and> seat_status s = HELD
            then (seats d)(rq_seatId rq \<mapsto> s\<lparr>seat_status := AVAILABLE\<rparr>) else seats d
        | None \<Rightarrow> seats d)"

section \<open>Steps of the handlers\<close>

context engine begin

lemma open_seat_run:
  assumes "run (open_seat svc rq) w = (w', x)"
  shows "w' = w \<and>
    (case x of Inr s \<Rightarrow> on_sale seats events rq (w_db w) \<and> seats (w_db w) (rq_seatId rq) = Some s | Inl e \<Rightarrow> True)"
proof -
  obtain y where y: "pc_event_with_seat (prisma svc) (rq_eventId rq) (rq_seatId rq) (w_db w) = y" by blast
  show ?thesis
  proof (cases y)
    case (Inr found)
    with event_with_seat [OF y [unfolded Inr]] assms y show ?thesis
      by (auto simp: open_seat_def run_simps on_sale_def split: option.splits if_splits list.splits)
  qed (use assms y in \<open>auto simp: open_seat_def run_simps\<close>)
qed

lemma publish_run:
  assumes "run (publishSeatEvent svc event) w = (w', x)"
  shows "x = Inr () \<and> same_back_end S pttl entries undelivered pending w w' \<and> sent_at_most event w w'"
proof -
  obtain w1 y where "run (adapter_publishSeatEvent svc event) w = (w1, y)" by force
  with adapter_publish_run [OF this] assms show ?thesis
    by (auto simp: publishSeatEvent_def run_simps split: sum.splits)
qed

lemma lock_executed_state:
  "fst (lock_executed S k u h ttl r) = r \<or> (\<exists>v. fst (lock_executed S k u h ttl r) = SET_EX S k v ttl r)"
  by (auto simp: lock_executed_def Let_def split: option.splits if_splits sum.splits)

lemma acquire_frame:
  assumes "registered svc sha1 w" and "run (acquireSeatHold svc h ev sid user ttl) w = (w', x)"
  shows "\<exists>r'. w' = w\<lparr>w_redis := r'\<rparr> \<and> entries r' = entries (w_redis w) \<and>
    undelivered r' = undelivered (w_redis w) \<and> pending r' = pending (w_redis w)"
proof -
  obtain r' where w': "w' = w\<lparr>w_redis := r'\<rparr>" and r': "r' = w_redis w \<or>
      r' = fst (lock_executed S (seatLockKey ev sid) user h (effective_ttl ttl) (w_redis w))"
    using acquire_run [OF assms] by (cases x) (auto simp: fst_conv)
  with lock_executed_state set_ex_streams [OF seatLockKey_not_stream] show ?thesis by metis
qed

lemma create_order_committed:
  assumes "pc_transaction_order (prisma svc) (create_order_transaction (prisma svc) rq ex) d = (d', Inr row)"
  shows "order_placed seats orders events rq (se_holdId ex) (se_expiresAt ex) row d d'"
proof -
  have body: "create_order_transaction (prisma svc) rq ex d = (d', Inr row)"
    using transaction_order [OF assms] by auto
  then obtain d1 where upd: "pc_seat_updateMany (prisma svc) (rq_seatId rq) (rq_eventId rq) AVAILABLE HELD d = (d1, Inr 1)"
    and cr: "pc_order_create (prisma svc) \<lparr>ord_holdId = se_holdId ex, ord_eventId = rq_eventId rq,
        ord_seatId = rq_seatId rq, ord_userId = rq_userId rq, ord_expiresAt = se_expiresAt ex,
        ord_status = PROCESSING\<rparr> d1 = (d', Inr row)"
    by (auto simp: create_order_transaction_def split: prod.splits sum.splits if_splits)
  from seat_update [OF upd] order_create [OF cr] show ?thesis
    by (auto simp: order_placed_def split: option.splits if_splits)
qed

lemma create_order_rejected:
  "pc_transaction_order (prisma svc) (create_order_transaction (prisma svc) rq ex) d = (d', Inl e) \<Longrightarrow> d' = d"
  by (drule transaction_order) auto


section \<open>What the handlers do\<close>

lemma acquire_answer:
  assumes "registered svc sha1 w" and "seat_keys_ok S w"
    and "run (acquireSeatHold svc h (rq_eventId rq) (rq_seatId rq) (rq_userId rq)
        (Finite DEFAULT_HOLD_TTL_SECONDS)) w = (w', Inr ex)"
  shows "se_holdId ex = h \<and> se_expiresAt ex = w_clock w + 600000 \<and>
    (if se_result ex = RInt 1 then hold_taken S pttl rq h (w_redis w) (w_redis w')
     else GET S (request_key rq) (w_redis w) \<noteq> None \<and> w' = w) \<and>
    w' = w\<lparr>w_redis := w_redis w'\<rparr> \<and> entries (w_redis w') = entries (w_redis w) \<and>
    undelivered (w_redis w') = undelivered (w_redis w) \<and> pending (w_redis w') = pending (w_redis w)"
proof -
  have wh: "well_held S (request_key rq) (w_redis w)" using assms(2) by (simp add: seat_keys_ok_def)
  have ttl: "effective_ttl (Finite DEFAULT_HOLD_TTL_SECONDS) = 600"
    by (simp add: effective_ttl_def DEFAULT_HOLD_TTL_SECONDS_def)
  have "se_expiresAt ex = w_clock w + 600000"
    using acquire_run [OF assms(1,3)] ttl by (auto dest: arg_cong [of ex _ se_expiresAt])
  moreover note acquire_returns [OF assms(1) wh assms(3)] acquire_frame [OF assms(1,3)] ttl
  ultimately show ?thesis by (auto simp: hold_taken_def split: if_splits)
qed

lemma answer_hold_run:
  assumes "run (answer_hold svc i rq ex) w = (w', x)"
  shows "if se_result ex = RInt 1
    then x = Inr (HoldSeatSuccess (hold_record rq ex)) \<and> same_back_end S pttl entries undelivered pending w w' \<and>
      sent_at_most (seat_event i (w_clock w) (se_holdId ex) (HeldRecord (hold_record rq ex))) w w'
    else x = Inr (HoldSeatConflict ''Seat is currently unavailable or already held'') \<and> w' = w"
proof (cases "se_result ex = RInt 1")
  case True
  let ?ev = "seat_event i (w_clock w) (hr_holdId (hold_record rq ex)) (HeldRecord (hold_record rq ex))"
  obtain w1 y where p: "run (publishSeatEvent svc ?ev) w = (w1, y)" by force
  with True assms publish_run [OF p] show ?thesis
    by (simp add: answer_hold_def Let_def run_await run_Date_now) (simp add: hold_record_def)
qed (use assms in \<open>simp add: answer_hold_def\<close>)

lemma holdSeat_returns:
  assumes "registered svc sha1 w" and "seat_keys_ok S w"
    and "run (holdSeat svc uuid payload) w = (w', Inr answer)"
  shows "\<exists>rq. normalizeHoldRequest payload = Inr rq \<and> on_sale seats events rq (w_db w) \<and>
    (case answer of
       HoldSeatConflict m \<Rightarrow> GET S (request_key rq) (w_redis w) \<noteq> None \<and> w' = w
     | HoldSeatSuccess record \<Rightarrow>
         hold_taken S pttl rq (uuid 0) (w_redis w) (w_redis w') \<and>
         w_db w' = w_db w \<and> entries (w_redis w') = entries (w_redis w) \<and>
         record = \<lparr>hr_holdId = uuid 0, hr_eventId = rq_eventId rq, hr_seatId = rq_seatId rq,
           hr_userId = rq_userId rq, hr_expiresAt = toISOString (w_clock w + 600000)\<rparr> \<and>
         sent_at_most (seat_event (uuid 1) (w_clock w) (uuid 0) (HeldRecord record)) w w')"
proof -
  from assms(3) obtain rq s w0 w1 ex where rq: "normalizeHoldRequest payload = Inr rq"
    and look0: "run (open_seat svc rq) w = (w0, Inr s)"
    and acq0: "run (acquireSeatHold svc (uuid 0) (rq_eventId rq) (rq_seatId rq) (rq_userId rq)
        (Finite DEFAULT_HOLD_TTL_SECONDS)) w0 = (w1, Inr ex)"
    and rest: "run (answer_hold svc (uuid 1) rq ex) w1 = (w', Inr answer)"
    by (auto simp: holdSeat_def run_await_Inr run_sync)
  note look = open_seat_run [OF look0]
  from look acq0 have acq: "run (acquireSeatHold svc (uuid 0) (rq_eventId rq) (rq_seatId rq) (rq_userId rq)
        (Finite DEFAULT_HOLD_TTL_SECONDS)) w = (w1, Inr ex)" by simp
  note ans = acquire_answer [OF assms(1,2) acq]
  then have same: "w_db w1 = w_db w" "w_clock w1 = w_clock w" "w_sent w1 = w_sent w"
    by (metis world.select_convs world.surjective world.update_convs(1))+
  show ?thesis
  proof (cases "se_result ex = RInt 1")
    case True
    with answer_hold_run [OF rest] ans same look rq show ?thesis
      by (auto simp: hold_taken_def same_back_end_def sent_at_most_def hold_record_def held_by_def)
  next
    case False
    with answer_hold_run [OF rest] ans look rq show ?thesis by auto
  qed
qed

text \<open>The fields of the stream entry of an order.\<close>

abbreviation placed_fields :: "(nat \<Rightarrow> string) \<Rightarrow> HoldSeatRequest \<Rightarrow> SeatLockExecution \<Rightarrow> int \<Rightarrow> order_row \<Rightarrow> (string \<times> string) list" where
  "placed_fields uuid rq ex now row \<equiv> order_fields (uuid 2) now (order_payload rq ex row)"

lemma place_order_run:
  assumes "run (place_order svc uuid rq ex) w = (w', x)"
  shows "(\<exists>e. x = Inl e \<and> w' = w) \<or>
    (\<exists>row. order_placed seats orders events rq (se_holdId ex) (se_expiresAt ex) row (w_db w) (w_db w') \<and>
      (\<forall>k. GET S k (w_redis w') = GET S k (w_redis w)) \<and> (\<forall>k. pttl k (w_redis w') = pttl k (w_redis w)) \<and>
      pending (w_redis w') = pending (w_redis w) \<and>
      (x = Inr \<lparr>co_orderId = ord_id row\<rparr> \<and>
         stream_appended entries undelivered (placed_fields uuid rq ex (w_clock w) row) (w_redis w) (w_redis w') \<or>
       (\<exists>e. x = Inl e) \<and>
         (entries (w_redis w') = entries (w_redis w) \<and> undelivered (w_redis w') = undelivered (w_redis w) \<or>
          stream_appended entries undelivered (placed_fields uuid rq ex (w_clock w) row) (w_redis w) (w_redis w'))))"
proof -
  obtain d y where tx: "pc_transaction_order (prisma svc) (create_order_transaction (prisma svc) rq ex) (w_db w) = (d, y)"
    by force
  show ?thesis
  proof (cases y)
    case (Inl e)
    with tx create_order_rejected [of rq ex "w_db w" d e] assms show ?thesis
      by (auto simp: place_order_def run_await run_db_do)
  next
    case (Inr row)
    let ?w1 = "w\<lparr>w_db := d\<rparr>"
    let ?ev = "seat_event (uuid 1) (w_clock w) (se_holdId ex) (Held (rq_eventId rq) (rq_seatId rq) (se_holdId ex)
                   (toISOString (se_expiresAt ex)))"
    note placed = create_order_committed [OF tx [unfolded Inr]]
    obtain w2 z where pub: "run (publishSeatEvent svc ?ev) ?w1 = (w2, z)" by force
    note p = publish_run [OF pub]
    then have clock: "w_clock w2 = w_clock w" and db: "w_db w2 = d" by (auto simp: same_back_end_def)
    obtain r3 a where xa: "c_xadd (redis svc) ORDER_STREAM_KEY (placed_fields uuid rq ex (w_clock w) row) (w_redis w2) = (r3, a)"
      by force
    have res: "w' = w2\<lparr>w_redis := r3\<rparr>" "x = (case a of Inl e \<Rightarrow> Inl e | Inr _ \<Rightarrow> Inr \<lparr>co_orderId = ord_id row\<rparr>)"
      using assms tx Inr pub p xa clock
      by (auto simp: place_order_def run_await run_db_do run_Date_now run_redis_do split: sum.splits)
    from xadd_remote [OF xa] p res placed db show ?thesis
      by (intro disjI2 exI [of _ row])
         (cases a; auto simp: same_back_end_def stream_appended_def)
  qed
qed

lemma createOrder_returns:
  assumes "registered svc sha1 w" and "seat_keys_ok S w"
    and "run (createOrder svc uuid payload) w = (w', Inr answer)"
  shows "\<exists>rq row. normalizeHoldRequest payload = Inr rq \<and> on_sale seats events rq (w_db w) \<and>
    hold_taken S pttl rq (uuid 0) (w_redis w) (w_redis w') \<and>
    order_placed seats orders events rq (uuid 0) (w_clock w + 600000) row (w_db w) (w_db w') \<and>
    answer = \<lparr>co_orderId = ord_id row\<rparr> \<and>
    stream_appended entries undelivered
      (order_fields (uuid 2) (w_clock w)
        \<lparr>oc_holdId = uuid 0, oc_orderId = ord_id row, oc_eventId = rq_eventId rq, oc_seatId = rq_seatId rq,
         oc_userId = rq_userId rq, oc_expiresAt = toISOString (w_clock w + 600000)\<rparr>)
      (w_redis w) (w_redis w')"
proof -
  from assms(3) obtain rq s w0 w1 ex where rq: "normalizeHoldRequest payload = Inr rq"
    and look0: "run (open_seat svc rq) w = (w0, Inr s)"
    and acq0: "run (acquireSeatHold svc (uuid 0) (rq_eventId rq) (rq_seatId rq) (rq_userId rq)
        (Finite DEFAULT_HOLD_TTL_SECONDS)) w0 = (w1, Inr ex)"
    and won: "se_result ex = RInt 1" and rest: "run (place_order svc uuid rq ex) w1 = (w', Inr answer)"
    by (auto simp: createOrder_def run_await_Inr run_sync split: if_splits)
  note look = open_seat_run [OF look0]
  from look acq0 have acq: "run (acquireSeatHold svc (uuid 0) (rq_eventId rq) (rq_seatId rq) (rq_userId rq)
        (Finite DEFAULT_HOLD_TTL_SECONDS)) w = (w1, Inr ex)" by simp
  note ans = acquire_answer [OF assms(1,2) acq]
  then have same: "w_db w1 = w_db w" "w_clock w1 = w_clock w"
    by (metis world.select_convs world.surjective world.update_convs(1))+
  from place_order_run [OF rest] obtain row
    where "order_placed seats orders events rq (uuid 0) (w_clock w + 600000) row (w_db w) (w_db w')"
      "\<forall>k. GET S k (w_redis w') = GET S k (w_redis w1)" "\<forall>k. pttl k (w_redis w') = pttl k (w_redis w1)"
      "answer = \<lparr>co_orderId = ord_id row\<rparr>"
      "stream_appended entries undelivered (placed_fields uuid rq ex (w_clock w) row) (w_redis w1) (w_redis w')"
    using ans same by auto
  with rq look ans won show ?thesis
    by (intro exI [of _ rq] exI [of _ row])
       (auto simp: hold_taken_def stream_appended_def held_by_def order_payload_def)
qed

lemma holdSeat_digests:
  assumes "run (holdSeat svc uuid payload) w = (w', Inr answer)" and "registered svc sha1 w"
  shows "w_digests w' = w_digests w"
proof -
  from assms(1) obtain rq s w0 w1 ex where look: "run (open_seat svc rq) w = (w0, Inr s)"
    and acq: "run (acquireSeatHold svc (uuid 0) (rq_eventId rq) (rq_seatId rq) (rq_userId rq)
        (Finite DEFAULT_HOLD_TTL_SECONDS)) w0 = (w1, Inr ex)"
    and rest: "run (answer_hold svc (uuid 1) rq ex) w1 = (w', Inr answer)"
    by (auto simp: holdSeat_def run_await_Inr run_sync)
  from open_seat_run [OF look] acquire_frame [OF _ acq] assms(2) answer_hold_run [OF rest] show ?thesis
    by (auto simp: same_back_end_def split: if_splits)
qed

lemma createOrder_pending:
  assumes "registered svc sha1 w" and "seat_keys_ok S w"
    and "run (createOrder svc uuid payload) w = (w', Inr answer)"
  shows "pending (w_redis w') = pending (w_redis w)"
proof -
  from assms(3) obtain rq s w0 w1 ex where look: "run (open_seat svc rq) w = (w0, Inr s)"
    and acq: "run (acquireSeatHold svc (uuid 0) (rq_eventId rq) (rq_seatId rq) (rq_userId rq)
        (Finite DEFAULT_HOLD_TTL_SECONDS)) w0 = (w1, Inr ex)"
    and rest: "run (place_order svc uuid rq ex) w1 = (w', Inr answer)"
    by (auto simp: createOrder_def run_await_Inr run_sync split: if_splits)
  from open_seat_run [OF look] acquire_frame [OF _ acq] assms(1) place_order_run [OF rest] show ?thesis by auto
qed

text \<open>Every way \<open>createOrder\<close> can fail, by what it leaves behind.\<close>

lemma createOrder_fails:
  assumes "registered svc sha1 w" and "seat_keys_ok S w"
    and "run (createOrder svc uuid payload) w = (w', Inl e)"
  shows "w' = w \<or>
    (\<exists>rq. normalizeHoldRequest payload = Inr rq \<and> GET S (request_key rq) (w_redis w) = None \<and>
      held_by S (request_key rq) (rq_userId rq) (uuid 0) (w_redis w') \<and>
      (\<forall>k. k \<noteq> request_key rq \<longrightarrow> GET S k (w_redis w') = GET S k (w_redis w)) \<and>
      (w_db w' = w_db w \<and> entries (w_redis w') = entries (w_redis w) \<or>
       (\<exists>row. order_placed seats orders events rq (uuid 0) (w_clock w + 600000) row (w_db w) (w_db w') \<and>
         (entries (w_redis w') = entries (w_redis w) \<or>
          (\<exists>fs. stream_appended entries undelivered fs (w_redis w) (w_redis w'))))))"
proof (cases "normalizeHoldRequest payload")
  case (Inl e)
  with assms(3) show ?thesis by (simp add: createOrder_def run_await run_sync)
next
  case (Inr rq)
  obtain w0 y where look0: "run (open_seat svc rq) w = (w0, y)" by force
  note look = open_seat_run [OF this]
  show ?thesis
  proof (cases y)
    case (Inl e)
    with assms(3) look look0 Inr show ?thesis by (simp add: createOrder_def run_await run_sync)
  next
    case (Inr s)
    obtain w1 z where acq: "run (acquireSeatHold svc (uuid 0) (rq_eventId rq) (rq_seatId rq) (rq_userId rq)
        (Finite DEFAULT_HOLD_TTL_SECONDS)) w = (w1, z)" by force
    note frame = acquire_frame [OF assms(1) acq]
    show ?thesis
    proof (cases z)
      case (Inl e')
      have "well_held S (request_key rq) (w_redis w)" using assms(2) by (simp add: seat_keys_ok_def)
      from acquire_failure [OF assms(1) this acq [unfolded Inl]] frame assms(3) look look0 acq Inl Inr
        \<open>normalizeHoldRequest payload = Inr rq\<close> show ?thesis
        by (auto simp: createOrder_def run_await run_sync)
    next
      case (Inr ex)
      note ans = acquire_answer [OF assms(1,2) acq [unfolded Inr]]
      then have same: "w_db w1 = w_db w" "w_clock w1 = w_clock w"
        by (metis world.select_convs world.surjective world.update_convs(1))+
      show ?thesis
      proof (cases "se_result ex = RInt 1")
        case False
        with assms(3) look look0 acq Inr \<open>y = Inr s\<close> \<open>normalizeHoldRequest payload = Inr rq\<close> ans show ?thesis
          by (auto simp: createOrder_def run_await run_sync)
      next
        case True
        with assms(3) look look0 acq Inr \<open>y = Inr s\<close> \<open>normalizeHoldRequest payload = Inr rq\<close>
        have "run (place_order svc uuid rq ex) w1 = (w', Inl e)"
          by (auto simp: createOrder_def run_await run_sync)
        from place_order_run [OF this] ans same True \<open>normalizeHoldRequest payload = Inr rq\<close> show ?thesis
          by (intro disjI2 exI [of _ rq]) (auto simp: hold_taken_def held_by_def stream_appended_def)
      qed
    qed
  qed
qed

lemma release_executed_state:
  "fst (release_executed S k u h r) = r \<or> fst (release_executed S k u h r) = fst (DEL S k r)"
  by (auto simp: release_executed_def split: option.splits sum.splits prod.splits)

lemma release_frame:
  assumes "registered svc sha1 w" and "run (releaseSeatHold svc ev sid user h) w = (w', x)"
  shows "\<exists>r'. w' = w\<lparr>w_redis := r'\<rparr> \<and> entries r' = entries (w_redis w) \<and>
    undelivered r' = undelivered (w_redis w) \<and> pending r' = pending (w_redis w)"
proof -
  obtain r' where w': "w' = w\<lparr>w_redis := r'\<rparr>" and r': "r' = w_redis w \<or>
      r' = fst (release_executed S (seatLockKey ev sid) user h (w_redis w))"
    using release_run [OF assms] by (cases x) (auto simp: fst_conv)
  have "r' = w_redis w \<or> r' = fst (DEL S (seatLockKey ev sid) (w_redis w))"
    using r' release_executed_state by metis
  with w' del_streams [OF seatLockKey_not_stream] show ?thesis by (metis prod.collapse)
qed

lemma releaseSeat_returns:
  assumes "registered svc sha1 w" and "seat_keys_ok S w"
    and "run (releaseSeat svc uuid payload) w = (w', Inr answer)"
  shows "\<exists>rq. normalizeHoldRequest payload = Inr rq \<and> orders (w_db w) (pl_holdId payload) = None \<and>
    held_by S (request_key rq) (rq_userId rq) (pl_holdId payload) (w_redis w) \<and>
    (\<forall>k. GET S k (w_redis w') = (if k = request_key rq then None else GET S k (w_redis w))) \<and>
    seat_reopened seats orders rq (w_db w) (w_db w') \<and> entries (w_redis w') = entries (w_redis w) \<and>
    answer = \<lparr>rel_eventId = rq_eventId rq, rel_seatId = rq_seatId rq, rel_holdId = pl_holdId payload\<rparr>"
proof -
  from assms(3) obtain rq w1 w2 cnt w3 where rq: "normalizeHoldRequest payload = Inr rq"
    and look: "pc_order_findUnique (prisma svc) (pl_holdId payload) (w_db w) = Inr None"
    and rel: "run (releaseSeatHold svc (rq_eventId rq) (rq_seatId rq) (rq_userId rq) (pl_holdId payload)) w = (w1, Inr True)"
    and upd: "run (db_do (pc_seat_updateMany (prisma svc) (rq_seatId rq) (rq_eventId rq) HELD AVAILABLE)) w1 = (w2, Inr cnt)"
    and pub: "run (publishSeatEvent svc (seat_event (uuid 0) (w_clock w2) (pl_holdId payload)
          (Released (rq_eventId rq) (rq_seatId rq) (pl_holdId payload) ''released''))) w2 = (w3, Inr ())"
    and res: "w' = w3" "answer = \<lparr>rel_eventId = rq_eventId rq, rel_seatId = rq_seatId rq, rel_holdId = pl_holdId payload\<rparr>"
    by (auto simp: releaseSeat_def run_await_Inr run_sync run_db_read run_Date_now split: if_splits)
  have wh: "well_held S (request_key rq) (w_redis w)" using assms(2) by (simp add: seat_keys_ok_def)
  note rel' = release_returns [OF assms(1) wh rel]
  obtain r1 where w1: "w1 = w\<lparr>w_redis := r1\<rparr>" "entries r1 = entries (w_redis w)"
    using release_frame [OF assms(1) rel] by auto
  obtain d2 where w2: "w2 = w1\<lparr>w_db := d2\<rparr>"
    and d2: "pc_seat_updateMany (prisma svc) (rq_seatId rq) (rq_eventId rq) HELD AVAILABLE (w_db w1) = (d2, Inr cnt)"
    using upd by (auto simp: run_db_do split: prod.splits)
  have "seat_reopened seats orders rq (w_db w) d2"
    using seat_update [OF d2] w1 by (auto simp: seat_reopened_def split: option.splits if_splits)
  with rq order_findUnique [OF look] rel' w1 w2 publish_run [OF pub] res show ?thesis
    by (auto simp: same_back_end_def)
qed

text \<open>Every way \<open>releaseSeat\<close> can fail: nothing happened, or the hold of the caller is gone and
  the seat row was not reached.\<close>

lemma releaseSeat_fails:
  assumes "registered svc sha1 w" and "seat_keys_ok S w"
    and "run (releaseSeat svc uuid payload) w = (w', Inl e)"
  shows "w' = w \<or>
    (\<exists>rq. normalizeHoldRequest payload = Inr rq \<and> orders (w_db w) (pl_holdId payload) = None \<and>
      held_by S (request_key rq) (rq_userId rq) (pl_holdId payload) (w_redis w) \<and>
      (\<forall>k. GET S k (w_redis w') = (if k = request_key rq then None else GET S k (w_redis w))) \<and>
      w_db w' = w_db w)"
proof (cases "normalizeHoldRequest payload")
  case (Inl e)
  with assms(3) show ?thesis by (simp add: releaseSeat_def run_await run_sync)
next
  case (Inr rq)
  let ?k = "request_key rq" and ?h = "pl_holdId payload"
  obtain f where look: "pc_order_findUnique (prisma svc) ?h (w_db w) = f" by blast
  show ?thesis
  proof (cases "f = Inr None \<and> js_trim ?h \<noteq> []")
    case False
    with assms(3) Inr look show ?thesis
      by (auto simp: releaseSeat_def run_await run_sync run_db_read split: sum.splits if_splits)
  next
    case True
    then have no_order: "orders (w_db w) ?h = None" using order_findUnique look by fastforce
    obtain w1 z where rel: "run (releaseSeatHold svc (rq_eventId rq) (rq_seatId rq) (rq_userId rq) ?h) w = (w1, z)"
      by force
    have wh: "well_held S ?k (w_redis w)" using assms(2) by (simp add: seat_keys_ok_def)
    obtain r1 where w1: "w1 = w\<lparr>w_redis := r1\<rparr>" using release_frame [OF assms(1) rel] by auto
    show ?thesis
    proof (cases z)
      case (Inl e')
      with assms(3) Inr look True rel have "w' = w1"
        by (auto simp: releaseSeat_def run_await run_sync run_db_read)
      moreover note release_failure [OF assms(1) wh rel [unfolded Inl]]
      ultimately show ?thesis using w1 \<open>normalizeHoldRequest payload = Inr rq\<close> no_order by auto
    next
      case (Inr b)
      note rel' = release_returns [OF assms(1) wh rel [unfolded Inr]]
      obtain d2 y where upd: "pc_seat_updateMany (prisma svc) (rq_seatId rq) (rq_eventId rq) HELD AVAILABLE (w_db w1) = (d2, y)"
        by force
      show ?thesis
      proof (cases b)
        case False
        with assms(3) \<open>normalizeHoldRequest payload = Inr rq\<close> look True rel Inr rel' show ?thesis
          by (auto simp: releaseSeat_def run_await run_sync run_db_read)
      next
        case b: True
        let ?ev = "seat_event (uuid 0) (w_clock w) ?h (Released (rq_eventId rq) (rq_seatId rq) ?h ''released'')"
        obtain w3 p where pub: "run (publishSeatEvent svc ?ev) (w1\<lparr>w_db := d2\<rparr>) = (w3, p)" by force
        obtain e' where "y = Inl e'" and "w' = w1\<lparr>w_db := d2\<rparr>"
          using assms(3) \<open>normalizeHoldRequest payload = Inr rq\<close> look True rel Inr b upd pub publish_run [OF pub] w1
          by (cases y) (auto simp: releaseSeat_def run_await run_sync run_db_read run_db_do run_Date_now)
        with upd seat_update_fail have "w' = w1" using w1 by fastforce
        with b rel' w1 no_order \<open>normalizeHoldRequest payload = Inr rq\<close> show ?thesis by auto
      qed
    qed
  qed
qed

end

text \<open>
  The answer to a request that must not reach the lock: an invalid payload, an unknown
  event, a seat that is not the event's, a sold seat.
\<close>

definition rejection ::
  "('d \<Rightarrow> string \<Rightarrow> seat_row option) \<Rightarrow> ('d \<Rightarrow> string \<Rightarrow> event_row option) \<Rightarrow> 'm HoldSeatPayload_scheme \<Rightarrow> 'd \<Rightarrow> exn option" where
  "rejection seats events payload d =
     (case normalizeHoldRequest payload of
        Inl e \<Rightarrow> Some e
      | Inr rq \<Rightarrow>
          (if events d (rq_eventId rq) = None then Some (NotFoundError ''Event not found'')
           else
             (case seats d (rq_seatId rq) of
                None \<Rightarrow> Some (NotFoundError ''Seat not found for the event'')
              | Some s \<Rightarrow>
                  (if seat_eventId s \<noteq> rq_eventId rq then Some (NotFoundError ''Seat not found for the event'')
                   else if seat_status s = SOLD then Some (ConflictError ''Seat already sold'')
                   else None))))"

context engine begin

lemma rejected:
  assumes "rejection seats events payload (w_db w) = Some e"
    and "\<And>ev sid. isInr (pc_event_with_seat (prisma svc) ev sid (w_db w))"
  shows "run (holdSeat svc uuid payload) w = (w, Inl e)" and "run (createOrder svc uuid payload) w = (w, Inl e)"
proof -
  have "normalizeHoldRequest payload = Inl e \<or>
    (\<exists>rq. normalizeHoldRequest payload = Inr rq \<and> run (open_seat svc rq) w = (w, Inl e))"
  proof (cases "normalizeHoldRequest payload")
    case (Inl e')
    with assms(1) show ?thesis by (simp add: rejection_def)
  next
    case (Inr rq)
    obtain found where f: "pc_event_with_seat (prisma svc) (rq_eventId rq) (rq_seatId rq) (w_db w) = Inr found"
      using assms(2) [of "rq_eventId rq" "rq_seatId rq"] by (auto elim: isInr_E)
    from event_with_seat [OF f] f assms(1) Inr show ?thesis
      by (auto simp: rejection_def open_seat_def run_await run_db_read split: option.splits if_splits)
  qed
  then show "run (holdSeat svc uuid payload) w = (w, Inl e)" "run (createOrder svc uuid payload) w = (w, Inl e)"
    by (auto simp: holdSeat_def createOrder_def run_await run_sync)
qed

lemma createOrder_taken:
  assumes "registered svc sha1 w" and "seat_keys_ok S w" and "normalizeHoldRequest payload = Inr rq"
    and "GET S (request_key rq) (w_redis w) \<noteq> None"
  shows "\<exists>e. run (createOrder svc uuid payload) w = (w, Inl e)"
proof -
  obtain w' x where r: "run (createOrder svc uuid payload) w = (w', x)" by force
  show ?thesis
  proof (cases x)
    case (Inl e)
    from createOrder_fails [OF assms(1,2) r [unfolded Inl]] assms(3,4) r Inl show ?thesis by auto
  next
    case (Inr a)
    from createOrder_returns [OF assms(1,2) r [unfolded Inr]] assms(3,4) show ?thesis
      by (auto simp: hold_taken_def)
  qed
qed

end

section \<open>The handlers on the reference store\<close>

definition ref_payload :: "string \<Rightarrow> string \<Rightarrow> string \<Rightarrow> HoldSeatPayload" where
  "ref_payload ev sid user = \<lparr>pl_eventId = Some (JStr ev), pl_seatId = Some (JStr sid), pl_userId = Some (JStr user)\<rparr>"

abbreviation ref_request :: "HoldSeatRequest" where
  "ref_request \<equiv> \<lparr>rq_eventId = ''ev'', rq_seatId = ''s1'', rq_userId = ''u1''\<rparr>"

lemma ref_normalize: "normalizeHoldRequest (ref_payload ''ev'' ''s1'' ''u1'') = Inr ref_request"
  by code_simp

lemma ref_open_seat:
  "run (open_seat ref_services ref_request) ref_world = (ref_world, Inr (ref_seat ''s1'' AVAILABLE))"
  by (simp add: open_seat_def run_simps ref_prisma_def ref_db0_def ref_seats_def ref_seat_def)

lemma ref_publish:
  "\<exists>sent. run (publishSeatEvent ref_services event) w = (w\<lparr>w_sent := sent\<rparr>, Inr ())"
proof (cases "w_adapter_connected w")
  case True
  have "w\<lparr>w_redis := w_redis w, w_sent := s\<rparr> = w\<lparr>w_sent := s\<rparr>" for s by simp
  with True show ?thesis
    by (auto simp: publishSeatEvent_def adapter_publishSeatEvent_def run_simps Let_def ref_client_def
        simp del: stringify.simps)
next
  case False
  have "w = w\<lparr>w_sent := w_sent w\<rparr>" by simp
  with False show ?thesis
    by (auto simp: publishSeatEvent_def adapter_publishSeatEvent_def run_simps intro: exI [of _ "w_sent w"])
qed

lemma ref_seat_keys_ok [simp]: "seat_keys_ok ref_server ref_world"
  by (simp add: seat_keys_ok_def well_held_free)

lemma ref_first_hold:
  assumes "rs_cached (w_redis w)" and "w_digests w = w_digests ref_world"
    and "ref_get (seatLockKey ''ev'' ''s1'') (w_redis w) = None"
  shows "\<exists>r'. run (acquireSeatHold ref_services h ''ev'' ''s1'' ''u1'' (Finite DEFAULT_HOLD_TTL_SECONDS)) w =
    (w\<lparr>w_redis := r'\<rparr>,
     Inr \<lparr>se_result = RInt 1, se_holdId = h, se_ttlSeconds = 600, se_expiresAt = w_clock w + 600000\<rparr>)"
proof -
  have "effective_ttl (Finite DEFAULT_HOLD_TTL_SECONDS) = 600"
    by (simp add: effective_ttl_def DEFAULT_HOLD_TTL_SECONDS_def)
  from ref_acquire_free [OF assms this, of h "''u1''"] show ?thesis by (rule exI)
qed

lemma ref_redis0_cached [simp]: "rs_cached ref_redis0"
  by (simp add: ref_redis0_def)

lemma ref_hold_run:
  "\<exists>w' record. run (holdSeat ref_services uuid (ref_payload ''ev'' ''s1'' ''u1'')) ref_world
    = (w', Inr (HoldSeatSuccess record))"
proof -
  let ?ex = "\<lparr>se_result = RInt 1, se_holdId = uuid 0, se_ttlSeconds = 600, se_expiresAt = 600000\<rparr>"
  obtain r' where acq: "run (acquireSeatHold ref_services (uuid 0) ''ev'' ''s1'' ''u1'' (Finite DEFAULT_HOLD_TTL_SECONDS))
      ref_world = (ref_world\<lparr>w_redis := r'\<rparr>, Inr ?ex)" using ref_first_hold [of ref_world] by auto
  obtain sent where pub: "run (publishSeatEvent ref_services (seat_event (uuid 1) 0 (uuid 0)
      (HeldRecord (hold_record ref_request ?ex)))) (ref_world\<lparr>w_redis := r'\<rparr>) =
      (ref_world\<lparr>w_redis := r', w_sent := sent\<rparr>, Inr ())" using ref_publish by fastforce
  have "hr_holdId (hold_record ref_request ?ex) = uuid 0" by (simp add: hold_record_def)
  with ref_normalize ref_open_seat acq pub show ?thesis
    by (simp add: holdSeat_def answer_hold_def run_await run_sync run_Date_now Let_def)
qed

lemma ref_create_run:
  "\<exists>w' answer. run (createOrder ref_services uuid (ref_payload ''ev'' ''s1'' ''u1'')) ref_world = (w', Inr answer)"
proof -
  let ?ex = "\<lparr>se_result = RInt 1, se_holdId = uuid 0, se_ttlSeconds = 600, se_expiresAt = 600000\<rparr>"
  obtain r' where acq: "run (acquireSeatHold ref_services (uuid 0) ''ev'' ''s1'' ''u1'' (Finite DEFAULT_HOLD_TTL_SECONDS))
      ref_world = (ref_world\<lparr>w_redis := r'\<rparr>, Inr ?ex)" using ref_first_hold [of ref_world] by auto
  obtain d row where tx: "pc_transaction_order ref_prisma (create_order_transaction ref_prisma ref_request ?ex) ref_db0
      = (d, Inr row)"
    by (auto simp: ref_prisma_def ref_transaction_def create_order_transaction_def ref_db0_def ref_seats_def
        ref_orders_def ref_seat_def Let_def)
  let ?ev = "seat_event (uuid 1) 0 (uuid 0) (Held ''ev'' ''s1'' (uuid 0) (toISOString 600000))"
  obtain sent where pub: "run (publishSeatEvent ref_services ?ev) (ref_world\<lparr>w_redis := r', w_db := d\<rparr>) =
      (ref_world\<lparr>w_redis := r', w_db := d, w_sent := sent\<rparr>, Inr ())" using ref_publish by fastforce
  show ?thesis
    using ref_normalize ref_open_seat acq pub tx
    by (simp add: createOrder_def place_order_def run_await run_sync run_Date_now run_db_do run_redis_do ref_client_def Let_def)
qed

section \<open>Properties\<close>

text \<open>
  Claim C20.  \<open>holdSeat\<close> that returns was given a valid request for a seat on sale.  On
  success the key was free and now holds the caller's user id and a fresh hold id for
  600 seconds, the answer is exactly that hold, at most its \<open>seat.held\<close> event was sent, and
  database, stream and every other key are untouched.  On 409 the key was taken and
  nothing changed.
\<close>

theorem hold_seat_outcome:
  assumes "engine S pttl elapse svc sha1 entries undelivered pending seats orders events"
    and "registered svc sha1 w" and "seat_keys_ok S w"
    and "run (holdSeat svc uuid payload) w = (w', Inr answer)"
  shows "\<exists>rq. normalizeHoldRequest payload = Inr rq \<and> on_sale seats events rq (w_db w) \<and>
    (case answer of
       HoldSeatConflict m \<Rightarrow> GET S (request_key rq) (w_redis w) \<noteq> None \<and> w' = w
     | HoldSeatSuccess record \<Rightarrow>
         hold_taken S pttl rq (uuid 0) (w_redis w) (w_redis w') \<and>
         w_db w' = w_db w \<and> entries (w_redis w') = entries (w_redis w) \<and>
         record = \<lparr>hr_holdId = uuid 0, hr_eventId = rq_eventId rq, hr_seatId = rq_seatId rq,
           hr_userId = rq_userId rq, hr_expiresAt = toISOString (w_clock w + 600000)\<rparr> \<and>
         sent_at_most (seat_event (uuid 1) (w_clock w) (uuid 0) (HeldRecord record)) w w')"
  using assms(2-4) by (rule engine.holdSeat_returns [OF assms(1)])

theorem hold_seat_outcome_witness:
  "\<exists>w' record. run (holdSeat ref_services (\<lambda>n. ''h1'') (ref_payload ''ev'' ''s1'' ''u1'')) ref_world
      = (w', Inr (HoldSeatSuccess record)) \<and>
    held_by ref_server (seatLockKey ''ev'' ''s1'') ''u1'' ''h1'' (w_redis w')"
proof -
  obtain w' hr where r: "run (holdSeat ref_services (\<lambda>n. ''h1'') (ref_payload ''ev'' ''s1'' ''u1'')) ref_world
      = (w', Inr (HoldSeatSuccess hr))" using ref_hold_run by blast
  from hold_seat_outcome [OF ref_engine.engine_axioms ref_registered ref_seat_keys_ok r] r show ?thesis
    by (auto simp: hold_taken_def ref_normalize)
qed

text \<open>
  Claim C16.  \<open>createOrder\<close> that returns has taken the hold, has moved the seat row from
  AVAILABLE to HELD and recorded a PROCESSING order under the fresh hold id in one
  transaction, has appended exactly one entry to the order stream, with the identity of
  that order, and has answered that order's id.
\<close>

theorem create_order_outcome:
  assumes "engine S pttl elapse svc sha1 entries undelivered pending seats orders events"
    and "registered svc sha1 w" and "seat_keys_ok S w"
    and "run (createOrder svc uuid payload) w = (w', Inr answer)"
  shows "\<exists>rq row. normalizeHoldRequest payload = Inr rq \<and> on_sale seats events rq (w_db w) \<and>
    hold_taken S pttl rq (uuid 0) (w_redis w) (w_redis w') \<and>
    order_placed seats orders events rq (uuid 0) (w_clock w + 600000) row (w_db w) (w_db w') \<and>
    answer = \<lparr>co_orderId = ord_id row\<rparr> \<and>
    stream_appended entries undelivered
      (order_fields (uuid 2) (w_clock w)
        \<lparr>oc_holdId = uuid 0, oc_orderId = ord_id row, oc_eventId = rq_eventId rq, oc_seatId = rq_seatId rq,
         oc_userId = rq_userId rq, oc_expiresAt = toISOString (w_clock w + 600000)\<rparr>)
      (w_redis w) (w_redis w')"
  using assms(2-4) by (rule engine.createOrder_returns [OF assms(1)])

theorem create_order_outcome_witness:
  "\<exists>w' answer row. run (createOrder ref_services (\<lambda>n. ''h1'') (ref_payload ''ev'' ''s1'' ''u1'')) ref_world
      = (w', Inr answer) \<and>
    ref_orders (w_db w') ''h1'' = Some row \<and> ord_status row = PROCESSING \<and> length (ref_entries (w_redis w')) = 1"
proof -
  obtain w' answer where r: "run (createOrder ref_services (\<lambda>n. ''h1'') (ref_payload ''ev'' ''s1'' ''u1'')) ref_world
      = (w', Inr answer)" using ref_create_run by blast
  have "ref_entries (w_redis ref_world) = []" by (simp add: ref_entries_def ref_redis0_def)
  with create_order_outcome [OF ref_engine.engine_axioms ref_registered ref_seat_keys_ok r] r show ?thesis
    by (auto simp: order_placed_def stream_appended_def order_data.truncate_def)
qed

text \<open>
  Claim C17.  What a failed \<open>createOrder\<close> leaves behind is one of: nothing; only the caller's
  hold on a key that was free, until it expires; or the committed order and held seat,
  with or without the stream entry.  Never a sold seat, and never a change to another key.
\<close>

theorem create_order_failure:
  assumes "engine S pttl elapse svc sha1 entries undelivered pending seats orders events"
    and "registered svc sha1 w" and "seat_keys_ok S w"
    and "run (createOrder svc uuid payload) w = (w', Inl e)"
  shows "w' = w \<or>
    (\<exists>rq. normalizeHoldRequest payload = Inr rq \<and> GET S (request_key rq) (w_redis w) = None \<and>
      held_by S (request_key rq) (rq_userId rq) (uuid 0) (w_redis w') \<and>
      (\<forall>k. k \<noteq> request_key rq \<longrightarrow> GET S k (w_redis w') = GET S k (w_redis w)) \<and>
      (w_db w' = w_db w \<and> entries (w_redis w') = entries (w_redis w) \<or>
       (\<exists>row. order_placed seats orders events rq (uuid 0) (w_clock w + 600000) row (w_db w) (w_db w') \<and>
         (entries (w_redis w') = entries (w_redis w) \<or>
          (\<exists>fs. stream_appended entries undelivered fs (w_redis w) (w_redis w'))))))"
  using assms(2-4) by (rule engine.createOrder_fails [OF assms(1)])

text \<open>A seat row that is held while the key is free: the transaction refuses, the hold stays.\<close>

definition held_world :: "(ref_redis, ref_db) world" where
  "held_world = ref_world\<lparr>w_db := ref_db0\<lparr>rd_seats := [''s1'' \<mapsto> ref_seat ''s1'' HELD]\<rparr>\<rparr>"

lemma held_world_facts [simp]:
  "registered ref_services ref_sha1 held_world" "seat_keys_ok ref_server held_world"
  "w_redis held_world = ref_redis0" "w_clock held_world = 0" "w_digests held_world = w_digests ref_world"
  by (simp_all add: held_world_def registered_def ref_world_def seat_keys_ok_def well_held_free)

lemma held_world_create:
  "\<exists>r'. run (createOrder ref_services uuid (ref_payload ''ev'' ''s1'' ''u1'')) held_world =
    (held_world\<lparr>w_redis := r'\<rparr>, Inl (ConflictError ''Seat state changed before order creation'')) \<and>
    held_by ref_server (seatLockKey ''ev'' ''s1'') ''u1'' (uuid 0) r'"
proof -
  have look: "run (open_seat ref_services ref_request) held_world = (held_world, Inr (ref_seat ''s1'' HELD))"
    by (simp add: open_seat_def run_simps ref_prisma_def held_world_def ref_db0_def ref_seats_def ref_seat_def)
  obtain r' where acq: "run (acquireSeatHold ref_services (uuid 0) ''ev'' ''s1'' ''u1''
      (Finite DEFAULT_HOLD_TTL_SECONDS)) held_world = (held_world\<lparr>w_redis := r'\<rparr>,
      Inr \<lparr>se_result = RInt 1, se_holdId = uuid 0, se_ttlSeconds = 600, se_expiresAt = 600000\<rparr>)"
    using ref_first_hold [of held_world] by auto
  have "held_by ref_server (seatLockKey ''ev'' ''s1'') ''u1'' (uuid 0) r'"
    using ref_engine.acquire_answer [of held_world "uuid 0" ref_request "held_world\<lparr>w_redis := r'\<rparr>"] acq
    by (simp add: hold_taken_def)
  moreover have "pc_transaction_order ref_prisma (create_order_transaction ref_prisma ref_request ex) (w_db held_world)
      = (w_db held_world, Inl (ConflictError ''Seat state changed before order creation''))" for ex
    by (simp add: ref_prisma_def ref_transaction_def create_order_transaction_def held_world_def ref_seats_def ref_seat_def)
  moreover have "held_world\<lparr>w_redis := r', w_db := w_db held_world\<rparr> = held_world\<lparr>w_redis := r'\<rparr>" by simp
  ultimately show ?thesis
    using look acq
    by (intro exI [of _ r'])
       (simp add: createOrder_def place_order_def run_await run_sync run_db_do ref_normalize)
qed

text \<open>The conflict the buyer is told leaves the seat locked under an id nobody was given.\<close>

theorem create_order_failure_witness:
  "\<exists>w'. run (createOrder ref_services (\<lambda>n. ''h1'') (ref_payload ''ev'' ''s1'' ''u1'')) held_world
      = (w', Inl (ConflictError ''Seat state changed before order creation'')) \<and>
    held_by ref_server (seatLockKey ''ev'' ''s1'') ''u1'' ''h1'' (w_redis w') \<and> w' \<noteq> held_world"
proof -
  obtain r' where r: "run (createOrder ref_services (\<lambda>n. ''h1'') (ref_payload ''ev'' ''s1'' ''u1'')) held_world =
      (held_world\<lparr>w_redis := r'\<rparr>, Inl (ConflictError ''Seat state changed before order creation''))"
    and h: "held_by ref_server (seatLockKey ''ev'' ''s1'') ''u1'' ''h1'' r'"
    using held_world_create [of "\<lambda>n. ''h1''"] by auto
  have "held_world\<lparr>w_redis := r'\<rparr> \<noteq> held_world"
    using h by (auto simp: held_by_def dest: arg_cong [of _ _ w_redis])
  then show ?thesis
    using create_order_failure [OF ref_engine.engine_axioms held_world_facts(1,2) r] r h by auto
qed

text \<open>
  Claim C23.  While the key of a seat is taken, \<open>createOrder\<close> for that seat fails and changes
  nothing, whoever asks: also the user who took the key with \<open>holdSeat\<close>.  A hold can
  therefore not be turned into an order before it is released or has expired.
\<close>

theorem create_order_needs_free_key:
  assumes "engine S pttl elapse svc sha1 entries undelivered pending seats orders events"
    and "registered svc sha1 w" and "seat_keys_ok S w" and "normalizeHoldRequest payload = Inr rq"
    and "GET S (request_key rq) (w_redis w) \<noteq> None"
  shows "\<exists>e. run (createOrder svc uuid payload) w = (w, Inl e)"
  using assms(2-5) by (rule engine.createOrder_taken [OF assms(1)])

text \<open>The keys stay well formed whatever a handler does to the one key it touches.\<close>

lemma seat_keys_ok_after:
  assumes "seat_keys_ok S w" and "\<forall>k. k \<noteq> key \<longrightarrow> GET S k (w_redis w') = GET S k (w_redis w)"
    and "well_held S key (w_redis w')"
  shows "seat_keys_ok S w'"
  unfolding seat_keys_ok_def
proof (intro allI)
  fix ev sid
  show "well_held S (seatLockKey ev sid) (w_redis w')"
    using assms by (cases "seatLockKey ev sid = key") (auto simp: seat_keys_ok_def well_held_def)
qed

theorem create_order_needs_free_key_witness:
  "\<exists>w' hr e. run (holdSeat ref_services (\<lambda>n. ''h1'') (ref_payload ''ev'' ''s1'' ''u1'')) ref_world
      = (w', Inr (HoldSeatSuccess hr)) \<and>
    run (createOrder ref_services (\<lambda>n. ''h2'') (ref_payload ''ev'' ''s1'' ''u1'')) w' = (w', Inl e)"
proof -
  obtain w' hr where r: "run (holdSeat ref_services (\<lambda>n. ''h1'') (ref_payload ''ev'' ''s1'' ''u1'')) ref_world
      = (w', Inr (HoldSeatSuccess hr))" using ref_hold_run by blast
  from ref_engine.holdSeat_returns [OF ref_registered ref_seat_keys_ok r]
  have t: "hold_taken ref_server ref_pttl ref_request ''h1'' (w_redis ref_world) (w_redis w')"
    by (auto simp: ref_normalize)
  then have "seat_keys_ok ref_server w'"
    by (intro seat_keys_ok_after [OF ref_seat_keys_ok]) (auto simp: hold_taken_def intro: held_by_well_held)
  moreover have "registered ref_services ref_sha1 w'"
    using ref_engine.holdSeat_digests [OF r ref_registered] ref_registered by (simp add: registered_def)
  moreover have "GET ref_server (request_key ref_request) (w_redis w') \<noteq> None"
    using t by (auto simp: hold_taken_def held_by_def)
  ultimately show ?thesis
    using create_order_needs_free_key [OF ref_engine.engine_axioms _ _ ref_normalize] r by blast
qed

text \<open>
  Claim C21.  \<open>releaseSeat\<close> that returns was called by the owner of the hold, with no order
  recorded under the hold id.  The key is deleted and no other, the seat row goes from
  HELD to AVAILABLE if it was HELD and stays otherwise, no order and no stream entry
  changes.
\<close>

theorem release_seat_outcome:
  assumes "engine S pttl elapse svc sha1 entries undelivered pending seats orders events"
    and "registered svc sha1 w" and "seat_keys_ok S w"
    and "run (releaseSeat svc uuid payload) w = (w', Inr answer)"
  shows "\<exists>rq. normalizeHoldRequest payload = Inr rq \<and> orders (w_db w) (pl_holdId payload) = None \<and>
    held_by S (request_key rq) (rq_userId rq) (pl_holdId payload) (w_redis w) \<and>
    (\<forall>k. GET S k (w_redis w') = (if k = request_key rq then None else GET S k (w_redis w))) \<and>
    seat_reopened seats orders rq (w_db w) (w_db w') \<and> entries (w_redis w') = entries (w_redis w) \<and>
    answer = \<lparr>rel_eventId = rq_eventId rq, rel_seatId = rq_seatId rq, rel_holdId = pl_holdId payload\<rparr>"
  using assms(2-4) by (rule engine.releaseSeat_returns [OF assms(1)])

text \<open>A hold, and its release by the owner.\<close>

definition ref_release_payload :: "string \<Rightarrow> ReleaseSeatRequest" where
  "ref_release_payload hold = \<lparr>pl_eventId = Some (JStr ''ev''), pl_seatId = Some (JStr ''s1''),
     pl_userId = Some (JStr ''u1''), pl_holdId = hold\<rparr>"

definition ref_held :: "(ref_redis, ref_db) world" where
  "ref_held = fst (run (acquireSeatHold ref_services ''h1'' ''ev'' ''s1'' ''u1'' NaN) ref_world)"

lemma ref_held_facts:
  "held_by ref_server (seatLockKey ''ev'' ''s1'') ''u1'' ''h1'' (w_redis ref_held)"
  "registered ref_services ref_sha1 ref_held" "seat_keys_ok ref_server ref_held"
  "rs_cached (w_redis ref_held)" "w_digests ref_held = w_digests ref_world" "w_db ref_held = ref_db0"
proof -
  show cached: "rs_cached (w_redis ref_held)" "w_digests ref_held = w_digests ref_world" "w_db ref_held = ref_db0"
    by (simp_all add: ref_held_def ref_acquire_run ref_set_def del: stringify.simps)
  show "registered ref_services ref_sha1 ref_held"
    using ref_registered cached by (simp add: registered_def)
  have "well_held ref_server (seatLockKey ''ev'' ''s1'') (w_redis ref_world)" by (simp add: well_held_free)
  from ref_remote.acquire_returns [OF ref_registered this ref_acquire_run]
  have h: "held_by ref_server (seatLockKey ''ev'' ''s1'') ''u1'' ''h1'' (w_redis ref_held) \<and>
      (\<forall>k. k \<noteq> seatLockKey ''ev'' ''s1'' \<longrightarrow> GET ref_server k (w_redis ref_held) = GET ref_server k (w_redis ref_world))"
    by (simp add: ref_held_def ref_acquire_run del: stringify.simps)
  then show "held_by ref_server (seatLockKey ''ev'' ''s1'') ''u1'' ''h1'' (w_redis ref_held)" by blast
  show "seat_keys_ok ref_server ref_held"
    using h by (intro seat_keys_ok_after [OF ref_seat_keys_ok]) (auto intro: held_by_well_held)
qed

lemma ref_held_no_order: "ref_held\<lparr>w_db := w_db ref_held\<rparr> = ref_held" "ref_orders (w_db ref_held) ''h1'' = None"
  by (simp, subst ref_held_facts(6), simp add: ref_orders_def ref_db0_def)

lemma ref_normalize_release: "normalizeHoldRequest (ref_release_payload h) = Inr ref_request"
proof -
  have "js_trim ''ev'' = ''ev''" "js_trim ''s1'' = ''s1''" "js_trim ''u1'' = ''u1''" by code_simp+
  then show ?thesis by (simp add: normalizeHoldRequest_def ref_release_payload_def trimmed_member_def)
qed

lemma ref_release_owned:
  assumes "held_by ref_server (seatLockKey ev sid) u h (w_redis w)" and "rs_cached (w_redis w)"
    and "w_digests w = w_digests ref_world"
  shows "\<exists>r'. run (releaseSeatHold ref_services ev sid u h) w = (w\<lparr>w_redis := r'\<rparr>, Inr True)"
proof -
  obtain r' where rel: "release_seat ref_server [seatLockKey ev sid] [u, h] (w_redis w) = (r', Inr (RInt 1))"
    using ref_strings.release_seat_owned [OF assms(1)] by auto
  have "c_evalsha ref_client (ref_sha1 (ref_text releaseSeatScript)) [seatLockKey ev sid] [u, h] (w_redis w)
      = (r', Inr (RInt 1))"
    using assms(2) rel by (simp add: ref_client_def ref_evalsha_def ref_sha1_def ref_eval_def del: release_seat.simps)
  moreover have "w_digests w releaseSeatScript = Some (ref_sha1 (ref_text releaseSeatScript))"
    using assms(3) by (simp add: ref_world_def)
  ultimately show ?thesis
    by (simp add: releaseSeatHold_def Let_def run_catch run_await run_getLuaScriptDigest run_redis_do) (rule exI, rule refl)
qed

lemma ref_releaseSeat_run:
  assumes "ref_orders d ''h1'' = None"
  shows "\<exists>w' answer. run (releaseSeat ref_services uuid (ref_release_payload ''h1'')) (ref_held\<lparr>w_db := d\<rparr>) = (w', Inr answer)"
proof -
  obtain r' where rel: "run (releaseSeatHold ref_services ''ev'' ''s1'' ''u1'' ''h1'') (ref_held\<lparr>w_db := d\<rparr>)
      = (ref_held\<lparr>w_db := d, w_redis := r'\<rparr>, Inr True)"
    using ref_release_owned [of "''ev''" "''s1''" "''u1''" "''h1''" "ref_held\<lparr>w_db := d\<rparr>"] ref_held_facts(1,4,5)
    by auto
  have "\<exists>d' n. pc_seat_updateMany ref_prisma ''s1'' ''ev'' HELD AVAILABLE d = (d', Inr n)"
    by (cases "ref_seats d ''s1''") (simp_all add: ref_prisma_def)
  then obtain d' n where "pc_seat_updateMany ref_prisma ''s1'' ''ev'' HELD AVAILABLE d = (d', Inr n)"
    by blast
  moreover have "pc_order_findUnique ref_prisma ''h1'' d = Inr None"
    using assms by (simp add: ref_prisma_def)
  moreover obtain sent where "run (publishSeatEvent ref_services (seat_event (uuid 0) (w_clock ref_held) ''h1''
      (Released ''ev'' ''s1'' ''h1'' ''released''))) (ref_held\<lparr>w_redis := r', w_db := d'\<rparr>)
      = (ref_held\<lparr>w_redis := r', w_db := d', w_sent := sent\<rparr>, Inr ())"
    using ref_publish by fastforce
  moreover have "js_trim ''h1'' \<noteq> []" by code_simp
  moreover have "pl_holdId (ref_release_payload ''h1'') = ''h1''" by (simp add: ref_release_payload_def)
  ultimately show ?thesis
    using rel ref_normalize_release
    by (simp add: releaseSeat_def run_await run_sync run_db_read run_db_do run_Date_now)
qed

theorem release_seat_outcome_witness:
  "\<exists>w' answer. run (releaseSeat ref_services (\<lambda>n. ''e1'') (ref_release_payload ''h1'')) ref_held = (w', Inr answer) \<and>
    GET ref_server (seatLockKey ''ev'' ''s1'') (w_redis w') = None"
proof -
  obtain w' answer where r: "run (releaseSeat ref_services (\<lambda>n. ''e1'') (ref_release_payload ''h1'')) ref_held = (w', Inr answer)"
    using ref_releaseSeat_run [of "w_db ref_held" "\<lambda>n. ''e1''"] ref_held_no_order by auto
  from release_seat_outcome [OF ref_engine.engine_axioms ref_held_facts(2,3) r] r ref_normalize_release show ?thesis
    by auto
qed

text \<open>
  A failed \<open>releaseSeat\<close> changed nothing, or has deleted the caller's own hold
  and left the database as it was; it never removes a hold of another user or of
  another hold id.
\<close>

theorem release_seat_failure:
  assumes "engine S pttl elapse svc sha1 entries undelivered pending seats orders events"
    and "registered svc sha1 w" and "seat_keys_ok S w"
    and "run (releaseSeat svc uuid payload) w = (w', Inl e)"
  shows "w' = w \<or>
    (\<exists>rq. normalizeHoldRequest payload = Inr rq \<and> orders (w_db w) (pl_holdId payload) = None \<and>
      held_by S (request_key rq) (rq_userId rq) (pl_holdId payload) (w_redis w) \<and>
      (\<forall>k. GET S k (w_redis w') = (if k = request_key rq then None else GET S k (w_redis w))) \<and>
      w_db w' = w_db w)"
  using assms(2-4) by (rule engine.releaseSeat_fails [OF assms(1)])

theorem release_seat_failure_witness:
  "\<exists>e. run (releaseSeat ref_services (\<lambda>n. ''e1'') (ref_release_payload ''h1'')) ref_world = (ref_world, Inl e)"
proof -
  have "pc_order_findUnique ref_prisma ''h1'' ref_db0 = Inr None"
    by (simp add: ref_prisma_def ref_orders_def ref_db0_def)
  moreover have "pl_holdId (ref_release_payload ''h1'') = ''h1''" by (simp add: ref_release_payload_def)
  moreover have "js_trim ''h1'' \<noteq> []" by code_simp
  ultimately have r: "run (releaseSeat ref_services (\<lambda>n. ''e1'') (ref_release_payload ''h1'')) ref_world
      = (ref_world, Inl (ConflictError ''Seat hold is unavailable or owned by another user''))"
    using ref_normalize_release ref_release_run by (simp add: releaseSeat_def run_await run_sync run_db_read)
  from release_seat_failure [OF ref_engine.engine_axioms ref_registered ref_seat_keys_ok r] r show ?thesis
    by auto
qed

text \<open>
  Claim C24.  A request that must not reach the lock is answered, by \<open>holdSeat\<close> and by
  \<open>createOrder\<close>, with the 400, 404 or 409 of the specification \<open>rejection\<close>, and changes
  nothing, whenever the database answers.
\<close>

theorem bad_requests_rejected:
  assumes "engine S pttl elapse svc sha1 entries undelivered pending seats orders events"
    and "rejection seats events payload (w_db w) = Some e"
    and "\<And>ev sid. isInr (pc_event_with_seat (prisma svc) ev sid (w_db w))"
  shows "run (holdSeat svc uuid payload) w = (w, Inl e) \<and> run (createOrder svc uuid payload) w = (w, Inl e)"
  using engine.rejected [OF assms] by blast

theorem bad_requests_rejected_witness:
  "run (holdSeat ref_services (\<lambda>n. ''e1'') (ref_payload ''ev'' ''s2'' ''u1'')) ref_world
    = (ref_world, Inl (ConflictError ''Seat already sold''))"
proof -
  have rq: "normalizeHoldRequest (ref_payload ''ev'' ''s2'' ''u1'') =
      Inr \<lparr>rq_eventId = ''ev'', rq_seatId = ''s2'', rq_userId = ''u1''\<rparr>" by code_simp
  have "rejection ref_seats rd_events (ref_payload ''ev'' ''s2'' ''u1'') (w_db ref_world)
      = Some (ConflictError ''Seat already sold'')"
    by (simp add: rejection_def rq ref_db0_def ref_seats_def ref_seat_def)
  moreover have "isInr (pc_event_with_seat (prisma ref_services) ev sid (w_db ref_world))" for ev sid
    by (simp add: ref_prisma_def)
  ultimately show ?thesis using bad_requests_rejected [OF ref_engine.engine_axioms] by blast
qed

end
