(* ===== verification/Order_Worker.thy ===== *)
theory Order_Worker imports Ticket begin

text \<open>
  \<open>src/src/workers/stream-consumer.worker.ts\<close>: settlement of orders from the Redis stream.
  \<open>consumer\<close> is the name of the consumer, \<open>uuid n\<close> the value of \<open>randomUUID()\<close> that the
  \<open>n\<close>-th message of a batch draws, \<open>sched\<close> the interleaving of a batch
  (\<open>Proc\<close>).  The polling loop has a bound on the number of polls: \<open>None\<close> says that the
  bound was reached before the consumer stopped.
\<close>

section \<open>Messages\<close>

definition CLAIM_IDLE_MS :: nat where
  "CLAIM_IDLE_MS = 30000"

definition POLL_BLOCK_MS :: nat where
  "POLL_BLOCK_MS = 1000"

definition BATCH_SIZE :: nat where
  "BATCH_SIZE = 10"

text \<open>The loop of \<open>toMessage\<close> over the flat list; a last name without a value is dropped.\<close>

fun collect_fields :: "(string \<rightharpoonup> string) \<Rightarrow> string list \<Rightarrow> (string \<rightharpoonup> string)" where
  "collect_fields m (key # value # rest) = collect_fields (m(key \<mapsto> value)) rest"
| "collect_fields m _ = m"

definition toMessage :: "string \<times> string list \<Rightarrow> RedisStreamMessage" where
  "toMessage raw = \<lparr>msg_id = fst raw, msg_fields = collect_fields Map.empty (snd raw)\<rparr>"

definition parsePayload :: "RedisStreamMessage \<Rightarrow> exn + OrderCreatedEventPayload" where
  "parsePayload message =
     (case msg_fields message ''payload'' of
        None \<Rightarrow> Inl (JsError (''Missing order event payload: '' @ msg_id message))
      | Some rawPayload \<Rightarrow>
          bindE (JSON_parse rawPayload) (\<lambda>payload.
          bindE (js_get payload ''holdId'') (\<lambda>holdId.
          bindE (js_get payload ''orderId'') (\<lambda>orderId.
          bindE (js_get payload ''eventId'') (\<lambda>eventId.
          bindE (js_get payload ''seatId'') (\<lambda>seatId.
          bindE (js_get payload ''userId'') (\<lambda>userId.
          bindE (js_get payload ''expiresAt'') (\<lambda>expiresAt.
            (case (as_string holdId, as_string orderId, as_string eventId, as_string seatId,
                   as_string userId, as_string expiresAt) of
               (Some h, Some oid, Some ev, Some sid, Some user, Some x) \<Rightarrow>
                 Inr \<lparr>oc_holdId = h, oc_orderId = oid, oc_eventId = ev, oc_seatId = sid,
                      oc_userId = user, oc_expiresAt = x\<rparr>
             | _ \<Rightarrow> Inl (JsError (''Invalid order event payload: '' @ msg_id message)))))))))))"

section \<open>The consumer\<close>

definition initializeOrderConsumerGroup :: "('r, 'd) services \<Rightarrow> (('r, 'd) world, unit) proc" where
  "initializeOrderConsumerGroup svc =
     catch (redis_do (c_xgroup_create (redis svc) ORDER_STREAM_KEY ORDER_CONSUMER_GROUP))
       (\<lambda>error. if \<not> js_includes (exn_message error) ''BUSYGROUP'' then Throw error else Ret ())"

text \<open>The callback of the transaction of \<open>settleOrder\<close>.\<close>

definition settle_transaction ::
  "'d prisma_client \<Rightarrow> OrderCreatedEventPayload \<Rightarrow> 'd \<Rightarrow> 'd \<times> (exn + unit)" where
  "settle_transaction P payload d =
     (case pc_order_findUnique P (oc_holdId payload) d of
        Inl e \<Rightarrow> (d, Inl e)
      | Inr existing \<Rightarrow>
          (if map_option ord_status existing = Some BOOKED then (d, Inr ())
           else if existing = None then (d, Inl (JsError (''Order not found for hold: '' @ oc_holdId payload)))
           else
             (case pc_seat_updateMany P (oc_seatId payload) (oc_eventId payload) HELD SOLD d of
                (d1, Inl e) \<Rightarrow> (d1, Inl e)
              | (d1, Inr count) \<Rightarrow>
                  (if count \<noteq> 1
                   then (d1, Inl (JsError (''Held seat was not available for order: '' @ oc_orderId payload)))
                   else
                     (case pc_order_update P (oc_holdId payload) BOOKED d1 of
                        (d2, Inl e) \<Rightarrow> (d2, Inl e)
                      | (d2, Inr _) \<Rightarrow> (d2, Inr ()))))))"

definition settleOrder :: "('r, 'd) services \<Rightarrow> OrderCreatedEventPayload \<Rightarrow> (('r, 'd) world, unit) proc" where
  "settleOrder svc payload = db_do (pc_transaction_void (prisma svc) (settle_transaction (prisma svc) payload))"

definition supported :: "RedisStreamMessage \<Rightarrow> bool" where
  "supported message \<longleftrightarrow>
     msg_fields message ''eventType'' = Some ORDER_EVENT_TYPE \<and> msg_fields message ''schemaVersion'' = Some ''1''"

text \<open>The broadcast inside \<open>processMessage\<close>, with its own \<open>try\<close>.\<close>

definition publish_booked ::
  "('r, 'd) services \<Rightarrow> string \<Rightarrow> OrderCreatedEventPayload \<Rightarrow> (('r, 'd) world, unit) proc" where
  "publish_booked svc randomUUID payload =
     catch
       (await Date_now (\<lambda>now.
        adapter_publishSeatEvent svc (seat_event randomUUID now (oc_orderId payload)
          (Booked (oc_eventId payload) (oc_seatId payload) (oc_orderId payload)))))
       (\<lambda>error. Ret ())"

definition processMessage ::
  "('r, 'd) services \<Rightarrow> string \<Rightarrow> RedisStreamMessage \<Rightarrow> (('r, 'd) world, unit) proc" where
  "processMessage svc randomUUID message =
     catch
       (if \<not> supported message then Throw (JsError (''Unsupported order event: '' @ msg_id message))
        else
          await (sync (parsePayload message)) (\<lambda>payload.
          await (settleOrder svc payload) (\<lambda>_.
          await (publish_booked svc randomUUID payload) (\<lambda>_.
          await (redis_do (c_xack (redis svc) ORDER_STREAM_KEY ORDER_CONSUMER_GROUP (msg_id message))) (\<lambda>_.
          Ret ())))))
       (\<lambda>error. Ret ())"

definition readMessages ::
  "('r, 'd) services \<Rightarrow> string \<Rightarrow> nat \<Rightarrow> (('r, 'd) world, RedisStreamMessage list) proc" where
  "readMessages svc consumer blockMs =
     await (redis_do (c_xreadgroup (redis svc) ORDER_STREAM_KEY ORDER_CONSUMER_GROUP consumer BATCH_SIZE blockMs))
       (\<lambda>result.
          case result of
            None \<Rightarrow> Ret []
          | Some streams \<Rightarrow> Ret (concat (map (\<lambda>stream. map toMessage (snd stream)) streams)))"

definition claimPendingMessages ::
  "('r, 'd) services \<Rightarrow> string \<Rightarrow> (('r, 'd) world, RedisStreamMessage list) proc" where
  "claimPendingMessages svc consumer =
     await (redis_do (c_xautoclaim (redis svc) ORDER_STREAM_KEY ORDER_CONSUMER_GROUP consumer CLAIM_IDLE_MS BATCH_SIZE))
       (\<lambda>result. Ret (map toMessage result))"

text \<open>One poll: the claimed and the fresh messages; and the batch over them.\<close>

definition poll ::
  "('r, 'd) services \<Rightarrow> string \<Rightarrow> nat \<Rightarrow> (('r, 'd) world, RedisStreamMessage list) proc" where
  "poll svc consumer blockMs =
     await (claimPendingMessages svc consumer) (\<lambda>claimed.
     await (readMessages svc consumer blockMs) (\<lambda>fresh.
     Ret (claimed @ fresh)))"

definition process_batch ::
  "('r, 'd) services \<Rightarrow> nat list \<Rightarrow> (nat \<Rightarrow> string) \<Rightarrow> RedisStreamMessage list \<Rightarrow> (('r, 'd) world, unit list) proc" where
  "process_batch svc sched uuid messages =
     Promise_all sched (map (\<lambda>i. processMessage svc (uuid i) (messages ! i)) [0..<length messages])"

definition processAvailableOrderMessages ::
  "('r, 'd) services \<Rightarrow> string \<Rightarrow> nat list \<Rightarrow> (nat \<Rightarrow> string) \<Rightarrow> (('r, 'd) world, nat) proc" where
  "processAvailableOrderMessages svc consumer sched uuid =
     await (initializeOrderConsumerGroup svc) (\<lambda>_.
     await (poll svc consumer 1) (\<lambda>messages.
     await (process_batch svc sched uuid messages) (\<lambda>_.
     Ret (length messages))))"

text \<open>At most \<open>bound\<close> polls; \<open>Some ()\<close> when the loop has left because of the flag.\<close>

fun consumer_loop ::
  "('r, 'd) services \<Rightarrow> string \<Rightarrow> (nat \<Rightarrow> nat list) \<Rightarrow> (nat \<Rightarrow> nat \<Rightarrow> string) \<Rightarrow> nat \<Rightarrow> (('r, 'd) world, unit option) proc" where
  "consumer_loop svc consumer sched uuid 0 = Ret None"
| "consumer_loop svc consumer sched uuid (Suc bound) =
     await (reads w_consumer_running) (\<lambda>consumerRunning.
     if \<not> consumerRunning then Ret (Some ())
     else
       await (poll svc consumer POLL_BLOCK_MS) (\<lambda>messages.
       if length messages = 0 then consumer_loop svc consumer sched uuid bound
       else
         await (process_batch svc (sched bound) (uuid bound) messages) (\<lambda>_.
         consumer_loop svc consumer sched uuid bound)))"

definition startOrderConsumer ::
  "('r, 'd) services \<Rightarrow> string \<Rightarrow> (nat \<Rightarrow> nat list) \<Rightarrow> (nat \<Rightarrow> nat \<Rightarrow> string) \<Rightarrow> nat \<Rightarrow> (('r, 'd) world, unit option) proc" where
  "startOrderConsumer svc consumer sched uuid bound =
     await (atomic (\<lambda>w. (w\<lparr>w_consumer_running := True\<rparr>, Inr (w_consumer_running w)))) (\<lambda>consumerRunning.
     if consumerRunning then Ret (Some ())
     else
       await (initializeOrderConsumerGroup svc) (\<lambda>_.
       finally_do (consumer_loop svc consumer sched uuid bound)
         (modifies (\<lambda>w. w\<lparr>w_consumer_running := False\<rparr>))))"

definition stopOrderConsumer :: "(('r, 'd) world, unit) proc" where
  "stopOrderConsumer = modifies (\<lambda>w. w\<lparr>w_consumer_running := False\<rparr>)"

section \<open>Messages that createOrder writes\<close>

lemma order_message_fields:
  "msg_fields (toMessage (flat_entry (i, order_fields a now p))) =
    [''eventId'' \<mapsto> a, ''eventType'' \<mapsto> ORDER_EVENT_TYPE, ''schemaVersion'' \<mapsto> show_int ORDER_EVENT_SCHEMA_VERSION,
     ''occurredAt'' \<mapsto> toISOString now, ''payload'' \<mapsto> stringify (order_payload_json p)]"
  by (simp add: toMessage_def flat_entry_def order_fields_def)

lemma show_int_1: "show_int ORDER_EVENT_SCHEMA_VERSION = ''1''"
  by code_simp

lemma order_message_supported: "supported (toMessage (flat_entry (i, order_fields a now p)))"
  unfolding supported_def order_message_fields by (simp add: show_int_1)

lemma order_payload_members:
  "js_get (order_payload_json p) ''holdId'' = Inr (Some (JStr (oc_holdId p)))"
  "js_get (order_payload_json p) ''orderId'' = Inr (Some (JStr (oc_orderId p)))"
  "js_get (order_payload_json p) ''eventId'' = Inr (Some (JStr (oc_eventId p)))"
  "js_get (order_payload_json p) ''seatId'' = Inr (Some (JStr (oc_seatId p)))"
  "js_get (order_payload_json p) ''userId'' = Inr (Some (JStr (oc_userId p)))"
  "js_get (order_payload_json p) ''expiresAt'' = Inr (Some (JStr (oc_expiresAt p)))"
  by (simp_all add: order_payload_json_def)

lemma order_message_parses: "parsePayload (toMessage (flat_entry (i, order_fields a now p))) = Inr p"
  unfolding parsePayload_def order_message_fields
  by (simp add: order_payload_members del: stringify.simps)

section \<open>One settlement\<close>

text \<open>The database after the settlement of an order: seat sold, order booked, nothing else.\<close>

definition order_settled ::
  "('d \<Rightarrow> string \<Rightarrow> seat_row option) \<Rightarrow> ('d \<Rightarrow> string \<Rightarrow> order_row option) \<Rightarrow> OrderCreatedEventPayload \<Rightarrow> 'd \<Rightarrow> 'd \<Rightarrow> bool" where
  "order_settled seats orders p d d' \<longleftrightarrow>
     (\<exists>s o'. seats d (oc_seatId p) = Some s \<and> seat_eventId s = oc_eventId p \<and> seat_status s = HELD \<and>
        seats d' = (seats d)(oc_seatId p \<mapsto> s\<lparr>seat_status := SOLD\<rparr>) \<and>
        orders d (oc_holdId p) = Some o' \<and> ord_status o' \<noteq> BOOKED \<and>
        orders d' = (orders d)(oc_holdId p \<mapsto> o'\<lparr>ord_status := BOOKED\<rparr>))"

definition booked :: "('d \<Rightarrow> string \<Rightarrow> order_row option) \<Rightarrow> string \<Rightarrow> 'd \<Rightarrow> bool" where
  "booked orders hold d \<longleftrightarrow> (\<exists>row. orders d hold = Some row \<and> ord_status row = BOOKED)"

lemma order_settled_booked: "order_settled seats orders p d d' \<Longrightarrow> booked orders (oc_holdId p) d'"
  by (auto simp: order_settled_def booked_def)

context engine begin

lemma settle_transaction_commits:
  assumes "pc_transaction_void (prisma svc) (settle_transaction (prisma svc) p) d = (d', Inr ())"
  shows "booked orders (oc_holdId p) d \<and> d' = d \<or> order_settled seats orders p d d'"
proof -
  have body: "settle_transaction (prisma svc) p d = (d', Inr ())"
    using transaction_void [OF assms] by auto
  then obtain existing where f: "pc_order_findUnique (prisma svc) (oc_holdId p) d = Inr existing"
    by (auto simp: settle_transaction_def split: sum.splits)
  with order_findUnique have ex: "existing = orders d (oc_holdId p)" by blast
  show ?thesis
  proof (cases "booked orders (oc_holdId p) d")
    case True
    with body f ex show ?thesis by (auto simp: settle_transaction_def booked_def)
  next
    case False
    with body f ex obtain d1 row where
      upd: "pc_seat_updateMany (prisma svc) (oc_seatId p) (oc_eventId p) HELD SOLD d = (d1, Inr 1)"
      and ou: "pc_order_update (prisma svc) (oc_holdId p) BOOKED d1 = (d', Inr row)"
      and some: "orders d (oc_holdId p) \<noteq> None"
      by (auto simp: settle_transaction_def booked_def split: prod.splits sum.splits if_splits)
    from seat_update [OF upd] order_update [OF ou] some False show ?thesis
      by (intro disjI2) (auto simp: order_settled_def booked_def split: option.splits if_splits)
  qed
qed

lemma settle_transaction_rejects:
  "pc_transaction_void (prisma svc) (settle_transaction (prisma svc) p) d = (d', Inl e) \<Longrightarrow> d' = d"
  by (drule transaction_void) auto

lemma settleOrder_run:
  assumes "run (settleOrder svc p) w = (w', x)"
  shows "\<exists>d'. w' = w\<lparr>w_db := d'\<rparr> \<and>
    (case x of
       Inr _ \<Rightarrow> booked orders (oc_holdId p) (w_db w) \<and> d' = w_db w \<or> order_settled seats orders p (w_db w) d'
     | Inl e \<Rightarrow> d' = w_db w)"
proof -
  obtain d' y where t: "pc_transaction_void (prisma svc) (settle_transaction (prisma svc) p) (w_db w) = (d', y)"
    by force
  with assms have "w' = w\<lparr>w_db := d'\<rparr>" "x = y" by (auto simp: settleOrder_def run_db_do)
  with t settle_transaction_commits [of p "w_db w" d'] settle_transaction_rejects [of p "w_db w" d'] show ?thesis
    by (intro exI [of _ d']) (cases y, auto)
qed

lemma publish_booked_run:
  assumes "run (publish_booked svc i p) w = (w', x)"
  shows "x = Inr () \<and> same_back_end S pttl entries undelivered pending w w' \<and>
    (\<not> w_adapter_connected w \<longrightarrow> w' = w)"
proof -
  obtain w1 y where "run (adapter_publishSeatEvent svc (seat_event i (w_clock w) (oc_orderId p)
      (Booked (oc_eventId p) (oc_seatId p) (oc_orderId p)))) w = (w1, y)" by force
  with adapter_publish_run [OF this] assms show ?thesis
    by (auto simp: publish_booked_def run_catch run_await run_Date_now split: sum.splits)
qed

text \<open>
  Processing one message never throws.  It is settled and acknowledged, or settled and not
  acknowledged, or neither: then nothing at all has changed.
\<close>

lemma processMessage_run:
  assumes "run (processMessage svc i m) w = (w', x)"
  shows "x = Inr () \<and>
    (w' = w \<or>
     (\<exists>p. supported m \<and> parsePayload m = Inr p \<and>
        (booked orders (oc_holdId p) (w_db w) \<and> w_db w' = w_db w \<or> order_settled seats orders p (w_db w) (w_db w')) \<and>
        (pending (w_redis w') = pending (w_redis w) \<or> pending (w_redis w') = pending (w_redis w) - {msg_id m}) \<and>
        entries (w_redis w') = entries (w_redis w) \<and> undelivered (w_redis w') = undelivered (w_redis w) \<and>
        (\<forall>k. GET S k (w_redis w') = GET S k (w_redis w)) \<and>
        (\<not> w_adapter_connected w \<longrightarrow> w_sent w' = w_sent w)))"
proof (cases "supported m")
  case False
  with assms show ?thesis by (simp add: processMessage_def run_catch)
next
  case sup: True
  show ?thesis
  proof (cases "parsePayload m")
    case (Inl e)
    with assms sup show ?thesis by (simp add: processMessage_def run_catch run_await run_sync)
  next
    case (Inr p)
    obtain w1 y where settle: "run (settleOrder svc p) w = (w1, y)" by force
    from settleOrder_run [OF this] obtain d' where w1: "w1 = w\<lparr>w_db := d'\<rparr>"
      and y: "case y of Inr _ \<Rightarrow> booked orders (oc_holdId p) (w_db w) \<and> d' = w_db w \<or> order_settled seats orders p (w_db w) d'
        | Inl e \<Rightarrow> d' = w_db w" by blast
    show ?thesis
    proof (cases y)
      case (Inl e)
      with assms sup \<open>parsePayload m = Inr p\<close> settle w1 y show ?thesis
        by (simp add: processMessage_def run_catch run_await run_sync)
    next
      case (Inr u)
      obtain w2 z where pub: "run (publish_booked svc i p) w1 = (w2, z)" by force
      note p2 = publish_booked_run [OF pub]
      obtain r3 a where ack: "c_xack (redis svc) ORDER_STREAM_KEY ORDER_CONSUMER_GROUP (msg_id m) (w_redis w2) = (r3, a)"
        by force
      have "w' = w2\<lparr>w_redis := r3\<rparr>" "x = Inr ()"
        using assms sup \<open>parsePayload m = Inr p\<close> settle Inr pub p2 ack
        by (auto simp: processMessage_def run_catch run_await run_sync run_redis_do split: sum.splits)
      moreover have "w_db w2 = d'" "\<not> w_adapter_connected w \<longrightarrow> w_sent w2 = w_sent w"
        "entries (w_redis w2) = entries (w_redis w)" "undelivered (w_redis w2) = undelivered (w_redis w)"
        "pending (w_redis w2) = pending (w_redis w)" "\<forall>k. GET S k (w_redis w2) = GET S k (w_redis w)"
        using p2 w1 by (auto simp: same_back_end_def)
      moreover have "booked orders (oc_holdId p) (w_db w) \<and> d' = w_db w \<or> order_settled seats orders p (w_db w) d'"
        using y Inr by simp
      moreover note xack_remote [OF ack]
      ultimately show ?thesis
        using sup \<open>parsePayload m = Inr p\<close> by (intro conjI [OF _ disjI2 [OF exI [of _ p]]]) auto
    qed
  qed
qed

text \<open>An order that is booked is left alone.\<close>

lemma processMessage_booked:
  assumes "parsePayload m = Inr p" and "booked orders (oc_holdId p) (w_db w)"
    and "run (processMessage svc i m) w = (w', x)"
  shows "w_db w' = w_db w"
  using processMessage_run [OF assms(3)] assms(1,2) by (auto simp: order_settled_def booked_def)

lemma processMessage_acked:
  assumes "run (processMessage svc i m) w = (w', x)" and "pending (w_redis w') \<noteq> pending (w_redis w)"
  shows "\<exists>p. supported m \<and> parsePayload m = Inr p \<and> booked orders (oc_holdId p) (w_db w') \<and>
    pending (w_redis w') = pending (w_redis w) - {msg_id m}"
  using processMessage_run [OF assms(1)] assms(2) by (auto dest: order_settled_booked)

lemma initialize_group:
  assumes "run (initializeOrderConsumerGroup svc) w = (w', Inr ())"
  shows "undelivered (w_redis w') = Some (case undelivered (w_redis w) of None \<Rightarrow> [] | Some u \<Rightarrow> u) \<and>
    entries (w_redis w') = entries (w_redis w) \<and> pending (w_redis w') = pending (w_redis w) \<and> w_db w' = w_db w"
proof -
  obtain r c where x: "c_xgroup_create (redis svc) ORDER_STREAM_KEY ORDER_CONSUMER_GROUP (w_redis w) = (r, c)" by force
  with xgroup_remote [OF x] assms show ?thesis
    by (auto simp: initializeOrderConsumerGroup_def run_catch run_redis_do split: sum.splits if_splits)
qed

text \<open>From the order to the settlement of its stream entry.\<close>

lemma order_settles:
  assumes "registered svc sha1 w" and "seat_keys_ok S w"
    and "run (createOrder svc uuid payload) w = (w1, Inr answer)"
    and "w_db w2 = w_db w1" and "run (processMessage svc i (toMessage (flat_entry (last (entries (w_redis w1)))))) w2 = (w3, x)"
    and "pending (w_redis w3) \<noteq> pending (w_redis w2)"
  shows "\<exists>rq row s. normalizeHoldRequest payload = Inr rq \<and>
    orders (w_db w3) (uuid 0) = Some row \<and> ord_status row = BOOKED \<and> ord_id row = co_orderId answer \<and>
    ord_userId row = rq_userId rq \<and> ord_seatId row = rq_seatId rq \<and>
    seats (w_db w3) (rq_seatId rq) = Some s \<and> seat_status s = SOLD \<and>
    (\<forall>sid. sid \<noteq> rq_seatId rq \<longrightarrow> seats (w_db w3) sid = seats (w_db w) sid) \<and>
    (\<forall>h. h \<noteq> uuid 0 \<longrightarrow> orders (w_db w3) h = orders (w_db w) h)"
proof -
  from createOrder_returns [OF assms(1-3)] obtain rq row where rq: "normalizeHoldRequest payload = Inr rq"
    and placed: "order_placed seats orders events rq (uuid 0) (w_clock w + 600000) row (w_db w) (w_db w1)"
    and ans: "answer = \<lparr>co_orderId = ord_id row\<rparr>"
    and app: "stream_appended entries undelivered (order_fields (uuid 2) (w_clock w)
        \<lparr>oc_holdId = uuid 0, oc_orderId = ord_id row, oc_eventId = rq_eventId rq, oc_seatId = rq_seatId rq,
         oc_userId = rq_userId rq, oc_expiresAt = toISOString (w_clock w + 600000)\<rparr>)
      (w_redis w) (w_redis w1)"
    by blast
  let ?p = "\<lparr>oc_holdId = uuid 0, oc_orderId = ord_id row, oc_eventId = rq_eventId rq, oc_seatId = rq_seatId rq,
         oc_userId = rq_userId rq, oc_expiresAt = toISOString (w_clock w + 600000)\<rparr>"
  from app obtain j where e: "last (entries (w_redis w1)) = (j, order_fields (uuid 2) (w_clock w) ?p)"
    by (auto simp: stream_appended_def)
  let ?m = "toMessage (flat_entry (last (entries (w_redis w1))))"
  have parse: "parsePayload ?m = Inr ?p" unfolding e by (rule order_message_parses)
  have row: "ord_status row = PROCESSING" "ord_userId row = rq_userId rq" "ord_seatId row = rq_seatId rq"
    using placed by (auto simp: order_placed_def order_data.truncate_def)
  then have "\<not> booked orders (uuid 0) (w_db w2)" using placed assms(4) by (simp add: order_placed_def booked_def)
  moreover from processMessage_run [OF assms(5)] assms(6) parse
  have "booked orders (oc_holdId ?p) (w_db w2) \<and> w_db w3 = w_db w2 \<or> order_settled seats orders ?p (w_db w2) (w_db w3)"
    by auto
  ultimately have "order_settled seats orders ?p (w_db w2) (w_db w3)" by simp
  then obtain s o' where s: "seats (w_db w3) = (seats (w_db w1))(rq_seatId rq \<mapsto> s\<lparr>seat_status := SOLD\<rparr>)"
    and o': "orders (w_db w1) (uuid 0) = Some o'"
      "orders (w_db w3) = (orders (w_db w1))(uuid 0 \<mapsto> o'\<lparr>ord_status := BOOKED\<rparr>)"
    using assms(4) by (auto simp: order_settled_def)
  from placed obtain s0 where p: "seats (w_db w1) = (seats (w_db w))(rq_seatId rq \<mapsto> s0)"
    "orders (w_db w1) = (orders (w_db w))(uuid 0 \<mapsto> row)" by (auto simp: order_placed_def)
  have o'_row: "o' = row" using o'(1) p(2) by simp
  show ?thesis
    by (intro exI [of _ rq] exI [of _ "row\<lparr>ord_status := BOOKED\<rparr>"] exI [of _ "s\<lparr>seat_status := SOLD\<rparr>"])
       (simp add: rq row s o'(2) o'_row p ans)
qed

end

section \<open>Starting the consumer\<close>

lemma initialize_keeps_flag:
  "run (initializeOrderConsumerGroup svc) w = (w', x) \<Longrightarrow> w_consumer_running w' = w_consumer_running w"
  by (auto simp: initializeOrderConsumerGroup_def run_catch run_redis_do split: prod.splits sum.splits if_splits)

lemma start_already_running:
  "w_consumer_running w \<Longrightarrow> run (startOrderConsumer svc consumer sched uuid bound) w = (w, Inr (Some ()))"
proof -
  assume r: "w_consumer_running w"
  then have "w\<lparr>w_consumer_running := True\<rparr> = w" by (cases w) simp
  with r show ?thesis by (simp add: startOrderConsumer_def run_await run_atomic)
qed

text \<open>A start whose group initialisation fails leaves the flag set.\<close>

lemma start_fails:
  assumes "\<not> w_consumer_running w"
    and "run (initializeOrderConsumerGroup svc) (w\<lparr>w_consumer_running := True\<rparr>) = (w1, Inl e)"
  shows "run (startOrderConsumer svc consumer sched uuid bound) w = (w1, Inl e) \<and> w_consumer_running w1"
  using assms initialize_keeps_flag [OF assms(2)]
  by (simp add: startOrderConsumer_def run_await run_atomic)

section \<open>A process without a connected adapter is silent\<close>

definition silent :: "('r, 'd) world \<Rightarrow> ('r, 'd) world \<Rightarrow> bool" where
  "silent w w' \<longleftrightarrow>
     w_adapter_connected w' = w_adapter_connected w \<and> (\<not> w_adapter_connected w \<longrightarrow> w_sent w' = w_sent w)"

lemma silent_redis_do [moves_intros]: "moves silent (redis_do c)"
  unfolding redis_do_def by (rule moves_atomic) (simp add: silent_def case_prod_beta)

lemma silent_db_do [moves_intros]: "moves silent (db_do c)"
  unfolding db_do_def by (rule moves_atomic) (simp add: silent_def case_prod_beta)

lemma silent_Date_now [moves_intros]: "moves silent Date_now"
  unfolding Date_now_def by (rule moves_reads) (simp add: silent_def)

lemma silent_publish [moves_intros]: "moves silent (adapter_publishSeatEvent svc event)"
  unfolding adapter_publishSeatEvent_def
  by (rule moves_atomic) (simp add: silent_def Let_def split: prod.split sum.split del: stringify.simps)

lemma silent_flag [moves_intros]: "moves silent (modifies (\<lambda>w. w\<lparr>w_consumer_running := b\<rparr>))"
  by (rule moves_modifies) (simp add: silent_def)

lemma silent_processMessage [moves_intros]: "moves silent (processMessage svc i m)"
  unfolding processMessage_def settleOrder_def publish_booked_def
  by (auto intro!: moves_intros)

lemma silent_batch [moves_intros]: "moves silent (process_batch svc sched uuid messages)"
  unfolding process_batch_def by (rule moves_Promise_all) (auto intro: moves_intros)

lemma silent_poll [moves_intros]: "moves silent (poll svc consumer blockMs)"
  unfolding poll_def claimPendingMessages_def readMessages_def
  by (auto intro!: moves_intros split: option.split)

lemma silent_initialize [moves_intros]: "moves silent (initializeOrderConsumerGroup svc)"
  unfolding initializeOrderConsumerGroup_def by (auto intro!: moves_intros)

lemma silent_loop [moves_intros]: "moves silent (consumer_loop svc consumer sched uuid bound)"
proof (induction bound)
  case 0
  show ?case by (simp add: moves_intros)
next
  case (Suc bound)
  have "silent w w" for w :: "('a, 'b) world" by (simp add: silent_def)
  with Suc show ?case by (auto intro!: moves_intros)
qed

lemma silent_start: "moves silent (startOrderConsumer svc consumer sched uuid bound)"
proof -
  have "moves silent (atomic (\<lambda>w. (w\<lparr>w_consumer_running := True\<rparr>, Inr (w_consumer_running w))))"
    by (rule moves_atomic) (simp add: silent_def)
  then show ?thesis unfolding startOrderConsumer_def by (auto intro!: moves_intros)
qed

lemma silent_star: "silent\<^sup>*\<^sup>* w w' \<Longrightarrow> silent w w'"
  by (induction rule: rtranclp_induct) (auto simp: silent_def)

section \<open>A settlement on the reference store\<close>

lemma ref_publish_booked:
  "\<exists>sent. run (publish_booked ref_services i p) w = (w\<lparr>w_sent := sent\<rparr>, Inr ())"
  using ref_publish [of "seat_event i (w_clock w) (oc_orderId p) (Booked (oc_eventId p) (oc_seatId p) (oc_orderId p))" w]
  by (simp add: publish_booked_def publishSeatEvent_def run_catch run_await run_Date_now)

lemma ref_settle:
  assumes "ref_orders d (oc_holdId p) = Some row" and "ord_status row \<noteq> BOOKED"
    and "ref_seats d (oc_seatId p) = Some s" and "seat_eventId s = oc_eventId p" and "seat_status s = HELD"
  shows "\<exists>d'. pc_transaction_void ref_prisma (settle_transaction ref_prisma p) d = (d', Inr ())"
  using assms by (simp add: ref_prisma_def ref_transaction_def settle_transaction_def)

lemma ref_process:
  assumes "supported m" and "parsePayload m = Inr p"
    and "ref_orders (w_db w) (oc_holdId p) = Some row" and "ord_status row \<noteq> BOOKED"
    and "ref_seats (w_db w) (oc_seatId p) = Some s" and "seat_eventId s = oc_eventId p" and "seat_status s = HELD"
  shows "\<exists>w'. run (processMessage ref_services i m) w = (w', Inr ()) \<and>
    rs_pel (w_redis w') = filter (\<lambda>j. j \<noteq> msg_id m) (rs_pel (w_redis w))"
proof -
  obtain d' where tx: "pc_transaction_void ref_prisma (settle_transaction ref_prisma p) (w_db w) = (d', Inr ())"
    using ref_settle [OF assms(3-7)] by blast
  obtain sent where pub: "run (publish_booked ref_services i p) (w\<lparr>w_db := d'\<rparr>) = (w\<lparr>w_db := d', w_sent := sent\<rparr>, Inr ())"
    using ref_publish_booked [of i p "w\<lparr>w_db := d'\<rparr>"] by auto
  show ?thesis
    using assms(1,2) tx pub
    by (simp add: processMessage_def settleOrder_def run_catch run_await run_sync run_db_do run_redis_do ref_client_def)
qed

text \<open>
  The world after the order of the reference run, with its entry handed to a consumer, and
  the message the consumer has.
\<close>

definition ref_ordered :: "(ref_redis, ref_db) world" where
  "ref_ordered = fst (run (createOrder ref_services (\<lambda>n. ''h1'') (ref_payload ''ev'' ''s1'' ''u1'')) ref_world)"

definition ref_delivered :: "(ref_redis, ref_db) world" where
  "ref_delivered = ref_ordered\<lparr>w_redis := (w_redis ref_ordered)
     \<lparr>rs_pel := [fst (last (ref_entries (w_redis ref_ordered)))]\<rparr>\<rparr>"

definition ref_message :: RedisStreamMessage where
  "ref_message = toMessage (flat_entry (last (ref_entries (w_redis ref_ordered))))"

lemma ref_ordered_run:
  "\<exists>answer. run (createOrder ref_services (\<lambda>n. ''h1'') (ref_payload ''ev'' ''s1'' ''u1'')) ref_world
    = (ref_ordered, Inr answer)"
  using ref_create_run [of "\<lambda>n. ''h1''"] by (auto simp: ref_ordered_def)

lemma msg_id_toMessage [simp]: "msg_id (toMessage (flat_entry e)) = fst e"
  by (simp add: toMessage_def flat_entry_def)

lemma ref_delivered_pel: "rs_pel (w_redis ref_delivered) = [msg_id ref_message]"
  by (simp add: ref_delivered_def ref_message_def)

lemma ref_delivered_facts:
  "\<exists>p row s. supported ref_message \<and> parsePayload ref_message = Inr p \<and> oc_holdId p = ''h1'' \<and> oc_seatId p = ''s1'' \<and>
    ref_orders (w_db ref_delivered) ''h1'' = Some row \<and> ord_status row = PROCESSING \<and>
    ref_seats (w_db ref_delivered) ''s1'' = Some s \<and> seat_eventId s = oc_eventId p \<and> seat_status s = HELD"
proof -
  obtain answer where r: "run (createOrder ref_services (\<lambda>n. ''h1'') (ref_payload ''ev'' ''s1'' ''u1'')) ref_world
    = (ref_ordered, Inr answer)" using ref_ordered_run by blast
  obtain row where
    placed: "order_placed ref_seats ref_orders rd_events ref_request ''h1'' (w_clock ref_world + 600000) row
      (w_db ref_world) (w_db ref_ordered)"
    and app: "stream_appended ref_entries rs_undelivered (order_fields ''h1'' (w_clock ref_world)
        \<lparr>oc_holdId = ''h1'', oc_orderId = ord_id row, oc_eventId = ''ev'', oc_seatId = ''s1'',
         oc_userId = ''u1'', oc_expiresAt = toISOString (w_clock ref_world + 600000)\<rparr>)
      (w_redis ref_world) (w_redis ref_ordered)"
    using ref_engine.createOrder_returns [OF ref_registered ref_seat_keys_ok r] by (auto simp: ref_normalize)
  let ?p = "\<lparr>oc_holdId = ''h1'', oc_orderId = ord_id row, oc_eventId = ''ev'', oc_seatId = ''s1'',
         oc_userId = ''u1'', oc_expiresAt = toISOString (w_clock ref_world + 600000)\<rparr>"
  from app obtain j where "last (ref_entries (w_redis ref_ordered)) = (j, order_fields ''h1'' (w_clock ref_world) ?p)"
    by (auto simp: stream_appended_def)
  then have "supported ref_message" "parsePayload ref_message = Inr ?p"
    by (simp_all add: ref_message_def order_message_supported order_message_parses)
  moreover have "w_db ref_delivered = w_db ref_ordered" by (simp add: ref_delivered_def)
  ultimately show ?thesis
    using placed by (intro exI [of _ ?p]) (auto simp: order_placed_def order_data.truncate_def)
qed

lemma ref_settled_run:
  "\<exists>w'. run (processMessage ref_services ''m1'' ref_message) ref_delivered = (w', Inr ()) \<and> rs_pel (w_redis w') = []"
proof -
  from ref_delivered_facts obtain p row s where f: "supported ref_message" "parsePayload ref_message = Inr p"
    "oc_holdId p = ''h1''" "oc_seatId p = ''s1''" "ref_orders (w_db ref_delivered) ''h1'' = Some row"
    "ord_status row = PROCESSING" "ref_seats (w_db ref_delivered) ''s1'' = Some s" "seat_eventId s = oc_eventId p"
    "seat_status s = HELD" by blast
  from ref_process [OF f(1,2), of ref_delivered row s "''m1''"] f show ?thesis by (simp add: ref_delivered_pel)
qed

section \<open>Properties\<close>

text \<open>
  Claim C12.  The worker reads back from the stream entry of an order exactly the payload
  \<open>createOrder\<close> wrote, and takes the entry for a supported one.
\<close>

theorem order_message_roundtrip:
  "supported (toMessage (flat_entry (i, order_fields a now p))) \<and>
   parsePayload (toMessage (flat_entry (i, order_fields a now p))) = Inr p"
  by (simp add: order_message_supported order_message_parses)



text \<open>
  Claim C10.  A message leaves the pending list only after its order is booked in the
  database, so a worker that crashes, or a transaction that fails, leaves it to be
  delivered again.
\<close>

theorem acknowledged_after_commit:
  assumes "engine S pttl elapse svc sha1 entries undelivered pending seats orders events"
    and "run (processMessage svc i m) w = (w', x)" and "pending (w_redis w') \<noteq> pending (w_redis w)"
  shows "\<exists>p. supported m \<and> parsePayload m = Inr p \<and> booked orders (oc_holdId p) (w_db w') \<and>
    pending (w_redis w') = pending (w_redis w) - {msg_id m}"
  using assms(2,3) by (rule engine.processMessage_acked [OF assms(1)])

theorem acknowledged_after_commit_witness:
  "\<exists>w'. run (processMessage ref_services ''m1'' ref_message) ref_delivered = (w', Inr ()) \<and>
    booked ref_orders ''h1'' (w_db w')"
proof -
  obtain w' where r: "run (processMessage ref_services ''m1'' ref_message) ref_delivered = (w', Inr ())"
    and pel: "rs_pel (w_redis w') = []" using ref_settled_run by blast
  have "set (rs_pel (w_redis w')) \<noteq> set (rs_pel (w_redis ref_delivered))" using pel ref_delivered_pel by simp
  from acknowledged_after_commit [OF ref_engine.engine_axioms r this]
  obtain p where p: "parsePayload ref_message = Inr p" and b: "booked ref_orders (oc_holdId p) (w_db w')" by blast
  have "oc_holdId p = ''h1''" using ref_delivered_facts p by auto
  with r b show ?thesis by auto
qed

text \<open>
  Claim C11.  Delivery is at least once and settlement is idempotent: a message of an order
  that is booked, delivered again to any consumer in any state, changes nothing in the
  database.
\<close>

theorem redelivery_idempotent:
  assumes "engine S pttl elapse svc sha1 entries undelivered pending seats orders events"
    and "parsePayload m = Inr p" and "booked orders (oc_holdId p) (w_db w)"
    and "run (processMessage svc i m) w = (w', x)"
  shows "w_db w' = w_db w"
  using assms(2-4) by (rule engine.processMessage_booked [OF assms(1)])

theorem redelivery_idempotent_witness:
  "\<exists>w1 w2. run (processMessage ref_services ''m1'' ref_message) ref_delivered = (w1, Inr ()) \<and>
    run (processMessage ref_services ''m2'' ref_message) w1 = (w2, Inr ()) \<and> w_db w2 = w_db w1 \<and>
    w_db w1 \<noteq> w_db ref_delivered"
proof -
  obtain w1 where r: "run (processMessage ref_services ''m1'' ref_message) ref_delivered = (w1, Inr ())"
    and pel: "rs_pel (w_redis w1) = []" using ref_settled_run by blast
  obtain p where p: "parsePayload ref_message = Inr p" and nb: "\<not> booked ref_orders (oc_holdId p) (w_db ref_delivered)"
    using ref_delivered_facts by (auto simp: booked_def)
  have b: "booked ref_orders (oc_holdId p) (w_db w1)"
    using ref_engine.processMessage_acked [OF r] pel ref_delivered_pel p by auto
  obtain w2 x where r2: "run (processMessage ref_services ''m2'' ref_message) w1 = (w2, x)" by force
  then have "x = Inr ()" using ref_engine.processMessage_run [OF r2] by blast
  with redelivery_idempotent [OF ref_engine.engine_axioms p b r2] r r2 b nb show ?thesis by metis
qed

text \<open>
  Claim C8.  From the request to the sold seat: if the entry that a successful
  \<open>createOrder\<close> appended is processed on the database it left, and acknowledged, then the
  order answered to the buyer is booked for the buyer's seat, that seat is sold, and no
  other seat and no other order has changed since before the request.
\<close>

theorem order_to_settlement:
  assumes "engine S pttl elapse svc sha1 entries undelivered pending seats orders events"
    and "registered svc sha1 w" and "seat_keys_ok S w"
    and "run (createOrder svc uuid payload) w = (w1, Inr answer)" and "w_db w2 = w_db w1"
    and "run (processMessage svc i (toMessage (flat_entry (last (entries (w_redis w1)))))) w2 = (w3, x)"
    and "pending (w_redis w3) \<noteq> pending (w_redis w2)"
  shows "\<exists>rq row s. normalizeHoldRequest payload = Inr rq \<and>
    orders (w_db w3) (uuid 0) = Some row \<and> ord_status row = BOOKED \<and> ord_id row = co_orderId answer \<and>
    ord_userId row = rq_userId rq \<and> ord_seatId row = rq_seatId rq \<and>
    seats (w_db w3) (rq_seatId rq) = Some s \<and> seat_status s = SOLD \<and>
    (\<forall>sid. sid \<noteq> rq_seatId rq \<longrightarrow> seats (w_db w3) sid = seats (w_db w) sid) \<and>
    (\<forall>h. h \<noteq> uuid 0 \<longrightarrow> orders (w_db w3) h = orders (w_db w) h)"
  by (rule engine.order_settles [OF assms])

theorem order_to_settlement_witness:
  "\<exists>w3 s. run (processMessage ref_services ''m1'' ref_message) ref_delivered = (w3, Inr ()) \<and>
    ref_seats (w_db w3) ''s1'' = Some s \<and> seat_status s = SOLD"
proof -
  obtain answer where r1: "run (createOrder ref_services (\<lambda>n. ''h1'') (ref_payload ''ev'' ''s1'' ''u1'')) ref_world
    = (ref_ordered, Inr answer)" using ref_ordered_run by blast
  obtain w3 where r: "run (processMessage ref_services ''m1'' ref_message) ref_delivered = (w3, Inr ())"
    and pel: "rs_pel (w_redis w3) = []" using ref_settled_run by blast
  have "w_db ref_delivered = w_db ref_ordered" by (simp add: ref_delivered_def)
  moreover have "set (rs_pel (w_redis w3)) \<noteq> set (rs_pel (w_redis ref_delivered))" using pel ref_delivered_pel by simp
  ultimately show ?thesis
    using order_to_settlement [OF ref_engine.engine_axioms ref_registered ref_seat_keys_ok r1 _ r [unfolded ref_message_def]]
      r by (auto simp: ref_normalize)
qed

text \<open>
  Initialising the group is idempotent, and a group that is created starts at
  the end of the stream: orders appended before it are in the stream and will be handed
  to nobody.
\<close>

theorem group_starts_at_end:
  assumes "engine S pttl elapse svc sha1 entries undelivered pending seats orders events"
    and "run (initializeOrderConsumerGroup svc) w = (w', Inr ())"
  shows "undelivered (w_redis w') = Some (case undelivered (w_redis w) of None \<Rightarrow> [] | Some u \<Rightarrow> u) \<and>
    entries (w_redis w') = entries (w_redis w) \<and> pending (w_redis w') = pending (w_redis w) \<and> w_db w' = w_db w"
  using assms(2) by (rule engine.initialize_group [OF assms(1)])

text \<open>A stream with one order and no group yet.\<close>

definition ref_early :: "(ref_redis, ref_db) world" where
  "ref_early = ref_world\<lparr>w_redis := ref_redis0\<lparr>rs_undelivered := None, rs_entries := [[(''eventId'', ''e1'')]]\<rparr>\<rparr>"

theorem group_starts_at_end_witness:
  "\<exists>w'. run (initializeOrderConsumerGroup ref_services) ref_early = (w', Inr ()) \<and>
    length (ref_entries (w_redis w')) = 1 \<and> rs_undelivered (w_redis w') = Some [] \<and> rs_pel (w_redis w') = []"
proof -
  have e: "rs_undelivered (w_redis ref_early) = None" "rs_pel (w_redis ref_early) = []"
    "length (ref_entries (w_redis ref_early)) = 1"
    by (simp_all add: ref_early_def ref_redis0_def ref_entries_def)
  obtain w' where r: "run (initializeOrderConsumerGroup ref_services) ref_early = (w', Inr ())"
    using e by (simp add: initializeOrderConsumerGroup_def run_catch run_redis_do ref_client_def)
  from group_starts_at_end [OF ref_engine.engine_axioms r] r e show ?thesis by auto
qed

text \<open>
  If the group cannot be initialised, \<open>startOrderConsumer\<close> rejects and the flag
  stays set: every later start returns at once and consumes nothing.
\<close>

theorem failed_start_blocks_restart:
  assumes "\<not> w_consumer_running w"
    and "run (initializeOrderConsumerGroup svc) (w\<lparr>w_consumer_running := True\<rparr>) = (w1, Inl e)"
  shows "run (startOrderConsumer svc consumer sched uuid bound) w = (w1, Inl e) \<and>
    run (startOrderConsumer svc' consumer' sched' uuid' bound') w1 = (w1, Inr (Some ()))"
  using start_fails [OF assms] start_already_running by blast

definition unreachable_services :: "(ref_redis, ref_db) services" where
  "unreachable_services = ref_services\<lparr>redis := ref_client\<lparr>c_xgroup_create := (\<lambda>k g r. (r, Inl (JsError ''Connection is closed.'')))\<rparr>\<rparr>"

theorem failed_start_blocks_restart_witness:
  "\<exists>w1. run (startOrderConsumer unreachable_services ''c'' (\<lambda>_. []) (\<lambda>_ _. ''m'') 5) ref_world
      = (w1, Inl (JsError ''Connection is closed.'')) \<and>
    run (startOrderConsumer ref_services ''c'' (\<lambda>_. []) (\<lambda>_ _. ''m'') 5) w1 = (w1, Inr (Some ()))"
proof -
  have n: "\<not> w_consumer_running ref_world" by (simp add: ref_world_def)
  have "\<not> js_includes ''Connection is closed.'' ''BUSYGROUP''" by code_simp
  then have i: "run (initializeOrderConsumerGroup unreachable_services) (ref_world\<lparr>w_consumer_running := True\<rparr>)
      = (ref_world\<lparr>w_consumer_running := True\<rparr>, Inl (JsError ''Connection is closed.''))"
    by (simp add: initializeOrderConsumerGroup_def run_catch run_redis_do unreachable_services_def)
  from failed_start_blocks_restart [OF n i, where svc' = ref_services] show ?thesis by blast
qed

text \<open>
  A consumer whose process never connected the Pub/Sub adapter, as the
  standalone worker process does not, publishes no event at all, however many orders it
  settles.
\<close>

theorem unconnected_worker_is_silent:
  assumes "\<not> w_adapter_connected w" and "run (startOrderConsumer svc consumer sched uuid bound) w = (w', x)"
  shows "w_sent w' = w_sent w"
  using silent_star [OF moves_run [OF silent_start assms(2)]] assms(1) by (simp add: silent_def)

theorem unconnected_worker_is_silent_witness:
  "w_sent (fst (run (startOrderConsumer ref_services ''c'' (\<lambda>_. []) (\<lambda>_ _. ''m'') 3)
     (ref_delivered\<lparr>w_adapter_connected := False\<rparr>))) = w_sent ref_delivered"
proof -
  let ?w = "ref_delivered\<lparr>w_adapter_connected := False\<rparr>"
  obtain w' x where "run (startOrderConsumer ref_services ''c'' (\<lambda>_. []) (\<lambda>_ _. ''m'') 3) ?w = (w', x)" by force
  with unconnected_worker_is_silent [of ?w ref_services "''c''" "\<lambda>_. []" "\<lambda>_ _. ''m''" 3 w' x] show ?thesis by simp
qed

text \<open>
  Claim C25.  A release can take a seat away from another buyer's order.  While the order
  under hold \<open>h\<close> waits for its settlement, a successful \<open>releaseSeat\<close> for the same seat under
  another hold moves the seat row back to AVAILABLE; the order stays, and its settlement
  is refused from then on.
\<close>

theorem release_reopens_ordered_seat:
  assumes "engine S pttl elapse svc sha1 entries undelivered pending seats orders events"
    and "registered svc sha1 w" and "seat_keys_ok S w"
    and "orders (w_db w) h = Some row" and "ord_status row = PROCESSING"
    and "seats (w_db w) (rq_seatId rq) = Some s" and "seat_eventId s = rq_eventId rq" and "seat_status s = HELD"
    and "normalizeHoldRequest payload = Inr rq" and "run (releaseSeat svc uuid payload) w = (w', Inr answer)"
  shows "orders (w_db w') h = Some row \<and> seats (w_db w') (rq_seatId rq) = Some (s\<lparr>seat_status := AVAILABLE\<rparr>) \<and>
    (\<forall>p. oc_holdId p = h \<longrightarrow> oc_seatId p = rq_seatId rq \<longrightarrow> (\<exists>e. run (settleOrder svc p) w' = (w', Inl e)))"
proof -
  have r: "seat_reopened seats orders rq (w_db w) (w_db w')"
    using engine.releaseSeat_returns [OF assms(1-3,10)] assms(9) by auto
  then have o': "orders (w_db w') h = Some row"
    and s': "seats (w_db w') (rq_seatId rq) = Some (s\<lparr>seat_status := AVAILABLE\<rparr>)"
    using assms(4,6-8) by (simp_all add: seat_reopened_def)
  have "\<exists>e. run (settleOrder svc p) w' = (w', Inl e)" if "oc_holdId p = h" "oc_seatId p = rq_seatId rq" for p
  proof -
    obtain w2 x where run: "run (settleOrder svc p) w' = (w2, x)" by force
    show ?thesis
      using engine.settleOrder_run [OF assms(1) run] run that o' s' assms(5)
      by (cases x) (auto simp: booked_def order_settled_def)
  qed
  with o' s' show ?thesis by blast
qed

definition ref_reheld :: "(ref_redis, ref_db) world" where
  "ref_reheld = ref_held\<lparr>w_db := ref_db0\<lparr>rd_seats := [''s1'' \<mapsto> ref_seat ''s1'' HELD],
     rd_orders := [''h0'' \<mapsto> \<lparr>ord_holdId = ''h0'', ord_eventId = ''ev'', ord_seatId = ''s1'', ord_userId = ''u0'',
       ord_expiresAt = 0, ord_status = PROCESSING, ord_id = ''o0''\<rparr>]\<rparr>\<rparr>"

theorem release_reopens_ordered_seat_witness:
  "\<exists>w' answer. run (releaseSeat ref_services (\<lambda>n. ''e1'') (ref_release_payload ''h1'')) ref_reheld = (w', Inr answer) \<and>
    (\<exists>s. ref_seats (w_db w') ''s1'' = Some s \<and> seat_status s = AVAILABLE) \<and> ref_orders (w_db w') ''h0'' \<noteq> None"
proof -
  have "ref_orders (w_db ref_reheld) ''h1'' = None" by (simp add: ref_reheld_def ref_orders_def)
  then obtain w' answer where
    r: "run (releaseSeat ref_services (\<lambda>n. ''e1'') (ref_release_payload ''h1'')) ref_reheld = (w', Inr answer)"
    using ref_releaseSeat_run [of "w_db ref_reheld" "\<lambda>n. ''e1''"] unfolding ref_reheld_def by auto
  have ok: "registered ref_services ref_sha1 ref_reheld" "seat_keys_ok ref_server ref_reheld"
    using ref_held_facts(2,3) by (simp_all add: ref_reheld_def registered_def seat_keys_ok_def)
  obtain row s where "ref_orders (w_db ref_reheld) ''h0'' = Some row" "ord_status row = PROCESSING"
    "ref_seats (w_db ref_reheld) ''s1'' = Some s" "seat_eventId s = ''ev''" "seat_status s = HELD"
    by (simp add: ref_reheld_def ref_db0_def ref_orders_def ref_seats_def ref_seat_def)
  then have "ref_orders (w_db w') ''h0'' = Some row \<and> ref_seats (w_db w') ''s1'' = Some (s\<lparr>seat_status := AVAILABLE\<rparr>)"
    using release_reopens_ordered_seat [OF ref_engine.engine_axioms ok _ _ _ _ _ ref_normalize_release r, of "''h0''" row s]
    by simp
  with r show ?thesis by auto
qed

end
