(* ===== verification/Diagnostics.thy ===== *)
theory Diagnostics imports Complex_Main Stampede_Contest Seat_Contest Order_Worker begin

text \<open>
  \<open>src/src/services/diagnostics.service.ts\<close>: the benchmarks.  Each one runs a batch of calls
  concurrently; \<open>sched\<close> is the interleaving of the batch, \<open>uuid i\<close> what the \<open>i\<close>-th member draws.
  The averages are exact rationals rounded as \<open>toFixed(2)\<close> does.  Counting of orders and
  \<open>XPENDING\<close> are parameters.
\<close>

section \<open>Requests and reports\<close>

record SeatingMapBenchmarkRequest =
  sb_eventId :: string
  sb_useRedis :: bool
  sb_concurrency :: nat
  sb_clearCacheBeforeRun :: bool

record SeatingMapBenchmarkResponse =
  sr_eventId :: string
  sr_mode :: SeatingMapMode
  sr_concurrency :: nat
  sr_cacheWasCleared :: bool
  sr_successfulRequests :: nat
  sr_failedRequests :: nat
  sr_databaseLoads :: nat
  sr_cacheHits :: nat
  sr_mutexAcquired :: nat
  sr_mutexWaiters :: nat
  sr_averageDurationMs :: rat
  sr_minDurationMs :: int
  sr_maxDurationMs :: int
  sr_totalDurationMs :: int
  sr_phase2Passed :: bool

record SeatHoldBenchmarkRequest =
  hb_eventId :: string
  hb_seatId :: string
  hb_concurrency :: nat

record SeatHoldBenchmarkResponse =
  hbr_eventId :: string
  hbr_targetSeatId :: string
  hbr_concurrency :: nat
  hbr_executionMode :: string
  hbr_successfulHolds :: nat
  hbr_conflicts :: nat
  hbr_oversellingRate :: string
  hbr_totalExecutionTimeMs :: int

record OrderStreamBenchmarkRequest =
  ob_eventId :: string
  ob_seatIds :: "string list"
  ob_userIdPrefix :: string

record OrderStreamBenchmarkResponse =
  obr_totalEventsPublished :: nat
  obr_eventsProcessedByWorker :: nat
  obr_pendingInStream :: int
  obr_dbOrdersCreated :: nat
  obr_averageProcessingTimeMs :: rat

text \<open>\<open>Number(x.toFixed(2))\<close>: to the nearest hundredth, a tie away from zero.\<close>

definition toFixed2 :: "rat \<Rightarrow> rat" where
  "toFixed2 x = (if x < 0 then - (of_int \<lfloor>- x * 100 + 1 / 2\<rfloor> / 100) else of_int \<lfloor>x * 100 + 1 / 2\<rfloor> / 100)"

section \<open>Seating-map benchmark\<close>

definition count_meta :: "(SeatingMapExecutionMeta \<Rightarrow> bool) \<Rightarrow> SeatingMapResult list \<Rightarrow> nat" where
  "count_meta P results = length (filter (\<lambda>result. P (smr_meta result)) results)"

definition seating_map_report ::
  "SeatingMapBenchmarkRequest \<Rightarrow> (exn + SeatingMapResult) list \<Rightarrow> int \<Rightarrow> SeatingMapBenchmarkResponse" where
  "seating_map_report request results totalDurationMs =
     (let successful = oks results;
          durations = map (\<lambda>result. durationMs (smr_meta result)) successful;
          databaseLoads = count_meta databaseLoaded successful
      in \<lparr>sr_eventId = sb_eventId request,
          sr_mode = (if sb_useRedis request then RedisProtected else Direct),
          sr_concurrency = sb_concurrency request,
          sr_cacheWasCleared = (sb_clearCacheBeforeRun request \<and> sb_useRedis request),
          sr_successfulRequests = length successful,
          sr_failedRequests = length results - length successful,
          sr_databaseLoads = databaseLoads,
          sr_cacheHits = count_meta cacheHit successful,
          sr_mutexAcquired = count_meta lockAcquired successful,
          sr_mutexWaiters = count_meta waitedForLock successful,
          sr_averageDurationMs =
            (if durations \<noteq> [] then toFixed2 (of_int (sum_list durations) / of_nat (length durations)) else 0),
          sr_minDurationMs = (if durations \<noteq> [] then Min (set durations) else 0),
          sr_maxDurationMs = (if durations \<noteq> [] then Max (set durations) else 0),
          sr_totalDurationMs = totalDurationMs,
          sr_phase2Passed =
            (sb_useRedis request \<and> length successful = sb_concurrency request \<and> databaseLoads \<le> 1)\<rparr>)"

definition runSeatingMapBenchmark ::
  "('r, 'd) services \<Rightarrow> nat list \<Rightarrow> (nat \<Rightarrow> string) \<Rightarrow> SeatingMapBenchmarkRequest \<Rightarrow>
   (('r, 'd) world, SeatingMapBenchmarkResponse) proc" where
  "runSeatingMapBenchmark svc sched uuid request =
     await (if sb_clearCacheBeforeRun request \<and> sb_useRedis request
            then clearSeatingMapCache svc (sb_eventId request) else Ret ()) (\<lambda>_.
     await Date_now (\<lambda>startedAt.
     await (Promise_allSettled sched
       (map (\<lambda>i. getSeatingMapForMode svc (uuid i) (sb_eventId request) (sb_useRedis request)) [0..<sb_concurrency request])) (\<lambda>results.
     await Date_now (\<lambda>now.
     Ret (seating_map_report request results (now - startedAt))))))"

section \<open>Seat-hold benchmark\<close>

definition diagnostic_user :: "nat \<Rightarrow> string" where
  "diagnostic_user index = ''diagnostic-user-'' @ show_nat index"

definition runSeatHoldBenchmark ::
  "('r, 'd) services \<Rightarrow> nat list \<Rightarrow> (nat \<Rightarrow> string) \<Rightarrow> SeatHoldBenchmarkRequest \<Rightarrow>
   (('r, 'd) world, SeatHoldBenchmarkResponse) proc" where
  "runSeatHoldBenchmark svc sched uuid request =
     await (redis_do (c_del (redis svc) (getSeatLockKey (hb_eventId request) (hb_seatId request)))) (\<lambda>_.
     await Date_now (\<lambda>startedAt.
     await (Promise_all sched
       (map (\<lambda>index. acquireSeatHold svc (uuid index) (hb_eventId request) (hb_seatId request)
          (diagnostic_user index) (Finite 600)) [0..<hb_concurrency request])) (\<lambda>results.
     await Date_now (\<lambda>now.
     Ret \<lparr>hbr_eventId = hb_eventId request, hbr_targetSeatId = hb_seatId request,
       hbr_concurrency = hb_concurrency request, hbr_executionMode = ''redis-atomic-lua'',
       hbr_successfulHolds = length (filter (\<lambda>result. se_result result = RInt 1) results),
       hbr_conflicts = length (filter (\<lambda>result. se_result result = RInt 0) results),
       hbr_oversellingRate = ''0%'', hbr_totalExecutionTimeMs = now - startedAt\<rparr>))))"

section \<open>Order-stream benchmark\<close>

text \<open>\<open>order.count\<close> for ids and a status; the first member of the summary of \<open>XPENDING\<close>.\<close>

record ('r, 'd) bench_services =
  order_count :: "string list \<Rightarrow> OrderStatus \<Rightarrow> 'd \<Rightarrow> exn + nat"
  xpending :: "string \<Rightarrow> string \<Rightarrow> 'r \<Rightarrow> 'r \<times> (exn + int option)"

text \<open>The draining loop; the first argument counts the attempts left.\<close>

fun drain_orders ::
  "('r, 'd) services \<Rightarrow> string \<Rightarrow> (nat \<Rightarrow> nat list) \<Rightarrow> (nat \<Rightarrow> nat \<Rightarrow> string) \<Rightarrow> nat \<Rightarrow> nat \<Rightarrow> nat \<Rightarrow> (('r, 'd) world, unit) proc" where
  "drain_orders svc consumer sched uuid 0 processed wanted = Ret ()"
| "drain_orders svc consumer sched uuid (Suc attempts_left) processed wanted =
     (if processed < wanted then
        await (processAvailableOrderMessages svc consumer (sched attempts_left) (uuid attempts_left)) (\<lambda>batchSize.
        await (if batchSize = 0 then sleep 10 else Ret ()) (\<lambda>_.
        drain_orders svc consumer sched uuid attempts_left (processed + batchSize) wanted))
      else Ret ())"

definition benchmark_order :: "OrderStreamBenchmarkRequest \<Rightarrow> nat \<Rightarrow> HoldSeatPayload" where
  "benchmark_order request index =
     \<lparr>pl_eventId = Some (JStr (ob_eventId request)), pl_seatId = Some (JStr (ob_seatIds request ! index)),
      pl_userId = Some (JStr (ob_userIdPrefix request @ CHR ''-'' # show_nat index))\<rparr>"

definition runOrderStreamBenchmark ::
  "('r, 'd) services \<Rightarrow> ('r, 'd) bench_services \<Rightarrow> string \<Rightarrow> nat list \<Rightarrow> (nat \<Rightarrow> nat \<Rightarrow> string) \<Rightarrow>
   (nat \<Rightarrow> nat list) \<Rightarrow> (nat \<Rightarrow> nat \<Rightarrow> string) \<Rightarrow> OrderStreamBenchmarkRequest \<Rightarrow>
   (('r, 'd) world, OrderStreamBenchmarkResponse) proc" where
  "runOrderStreamBenchmark svc B consumer sched uuid scheds uuids request =
     await (initializeOrderConsumerGroup svc) (\<lambda>_.
     await Date_now (\<lambda>startedAt.
     await (Promise_allSettled sched
       (map (\<lambda>index. createOrder svc (uuid index) (benchmark_order request index)) [0..<length (ob_seatIds request)])) (\<lambda>results.
     let successfulOrders = oks results in
     await (drain_orders svc consumer scheds uuids 20 0 (length successfulOrders)) (\<lambda>_.
     let orderIds = map co_orderId successfulOrders in
     await (if orderIds = [] then Ret 0 else db_read (order_count B orderIds BOOKED)) (\<lambda>bookedOrders.
     await (redis_do (xpending B ORDER_STREAM_KEY ORDER_CONSUMER_GROUP)) (\<lambda>pendingSummary.
     await Date_now (\<lambda>now.
     Ret \<lparr>obr_totalEventsPublished = length successfulOrders, obr_eventsProcessedByWorker = bookedOrders,
       obr_pendingInStream = (case pendingSummary of Some n \<Rightarrow> n | None \<Rightarrow> 0), obr_dbOrdersCreated = bookedOrders,
       obr_averageProcessingTimeMs =
         (if successfulOrders = [] then 0 else toFixed2 (of_int (now - startedAt) / of_nat (length successfulOrders)))\<rparr>)))))))"

section \<open>Batches\<close>

lemma all_isInr: "list_all isInr rs \<Longrightarrow> rs = map Inr (oks rs)"
proof (induction rs)
  case (Cons r rs)
  then show ?case by (cases r) simp_all
qed simp

lemma Promise_all_Inr:
  assumes "run (Promise_all sched ps) w = (w', Inr results)"
  shows "run (par sched ps) w = (w', Inr (map Inr results))" "length results = length ps"
proof -
  obtain w1 r where r: "run (par sched ps) w = (w1, r)" by force
  from run_par_length [OF this] obtain rs where rs: "r = Inr rs" "length rs = length ps" by blast
  have fin: "run (case find (\<lambda>r. \<not> isInr r) rs of Some (Inl e) \<Rightarrow> Throw e | _ \<Rightarrow> Ret (oks rs)) w1 = (w', Inr results)"
    using assms r rs(1) by (simp add: Promise_all_def run_simps)
  have "find (\<lambda>r. \<not> isInr r) rs = None"
  proof (rule ccontr)
    assume "find (\<lambda>r. \<not> isInr r) rs \<noteq> None"
    then obtain y where y: "find (\<lambda>r. \<not> isInr r) rs = Some y" by blast
    then have "\<not> isInr y" by (auto simp: find_Some_iff)
    then obtain e where "y = Inl e" by (cases y) auto
    with y fin show False by simp
  qed
  with fin have "results = oks rs" "w1 = w'" and "list_all isInr rs"
    by (auto simp: find_None_iff list_all_iff)
  then have "rs = map Inr results" using all_isInr by metis
  with r rs \<open>w1 = w'\<close> show "run (par sched ps) w = (w', Inr (map Inr results))" "length results = length ps" by simp_all
qed

lemma settled_steps:
  assumes "run (Promise_allSettled sched ps) w = (w', Inr rs)"
  shows "pool_steps env (w, ps) (w', map rethrow rs)" "length rs = length ps"
  using par_steps [of sched ps w w' rs env] run_par_length [of sched ps w w' "Inr rs"] assms
  by (auto simp: Promise_allSettled_def)

lemma exactly_one_filter:
  assumes "\<exists>i < length xs. P (xs ! i)" and "\<And>i j. i < length xs \<Longrightarrow> j < length xs \<Longrightarrow> P (xs ! i) \<Longrightarrow> P (xs ! j) \<Longrightarrow> i = j"
  shows "length (filter P xs) = 1"
proof -
  have "filter P xs \<noteq> []" using assms(1) by (auto simp: filter_empty_conv)
  moreover have "length (filter P xs) \<le> 1" by (rule distinct_map_filter_le_one) (rule assms(2))
  ultimately show ?thesis by (cases "filter P xs") auto
qed

context redis_remote begin

lemma deleted_free: "c_del (redis svc) k r = (r', Inr n) \<Longrightarrow> GET S k r' = None"
proof -
  assume "c_del (redis svc) k r = (r', Inr n)"
  with del_remote [of r k] have "map_prod id Inr (DEL S k r) = (r', Inr n :: exn + int)"
    by (metis delivers_Inr)
  then have d: "DEL S k r = (r', n)" by (cases "DEL S k r") auto
  show ?thesis
  proof (cases "GET S k r = None")
    case True
    with del_missing [OF True d] show ?thesis by simp
  next
    case False
    with del [OF False d] show ?thesis by simp
  qed
qed

lemma hold_batch:
  assumes "inj uuid" and "registered svc sha1 w" and "GET S (seatLockKey ev seat) (w_redis w) = None" and "0 < n"
    and "run (Promise_all sched (attempts svc uuid ev seat user ttl n)) w = (w', Inr results)"
  shows "length (filter (\<lambda>ex. se_result ex = RInt 1) results) = 1"
    and "length (filter (\<lambda>ex. se_result ex = RInt 0) results) = n - 1"
    and "\<exists>i < n. held_by S (seatLockKey ev seat) (user i) (uuid i) (w_redis w')"
proof -
  have len: "length results = n" using Promise_all_Inr(2) [OF assms(5)] by simp
  let ?ps = "map Ret results :: (('r, 'd) world, SeatLockExecution) proc list"
  have "pool_steps (quiet S (seatLockKey ev seat)) (w, attempts svc uuid ev seat user ttl n) (w', map rethrow (map Inr results))"
    by (rule par_steps [OF Promise_all_Inr(1) [OF assms(5)]])
  then have steps: "pool_steps (quiet S (seatLockKey ev seat)) (w, attempts svc uuid ev seat user ttl n) (w', ?ps)"
    by (simp add: rethrow_def o_def)
  note win = attempts_winner [OF assms(1-3) steps]
  have one: "won (?ps ! i) \<longleftrightarrow> se_result (results ! i) = RInt 1" if "i < n" for i
    using that len by (simp add: won_iff)
  have "\<forall>i < n. answered (?ps ! i)" using len by simp
  from win(3) [OF assms(4) this] obtain i where i: "i < n" "won (?ps ! i)" by (elim exE conjE) (rule that)
  show "\<exists>i < n. held_by S (seatLockKey ev seat) (user i) (uuid i) (w_redis w')"
  proof (rule exI [of _ i], rule conjI)
    show "i < n" by (rule i(1))
    show "held_by S (seatLockKey ev seat) (user i) (uuid i) (w_redis w')" by (rule win(1) [OF i])
  qed
  show one_win: "length (filter (\<lambda>ex. se_result ex = RInt 1) results) = 1"
    by (rule exactly_one_filter) (use i one len win(2) in auto)
  have "se_result ex = RInt 1 \<or> se_result ex = RInt 0" if ex: "ex \<in> set results" for ex
  proof -
    from ex obtain j where j: "j < n" "ex = results ! j" using len by (auto simp: in_set_conv_nth)
    have "outcome S (seatLockKey ev seat) (user j) (uuid j) (se_result ex) w'"
      by (rule attempts_outcome [OF assms(1-3) steps j(1)]) (use j len in simp)
    then show ?thesis by (auto simp: outcome_def)
  qed
  then have "filter (\<lambda>ex. se_result ex = RInt 0) results = filter (\<lambda>ex. \<not> se_result ex = RInt 1) results"
    by (intro filter_cong) auto
  then show "length (filter (\<lambda>ex. se_result ex = RInt 0) results) = n - 1"
    using one_win len sum_length_filter_compl [of "\<lambda>ex. se_result ex = RInt 1" results] by simp
qed

lemma reader_batch:
  assumes "inj uuid" and "registered svc sha1 w"
    and "run (Promise_allSettled sched (readers svc uuid ev n)) w = (w', Inr rs)"
  shows "count_meta databaseLoaded (oks rs) \<le> 1" "length rs = n" "length (oks rs) \<le> n"
proof -
  note s = settled_steps [OF assms(3)]
  show len: "length rs = n" using s(2) by (simp add: readers_def)
  show "length (oks rs) \<le> n" using length_oks_le [of rs] len by simp
  let ?ps = "map rethrow rs :: (('r, 'd) world, SeatingMapResult) proc list"
  obtain g where g: "\<forall>i < n. loaded (?ps ! i) \<longrightarrow> hydrated S ev w' \<and> g = Some i"
    by (rule exE [OF readers_loaded [OF assms(2,1) s(1)]]) (erule that [OF conjunct1])
  let ?P = "\<lambda>r. case r of Inl e \<Rightarrow> False | Inr res \<Rightarrow> databaseLoaded (smr_meta res)"
  have "loaded (rethrow r :: (('r, 'd) world, SeatingMapResult) proc) \<longleftrightarrow> ?P r" for r :: "exn + SeatingMapResult" by (cases r) (simp_all add: loaded_def rethrow_def)
  then have at: "g = Some i" if "i < length rs" "?P (rs ! i)" for i using g len that by simp
  have "length (filter ?P rs) \<le> 1"
  proof (rule distinct_map_filter_le_one)
    fix i j
    assume "i < length rs" "j < length rs" "?P (rs ! i)" "?P (rs ! j)"
    then show "i = j" using at [of i] at [of j] by simp
  qed
  moreover have "count_meta databaseLoaded (oks xs) = length (filter ?P xs)" for xs :: "(exn + SeatingMapResult) list"
    unfolding count_meta_def
  proof (induction xs)
    case (Cons x xs)
    then show ?case by (cases x) simp_all
  qed simp
  ultimately show "count_meta databaseLoaded (oks rs) \<le> 1" by simp
qed

lemma hold_benchmark:
  assumes "registered svc sha1 w" and "inj uuid" and "0 < hb_concurrency request"
    and "run (runSeatHoldBenchmark svc sched uuid request) w = (w', Inr report)"
  shows "hbr_successfulHolds report = 1 \<and> hbr_conflicts report = hb_concurrency request - 1 \<and>
    (\<exists>i < hb_concurrency request. held_by S (seatLockKey (hb_eventId request) (hb_seatId request))
       (diagnostic_user i) (uuid i) (w_redis w'))"
proof -
  let ?key = "seatLockKey (hb_eventId request) (hb_seatId request)"
  let ?batch = "Promise_all sched (attempts svc uuid (hb_eventId request) (hb_seatId request) diagnostic_user (Finite 600) (hb_concurrency request))"
  obtain r n where d: "c_del (redis svc) ?key (w_redis w) = (r, Inr n)"
    using assms(4) by (auto simp: runSeatHoldBenchmark_def getSeatLockKey_def run_simps split: prod.splits sum.splits)
  let ?w = "w\<lparr>w_redis := r\<rparr>"
  have free: "GET S ?key (w_redis ?w) = None" using deleted_free [OF d] by simp
  have reg: "registered svc sha1 ?w" using assms(1) by (simp add: registered_def)
  obtain results where b: "run ?batch ?w = (w', Inr results)"
    and rep: "hbr_successfulHolds report = length (filter (\<lambda>ex. se_result ex = RInt 1) results)"
      "hbr_conflicts report = length (filter (\<lambda>ex. se_result ex = RInt 0) results)"
    using assms(4) d
    by (auto simp: runSeatHoldBenchmark_def getSeatLockKey_def attempts_def run_simps split: prod.splits sum.splits)
  from hold_batch [OF assms(2) reg free assms(3) b] rep show ?thesis by simp
qed

lemma map_benchmark:
  assumes "registered svc sha1 w" and "inj uuid" and "sb_useRedis request"
    and "run (runSeatingMapBenchmark svc sched uuid request) w = (w', Inr report)"
  shows "sr_databaseLoads report \<le> 1 \<and>
    sr_successfulRequests report + sr_failedRequests report = sb_concurrency request \<and>
    (sr_phase2Passed report \<longleftrightarrow> sr_failedRequests report = 0)"
proof -
  let ?batch = "Promise_allSettled sched (readers svc uuid (sb_eventId request) (sb_concurrency request))"
  obtain w0 rs now w1 where b: "run ?batch w0 = (w1, Inr rs)" and w0: "w_digests w0 = w_digests w" and rep: "report = seating_map_report request rs now"
    using assms(3,4)
    by (cases "sb_clearCacheBeforeRun request")
       (auto simp: runSeatingMapBenchmark_def clearSeatingMapCache_def getSeatingMapForMode_def readers_def run_simps
          split: prod.splits sum.splits)
  have reg: "registered svc sha1 w0" using assms(1) w0 by (simp add: registered_def)
  from reader_batch [OF assms(2) reg b] assms(3) show ?thesis
    by (auto simp: rep seating_map_report_def Let_def)
qed

end

section \<open>Properties\<close>

text \<open>
  Claim C35.  The seat-hold benchmark reports the truth about the lock: whenever it answers, in
  any interleaving of its attempts, exactly one hold succeeded, all the others are conflicts,
  and the key belongs to one of the diagnostic users.
\<close>

theorem hold_benchmark_outcome:
  assumes "redis_remote S pttl elapse svc sha1" and "registered svc sha1 w" and "inj uuid" and "0 < hb_concurrency request"
    and "run (runSeatHoldBenchmark svc sched uuid request) w = (w', Inr report)"
  shows "hbr_successfulHolds report = 1 \<and> hbr_conflicts report = hb_concurrency request - 1 \<and>
    (\<exists>i < hb_concurrency request. held_by S (seatLockKey (hb_eventId request) (hb_seatId request))
       (diagnostic_user i) (uuid i) (w_redis w'))"
  by (rule redis_remote.hold_benchmark [OF assms])

text \<open>Two attempts, one after the other, on the reference store.\<close>

lemma run_two:
  assumes "run p w = (w1, Inr a)" and "run q w1 = (w2, Inr b)"
  shows "run (Promise_all [] [p, q]) w = (w2, Inr [a, b])" "run (Promise_allSettled [] [p, q]) w = (w2, Inr [Inr a, Inr b])"
  using assms by (simp_all add: Promise_all_def Promise_allSettled_def run_simps)

definition two_holds :: SeatHoldBenchmarkRequest where
  "two_holds = \<lparr>hb_eventId = ''ev'', hb_seatId = ''s1'', hb_concurrency = 2\<rparr>"

lemma ref_two_holds:
  "\<exists>w' report. run (runSeatHoldBenchmark ref_services [] (\<lambda>i. replicate i CHR ''h'') two_holds) ref_world = (w', Inr report)"
proof -
  let ?k = "seatLockKey ''ev'' ''s1''" and ?id = "\<lambda>i. replicate i CHR ''h''"
  let ?p = "\<lambda>i. acquireSeatHold ref_services (?id i) ''ev'' ''s1'' (diagnostic_user i) (Finite 600)"
  let ?w0 = "ref_world\<lparr>w_redis := fst (ref_del ?k (w_redis ref_world))\<rparr>"
  have free: "GET ref_server ?k (w_redis ?w0) = None" by (simp add: ref_del_def ref_get_def)
  have "rs_cached (w_redis ?w0)" by (simp add: ref_del_def ref_world_def ref_redis0_def)
  then obtain r1 ex1 where run1: "run (?p 0) ?w0 = (?w0\<lparr>w_redis := r1\<rparr>, Inr ex1)" "rs_cached r1"
    using ref_acquire_answers [of ?w0 "''ev''" "''s1''" "?id 0" "diagnostic_user 0" "Finite 600"] free
    by (auto simp: well_held_free)
  let ?w1 = "?w0\<lparr>w_redis := r1\<rparr>"
  have "registered ref_services ref_sha1 ?w0" using ref_registered by (simp add: registered_def)
  then have "well_held ref_server ?k (w_redis ?w1)"
    using ref_remote.acquire_returns [OF _ well_held_free [OF free] run1(1)] free by (auto intro: held_by_well_held)
  then obtain r2 ex2 where run2: "run (?p 1) ?w1 = (?w1\<lparr>w_redis := r2\<rparr>, Inr ex2)"
    using ref_acquire_answers [of ?w1 "''ev''" "''s1''" "?id 1" "diagnostic_user 1" "Finite 600"] run1(2) by auto
  have "[0..<2] = [0, 1::nat]" by (simp add: upt_rec)
  with run_two(1) [OF run1(1) run2] show ?thesis
    by (simp add: runSeatHoldBenchmark_def two_holds_def getSeatLockKey_def run_simps ref_services_def [THEN arg_cong [of _ _ redis]]
        ref_client_def case_prod_beta)
qed

theorem hold_benchmark_outcome_witness:
  "\<exists>w' report. run (runSeatHoldBenchmark ref_services [] (\<lambda>i. replicate i CHR ''h'') two_holds) ref_world = (w', Inr report) \<and>
    hbr_successfulHolds report = 1 \<and> hbr_conflicts report = 1"
proof -
  obtain w' report where r: "run (runSeatHoldBenchmark ref_services [] (\<lambda>i. replicate i CHR ''h'') two_holds) ref_world = (w', Inr report)"
    using ref_two_holds by blast
  have "inj (\<lambda>i. replicate i CHR ''h'')" by (rule injI) (metis length_replicate)
  from hold_benchmark_outcome [OF ref_remote.redis_remote_axioms ref_registered this _ r] r show ?thesis
    by (simp add: two_holds_def)
qed

text \<open>
  The seating-map benchmark in protected mode never reports more than one load of the
  database, its two counts add up to the number of requests, and the verdict is that none failed.
\<close>

theorem map_benchmark_outcome:
  assumes "redis_remote S pttl elapse svc sha1" and "registered svc sha1 w" and "inj uuid" and "sb_useRedis request"
    and "run (runSeatingMapBenchmark svc sched uuid request) w = (w', Inr report)"
  shows "sr_databaseLoads report \<le> 1 \<and>
    sr_successfulRequests report + sr_failedRequests report = sb_concurrency request \<and>
    (sr_phase2Passed report \<longleftrightarrow> sr_failedRequests report = 0)"
  by (rule redis_remote.map_benchmark [OF assms])

definition two_readers :: SeatingMapBenchmarkRequest where
  "two_readers = \<lparr>sb_eventId = ''ev'', sb_useRedis = True, sb_concurrency = 2, sb_clearCacheBeforeRun = False\<rparr>"

lemma ref_two_readers:
  "\<exists>w' report. run (runSeatingMapBenchmark ref_steady [] (\<lambda>i. replicate i CHR ''t'') two_readers) ref_world = (w', Inr report) \<and>
    sr_failedRequests report = 0"
proof -
  let ?p = "\<lambda>i. getSeatingMapWithMetrics ref_steady (replicate i CHR ''t'') ''ev''"
  obtain w1 res1 where r1: "run (?p 0) ref_world = (w1, Inr res1)" using ref_cold_run by blast
  obtain m where "cached_value (GET ref_server (seatingMapCacheKey ''ev'') (w_redis w1)) = Inr (Some m)"
    using ref_cold_cached [OF r1] by auto
  then obtain res2 where r2: "run (?p 1) w1 = (w1, Inr res2)"
    using ref_steady_shield.reliable_hit [OF ref_steady_reliable] by blast
  have "[0..<2] = [0, 1::nat]" by (simp add: upt_rec)
  with run_two(2) [OF r1 r2] show ?thesis
    by (simp add: runSeatingMapBenchmark_def two_readers_def getSeatingMapForMode_def run_simps seating_map_report_def Let_def)
qed

theorem map_benchmark_outcome_witness:
  "\<exists>w' report. run (runSeatingMapBenchmark ref_steady [] (\<lambda>i. replicate i CHR ''t'') two_readers) ref_world = (w', Inr report) \<and>
    sr_databaseLoads report \<le> 1 \<and> sr_phase2Passed report"
proof -
  obtain w' report where r: "run (runSeatingMapBenchmark ref_steady [] (\<lambda>i. replicate i CHR ''t'') two_readers) ref_world = (w', Inr report)"
    "sr_failedRequests report = 0" using ref_two_readers by blast
  have "inj (\<lambda>i. replicate i CHR ''t'')" by (rule injI) (metis length_replicate)
  from map_benchmark_outcome [OF ref_steady_shield.redis_remote_axioms ref_steady_registered this _ r(1)] r show ?thesis
    by (simp add: two_readers_def)
qed

end
