(* ===== verification/Http.thy ===== *)
theory Http imports Json begin

text \<open>
  What the HTTP layer sees of Express: a request with its header lookup, query, route
  parameters and parsed body, and what a handler does with it.  A missing member is
  \<open>None\<close>.  A handler that throws or whose promise is rejected hands its error to the error
  middleware.
\<close>

section \<open>Requests and answers\<close>

record http_request =
  req_method :: string
  req_path :: string
  req_header :: "string \<Rightarrow> string option"
  req_ip :: "string option"
  req_remoteAddress :: "string option"
  req_query :: "string \<Rightarrow> json option"
  req_params :: "string \<Rightarrow> string option"
  req_body :: "json option"

type_synonym headers = "(string \<times> int) list"

record http_response =
  res_status :: nat
  res_headers :: headers
  res_json :: json

text \<open>A middleware calls \<open>next()\<close>, with the headers it has set so far, or answers itself.\<close>

datatype outcome = Next headers | Respond http_response

section \<open>encodeURIComponent\<close>

definition hex_upper :: "nat \<Rightarrow> char" where
  "hex_upper n = (if n < 10 then char_of (48 + n) else char_of (55 + n))"

definition percent :: "nat \<Rightarrow> string" where
  "percent n = [CHR ''%'', hex_upper (n div 16), hex_upper (n mod 16)]"

definition uri_unreserved :: "nat \<Rightarrow> bool" where
  "uri_unreserved n \<longleftrightarrow>
     48 \<le> n \<and> n \<le> 57 \<or> 65 \<le> n \<and> n \<le> 90 \<or> 97 \<le> n \<and> n \<le> 122 \<or>
     n \<in> {45, 95, 46, 33, 126, 42, 39, 40, 41}"

text \<open>Code units from 128 to 255 are two bytes of UTF-8.\<close>

definition encode_char :: "char \<Rightarrow> string" where
  "encode_char c =
     (let n = (of_char c :: nat) in
      if uri_unreserved n then [c]
      else if n < 128 then percent n
      else percent (192 + n div 64) @ percent (128 + n mod 64))"

definition encodeURIComponent :: "string \<Rightarrow> string" where
  "encodeURIComponent s = concat (map encode_char s)"

text \<open>Different texts have different encodings: the first character can be read back.\<close>

definition hex_back :: "char \<Rightarrow> nat" where
  "hex_back c = (let n = of_char c in if n < 58 then n - 48 else n - 55)"

definition uri_first :: "string \<Rightarrow> char \<times> string" where
  "uri_first s =
     (if hd s \<noteq> CHR ''%'' then (hd s, tl s)
      else
        (let n = 16 * hex_back (s ! 1) + hex_back (s ! 2) in
         if n < 128 then (char_of n, drop 3 s)
         else (char_of ((n - 192) * 64 + (16 * hex_back (s ! 4) + hex_back (s ! 5) - 128)), drop 6 s)))"

lemma hex_back_upper: "n < 16 \<Longrightarrow> hex_back (hex_upper n) = n"
  by (auto simp: hex_back_def hex_upper_def)

lemma percent_back: "n < 256 \<Longrightarrow> 16 * hex_back (hex_upper (n div 16)) + hex_back (hex_upper (n mod 16)) = n"
  by (subst (1 2) hex_back_upper) auto

lemma of_char_less: "(of_char c :: nat) < 256"
  by (cases c) (simp add: of_char_def split: if_splits)

lemma uri_first_encode: "uri_first (encode_char c @ s) = (c, s)"
proof -
  let ?n = "of_char c :: nat"
  have n: "?n < 256" by (rule of_char_less)
  consider (plain) "uri_unreserved ?n" | (one) "\<not> uri_unreserved ?n" "?n < 128"
    | (two) "\<not> uri_unreserved ?n" "128 \<le> ?n" by fastforce
  then show ?thesis
  proof cases
    case plain
    then have "?n \<noteq> 37" by (auto simp: uri_unreserved_def)
    then have "c \<noteq> CHR ''%''" by auto
    with plain show ?thesis by (simp add: encode_char_def uri_first_def)
  next
    case one
    with percent_back [OF n] show ?thesis
      by (simp add: encode_char_def percent_def uri_first_def Let_def)
  next
    case two
    let ?h = "192 + ?n div 64" and ?l = "128 + ?n mod 64"
    have "?n div 64 < 4" using n by (simp add: less_mult_imp_div_less)
    then have h: "?h < 256" by linarith
    have l: "?l < 256" using mod_less_divisor [of 64 ?n] by linarith
    obtain h1 h2 where hs: "percent ?h = [CHR ''%'', h1, h2]" "16 * hex_back h1 + hex_back h2 = ?h"
      using percent_back [OF h] by (simp only: percent_def)
    obtain l1 l2 where ls: "percent ?l = [CHR ''%'', l1, l2]" "16 * hex_back l1 + hex_back l2 = ?l"
      using percent_back [OF l] by (simp only: percent_def)
    have "encode_char c @ s = [CHR ''%'', h1, h2, CHR ''%'', l1, l2] @ s"
      using two hs(1) ls(1) by (simp add: encode_char_def Let_def)
    then have "uri_first (encode_char c @ s) = (char_of ((?h - 192) * 64 + (?l - 128)), s)"
      unfolding uri_first_def using hs(2) ls(2) by (simp add: Let_def)
    also have "(?h - 192) * 64 + (?l - 128) = ?n" by simp
    finally show ?thesis by simp
  qed
qed

lemma encodeURIComponent_inject: "encodeURIComponent s = encodeURIComponent t \<longleftrightarrow> s = t"
proof
  assume "encodeURIComponent s = encodeURIComponent t"
  then show "s = t"
  proof (induction s arbitrary: t)
    case Nil
    have "encode_char c \<noteq> []" for c by (simp add: encode_char_def percent_def Let_def)
    with Nil show ?case by (cases t) (auto simp: encodeURIComponent_def)
  next
    case (Cons c s)
    have "encode_char c \<noteq> []" by (simp add: encode_char_def percent_def Let_def)
    with Cons.prems obtain d u where t: "t = d # u" by (cases t) (auto simp: encodeURIComponent_def)
    have "uri_first (encode_char c @ encodeURIComponent s) = uri_first (encode_char d @ encodeURIComponent u)"
      using Cons.prems t by (simp add: encodeURIComponent_def)
    then have "c = d" "encodeURIComponent s = encodeURIComponent u" by (simp_all add: uri_first_encode)
    with Cons.IH t show ?case by simp
  qed
qed simp

end
