(* ===== verification/Controllers.thy ===== *)
theory Controllers imports Geo Diagnostics Seat_Events Http Ticket begin

text \<open>
  \<open>src/src/controllers/*.ts\<close>: validation of the requests, the call of the service, the
  answer.  The texts of zod for values of the wrong kind are parameters; the texts the
  sources give themselves are in the model.  A schema answers with the first issue (ticket
  routes), with all of them (search) or with none (benchmarks), as the handlers use it.
\<close>

section \<open>Answers\<close>

text \<open>
  What \<open>response.status(n).json(body)\<close> sends.  JSON numbers of the model are integers, so the
  bodies with other numbers are kept as the values they are built from.
\<close>

datatype answer_body =
    JsonBody json
  | HealthBody rat string
  | NearbyBody "NearbyEventResult list" NearbyEventSearchQuery nat
  | MapBenchmarkBody SeatingMapBenchmarkResponse
  | HoldBenchmarkBody SeatHoldBenchmarkResponse
  | OrderBenchmarkBody OrderStreamBenchmarkResponse

record http_answer =
  an_status :: nat
  an_headers :: headers
  an_body :: answer_body

definition answer :: "nat \<Rightarrow> answer_body \<Rightarrow> ('w, http_answer) proc" where
  "answer status body = Ret \<lparr>an_status = status, an_headers = [], an_body = body\<rparr>"

record zod_messages =
  zm_string :: "json option \<Rightarrow> string"
  zm_object :: "json option \<Rightarrow> string"
  zm_number :: "string \<Rightarrow> number \<Rightarrow> string list"

section \<open>Ticket controller\<close>

text \<open>\<open>z.string().min(1, 'name is required')\<close>.\<close>

definition required :: "zod_messages \<Rightarrow> string \<Rightarrow> json option \<Rightarrow> string + string" where
  "required Z name v =
     (case v of
        Some (JStr s) \<Rightarrow> (if s = [] then Inl (name @ '' is required'') else Inr s)
      | _ \<Rightarrow> Inl (zm_string Z v))"

definition holdSeatRequestSchema :: "zod_messages \<Rightarrow> json option \<Rightarrow> string + HoldSeatRequest" where
  "holdSeatRequestSchema Z body =
     (case body of
        Some (JObj kvs) \<Rightarrow>
          bindE (required Z ''eventId'' (member kvs ''eventId'')) (\<lambda>eventId.
          bindE (required Z ''seatId'' (member kvs ''seatId'')) (\<lambda>seatId.
          bindE (required Z ''userId'' (member kvs ''userId'')) (\<lambda>userId.
          Inr \<lparr>rq_eventId = eventId, rq_seatId = seatId, rq_userId = userId\<rparr>)))
      | _ \<Rightarrow> Inl (zm_object Z body))"

definition createOrderRequestSchema :: "zod_messages \<Rightarrow> json option \<Rightarrow> string + HoldSeatRequest" where
  "createOrderRequestSchema = holdSeatRequestSchema"

definition hold_payload :: "HoldSeatRequest \<Rightarrow> HoldSeatPayload" where
  "hold_payload request =
     \<lparr>pl_eventId = Some (JStr (rq_eventId request)), pl_seatId = Some (JStr (rq_seatId request)),
      pl_userId = Some (JStr (rq_userId request))\<rparr>"

definition releaseSeatRequestSchema :: "zod_messages \<Rightarrow> json option \<Rightarrow> string + ReleaseSeatRequest" where
  "releaseSeatRequestSchema Z body =
     bindE (holdSeatRequestSchema Z body) (\<lambda>request.
     case body of
       Some (JObj kvs) \<Rightarrow>
         bindE (required Z ''holdId'' (member kvs ''holdId'')) (\<lambda>holdId.
         Inr (HoldSeatPayload.extend (hold_payload request) \<lparr>pl_holdId = holdId\<rparr>))
     | _ \<Rightarrow> Inl (zm_object Z body))"

fun hold_response_json :: "HoldSeatResponse \<Rightarrow> json" where
  "hold_response_json (HoldSeatSuccess r) = JObj
     [(''status'', JStr ''success''), (''statusCode'', JNum 200),
      (''data'', JObj [(''holdId'', JStr (hr_holdId r)), (''eventId'', JStr (hr_eventId r)), (''seatId'', JStr (hr_seatId r)),
        (''userId'', JStr (hr_userId r)), (''status'', JStr ''HELD''), (''expiresAt'', JStr (hr_expiresAt r))])]"
| "hold_response_json (HoldSeatConflict message) = JObj
     [(''status'', JStr ''fail''), (''statusCode'', JNum 409), (''message'', JStr message)]"

definition holdSeatHandler ::
  "('r, 'd) services \<Rightarrow> zod_messages \<Rightarrow> (nat \<Rightarrow> string) \<Rightarrow> http_request \<Rightarrow> (('r, 'd) world, http_answer) proc" where
  "holdSeatHandler svc Z uuid request =
     (case holdSeatRequestSchema Z (req_body request) of
        Inl message \<Rightarrow> Throw (BadRequestError message)
      | Inr parsed \<Rightarrow>
          await (holdSeat svc uuid (hold_payload parsed)) (\<lambda>result.
          answer (hold_status_code result) (JsonBody (hold_response_json result))))"

definition createOrderHandler ::
  "('r, 'd) services \<Rightarrow> zod_messages \<Rightarrow> (nat \<Rightarrow> string) \<Rightarrow> http_request \<Rightarrow> (('r, 'd) world, http_answer) proc" where
  "createOrderHandler svc Z uuid request =
     (case createOrderRequestSchema Z (req_body request) of
        Inl message \<Rightarrow> Throw (BadRequestError message)
      | Inr parsed \<Rightarrow>
          await (createOrder svc uuid (hold_payload parsed)) (\<lambda>result.
          answer 202 (JsonBody (JObj [(''orderId'', JStr (co_orderId result)), (''status'', JStr ''PROCESSING'')]))))"

definition releaseSeatHandler ::
  "('r, 'd) services \<Rightarrow> zod_messages \<Rightarrow> (nat \<Rightarrow> string) \<Rightarrow> http_request \<Rightarrow> (('r, 'd) world, http_answer) proc" where
  "releaseSeatHandler svc Z uuid request =
     (case releaseSeatRequestSchema Z (req_body request) of
        Inl message \<Rightarrow> Throw (BadRequestError message)
      | Inr parsed \<Rightarrow>
          await (releaseSeat svc uuid parsed) (\<lambda>result.
          answer 200 (JsonBody (JObj [(''status'', JStr ''released''), (''eventId'', JStr (rel_eventId result)),
            (''seatId'', JStr (rel_seatId result)), (''holdId'', JStr (rel_holdId result))]))))"

section \<open>Event controller\<close>

definition getEventSeatingMap ::
  "('r, 'd) services \<Rightarrow> node_env \<Rightarrow> string \<Rightarrow> http_request \<Rightarrow> (('r, 'd) world, http_answer) proc" where
  "getEventSeatingMap svc NODE_ENV randomUUID request =
     (let rawUseRedis = req_query request ''useRedis'';
          useRedis = (rawUseRedis = None \<or> rawUseRedis = Some (JStr ''true''))
      in if rawUseRedis \<noteq> None \<and> rawUseRedis \<noteq> Some (JStr ''true'') \<and> rawUseRedis \<noteq> Some (JStr ''false'')
         then Throw (BadRequestError ''useRedis must be true or false'')
         else if \<not> useRedis \<and> NODE_ENV = Production
         then Throw (BadRequestError ''Direct database mode is disabled in production'')
         else
           await (getSeatingMapForMode svc randomUUID
             (case req_params request ''eventId'' of Some eventId \<Rightarrow> eventId | None \<Rightarrow> ''undefined'') useRedis) (\<lambda>result.
           answer 200 (JsonBody (smr_map result))))"

text \<open>\<open>String(v)\<close> and \<open>Number(v)\<close> of a parsed query value; a missing one is \<open>undefined\<close>.\<close>

fun join_with :: "string \<Rightarrow> string list \<Rightarrow> string" where
  "join_with sep [] = []"
| "join_with sep [s] = s"
| "join_with sep (s # t # ss) = s @ sep @ join_with sep (t # ss)"

fun js_String :: "json \<Rightarrow> string" where
  "js_String JNull = ''null''"
| "js_String (JBool b) = (if b then ''true'' else ''false'')"
| "js_String (JNum n) = show_int n"
| "js_String (JStr s) = s"
| "js_String (JArr vs) = join_with '','' (map (\<lambda>v. if v = JNull then [] else js_String v) vs)"
| "js_String (JObj _) = ''[object Object]''"

definition js_to_number :: "json option \<Rightarrow> number" where
  "js_to_number v =
     (case v of
        None \<Rightarrow> NotANumber
      | Some JNull \<Rightarrow> Fin 0
      | Some (JBool b) \<Rightarrow> Fin (if b then 1 else 0)
      | Some (JNum n) \<Rightarrow> Fin (of_int n)
      | Some (JObj _) \<Rightarrow> NotANumber
      | Some w \<Rightarrow> js_Number (js_String w))"

text \<open>\<open>z.coerce.number()\<close> with its checks and its default: the value, and the issues if they fail.\<close>

definition coerced :: "number option \<Rightarrow> json option \<Rightarrow> number" where
  "coerced fallback v = (case (v, fallback) of (None, Some d) \<Rightarrow> d | _ \<Rightarrow> js_to_number v)"

definition issues_unless :: "bool \<Rightarrow> zod_messages \<Rightarrow> string \<Rightarrow> number \<Rightarrow> string list" where
  "issues_unless ok Z name x = (if ok then [] else zm_number Z name x)"

definition valid_geo_query :: "NearbyEventSearchQuery \<Rightarrow> bool list" where
  "valid_geo_query q =
     [in_range (- 90) 90 (q_lat q), in_range (- 180) 180 (q_lng q),
      in_range 0 500 (q_radiusKm q) \<and> q_radiusKm q \<noteq> Fin 0,
      isInteger (q_limit q) \<and> in_range 1 100 (q_limit q)]"

definition geoSearchQuerySchema ::
  "zod_messages \<Rightarrow> (string \<Rightarrow> json option) \<Rightarrow> string list + NearbyEventSearchQuery" where
  "geoSearchQuerySchema Z query =
     (let q = \<lparr>q_lat = coerced None (query ''lat''), q_lng = coerced None (query ''lng''),
               q_radiusKm = coerced (Some (Fin 10)) (query ''radiusKm''), q_limit = coerced (Some (Fin 20)) (query ''limit'')\<rparr>;
          ok = valid_geo_query q
      in if list_all id ok then Inr q
         else Inl (issues_unless (ok ! 0) Z ''lat'' (q_lat q) @ issues_unless (ok ! 1) Z ''lng'' (q_lng q) @
           issues_unless (ok ! 2) Z ''radiusKm'' (q_radiusKm q) @ issues_unless (ok ! 3) Z ''limit'' (q_limit q)))"

definition searchEventsByGeo ::
  "('r, 'd) geo_services \<Rightarrow> zod_messages \<Rightarrow> http_request \<Rightarrow> (('r, 'd) world, http_answer) proc" where
  "searchEventsByGeo G Z request =
     (case geoSearchQuerySchema Z (req_query request) of
        Inl issues \<Rightarrow> Throw (BadRequestError (join_with ''; '' issues))
      | Inr query \<Rightarrow>
          await (searchNearbyEvents G query) (\<lambda>data.
          answer 200 (NearbyBody data query (length data))))"

section \<open>Diagnostics controller\<close>

text \<open>\<open>z.number().int().min(1).max(100).default(50)\<close> and \<open>z.boolean()\<close> with its default.\<close>

definition z_concurrency :: "json option \<Rightarrow> nat option" where
  "z_concurrency v =
     (case v of
        None \<Rightarrow> Some 50
      | Some (JNum n) \<Rightarrow> (if 1 \<le> n \<and> n \<le> 100 then Some (nat n) else None)
      | _ \<Rightarrow> None)"

definition z_boolean :: "bool option \<Rightarrow> json option \<Rightarrow> bool option" where
  "z_boolean fallback v = (case v of None \<Rightarrow> fallback | Some (JBool b) \<Rightarrow> Some b | _ \<Rightarrow> None)"

definition benchmarkSchema :: "json option \<Rightarrow> SeatingMapBenchmarkRequest option" where
  "benchmarkSchema = z_object (\<lambda>kvs. do {
     eventId \<leftarrow> z_min1 (member kvs ''eventId'');
     useRedis \<leftarrow> z_boolean None (member kvs ''useRedis'');
     concurrency \<leftarrow> z_concurrency (member kvs ''concurrency'');
     clearCacheBeforeRun \<leftarrow> z_boolean (Some True) (member kvs ''clearCacheBeforeRun'');
     Some \<lparr>sb_eventId = eventId, sb_useRedis = useRedis, sb_concurrency = concurrency,
       sb_clearCacheBeforeRun = clearCacheBeforeRun\<rparr>})"

definition seatHoldBenchmarkSchema :: "json option \<Rightarrow> SeatHoldBenchmarkRequest option" where
  "seatHoldBenchmarkSchema = z_object (\<lambda>kvs. do {
     eventId \<leftarrow> z_min1 (member kvs ''eventId'');
     seatId \<leftarrow> z_min1 (member kvs ''seatId'');
     concurrency \<leftarrow> z_concurrency (member kvs ''concurrency'');
     Some \<lparr>hb_eventId = eventId, hb_seatId = seatId, hb_concurrency = concurrency\<rparr>})"

fun z_min1_all :: "json list \<Rightarrow> string list option" where
  "z_min1_all [] = Some []"
| "z_min1_all (v # vs) = do { s \<leftarrow> z_min1 (Some v); ss \<leftarrow> z_min1_all vs; Some (s # ss) }"

definition z_seatIds :: "json option \<Rightarrow> string list option" where
  "z_seatIds v =
     (case v of
        Some (JArr vs) \<Rightarrow> (if 1 \<le> length vs \<and> length vs \<le> 100 then z_min1_all vs else None)
      | _ \<Rightarrow> None)"

definition orderStreamBenchmarkSchema :: "json option \<Rightarrow> OrderStreamBenchmarkRequest option" where
  "orderStreamBenchmarkSchema = z_object (\<lambda>kvs. do {
     eventId \<leftarrow> z_min1 (member kvs ''eventId'');
     seatIds \<leftarrow> z_seatIds (member kvs ''seatIds'');
     userIdPrefix \<leftarrow> (case member kvs ''userIdPrefix'' of None \<Rightarrow> Some ''benchmark-user'' | v \<Rightarrow> z_min1 v);
     Some \<lparr>ob_eventId = eventId, ob_seatIds = seatIds, ob_userIdPrefix = userIdPrefix\<rparr>})"

text \<open>What the three handlers share: disabled in production, the schema, the benchmark, the report.\<close>

definition benchmark_handler ::
  "node_env \<Rightarrow> (json option \<Rightarrow> 'q option) \<Rightarrow> string \<Rightarrow> ('q \<Rightarrow> ('w, 'a) proc) \<Rightarrow> ('a \<Rightarrow> answer_body) \<Rightarrow> http_request \<Rightarrow>
   ('w, http_answer) proc" where
  "benchmark_handler NODE_ENV schema invalid run_benchmark body request =
     (if NODE_ENV = Production then Throw (BadRequestError ''Diagnostic benchmark is disabled in production'')
      else
        (case schema (req_body request) of
           None \<Rightarrow> Throw (BadRequestError invalid)
         | Some parsed \<Rightarrow> await (run_benchmark parsed) (\<lambda>report. answer 200 (body report))))"

definition benchmarkSeatingMap ::
  "('r, 'd) services \<Rightarrow> node_env \<Rightarrow> nat list \<Rightarrow> (nat \<Rightarrow> string) \<Rightarrow> http_request \<Rightarrow> (('r, 'd) world, http_answer) proc" where
  "benchmarkSeatingMap svc NODE_ENV sched uuid =
     benchmark_handler NODE_ENV benchmarkSchema ''Invalid benchmark body'' (runSeatingMapBenchmark svc sched uuid) MapBenchmarkBody"

definition benchmarkSeatHold ::
  "('r, 'd) services \<Rightarrow> node_env \<Rightarrow> nat list \<Rightarrow> (nat \<Rightarrow> string) \<Rightarrow> http_request \<Rightarrow> (('r, 'd) world, http_answer) proc" where
  "benchmarkSeatHold svc NODE_ENV sched uuid =
     benchmark_handler NODE_ENV seatHoldBenchmarkSchema ''Invalid seat hold benchmark body''
       (runSeatHoldBenchmark svc sched uuid) HoldBenchmarkBody"

definition benchmarkOrderStream ::
  "('r, 'd) services \<Rightarrow> ('r, 'd) bench_services \<Rightarrow> node_env \<Rightarrow> string \<Rightarrow> nat list \<Rightarrow> (nat \<Rightarrow> nat \<Rightarrow> string) \<Rightarrow>
   (nat \<Rightarrow> nat list) \<Rightarrow> (nat \<Rightarrow> nat \<Rightarrow> string) \<Rightarrow> http_request \<Rightarrow> (('r, 'd) world, http_answer) proc" where
  "benchmarkOrderStream svc B NODE_ENV consumer sched uuid scheds uuids =
     benchmark_handler NODE_ENV orderStreamBenchmarkSchema ''Invalid order stream benchmark body''
       (runOrderStreamBenchmark svc B consumer sched uuid scheds uuids) OrderBenchmarkBody"

section \<open>Schemas and services agree\<close>

text \<open>What passes the schema of the search passes the checks of the service.\<close>

lemma schema_implies_valid: "geoSearchQuerySchema Z query = Inr q \<Longrightarrow> validateSearchQuery q = Inr ()"
  by (auto simp: geoSearchQuerySchema_def Let_def valid_geo_query_def validateSearchQuery_def MAX_RADIUS_KM_def
      MAX_SEARCH_LIMIT_def split: if_splits)

lemma required_Inr: "required Z name v = Inr s \<longleftrightarrow> v = Some (JStr s) \<and> s \<noteq> []"
  by (auto simp: required_def split: option.splits json.splits if_splits)

end
