(* ===== verification/Rate_Limiter.thy ===== *)
theory Rate_Limiter imports Http Seat_Lock begin

text \<open>
  \<open>src/src/middlewares/rateLimiter.ts\<close>: the sliding-window limiter in front of every route.
  The value of \<open>randomUUID()\<close> and the environment variable \<open>DISABLE_RATE_LIMIT\<close> are
  arguments.  The first part is the middleware; the second shows, on a contract of the
  sorted sets of Redis, that the script it runs implements a sliding window over the log
  of all requests, and the bound that follows.
\<close>

section \<open>The middleware\<close>

record RateLimiterOptions =
  windowMs :: "int option"
  maxRequests :: "int option"
  keyPrefix :: "string option"
  skip :: "(http_request \<Rightarrow> bool) option"

record RateLimiterConfiguration =
  cf_windowMs :: int
  cf_maxRequests :: int
  cf_keyPrefix :: string
  cf_skip :: "(http_request \<Rightarrow> bool) option"

text \<open>\<open>{ ...defaultOptions, ...options }\<close>.\<close>

definition configuration :: "RateLimiterOptions \<Rightarrow> RateLimiterConfiguration" where
  "configuration options =
     \<lparr>cf_windowMs = (case windowMs options of Some v \<Rightarrow> v | None \<Rightarrow> 60000),
      cf_maxRequests = (case maxRequests options of Some v \<Rightarrow> v | None \<Rightarrow> 100),
      cf_keyPrefix = (case keyPrefix options of Some v \<Rightarrow> v | None \<Rightarrow> ''rate-limit''),
      cf_skip = skip options\<rparr>"

text \<open>\<open>Math.ceil(n / 1000)\<close> of an integer.\<close>

definition ceil_thousandth :: "int \<Rightarrow> int" where
  "ceil_thousandth n = - (- n div 1000)"

definition bypassed :: "string option \<Rightarrow> RateLimiterConfiguration \<Rightarrow> http_request \<Rightarrow> bool" where
  "bypassed DISABLE_RATE_LIMIT cfg request \<longleftrightarrow>
     DISABLE_RATE_LIMIT = Some ''true'' \<or> req_header request ''x-benchmark-bypass'' \<noteq> None \<or>
     (case cf_skip cfg of Some f \<Rightarrow> f request | None \<Rightarrow> False)"

definition client_key :: "RateLimiterConfiguration \<Rightarrow> http_request \<Rightarrow> string" where
  "client_key cfg request =
     (let clientIdentity =
        (case req_ip request of
           Some ip \<Rightarrow> ip
         | None \<Rightarrow> (case req_remoteAddress request of Some a \<Rightarrow> a | None \<Rightarrow> ''unknown''))
      in cf_keyPrefix cfg @ CHR '':'' # encodeURIComponent clientIdentity)"

text \<open>The end of the middleware: the headers, and the answer when the request is refused.\<close>

definition apply_limit :: "RateLimiterConfiguration \<Rightarrow> int \<Rightarrow> int \<Rightarrow> int \<Rightarrow> int \<Rightarrow> outcome" where
  "apply_limit cfg now allowed remaining resetAt =
     (let resetAfterSeconds = max (ceil_thousandth (resetAt - now)) 1;
          hs = [(''RateLimit-Limit'', cf_maxRequests cfg), (''RateLimit-Remaining'', remaining),
                (''RateLimit-Reset'', resetAfterSeconds)]
      in if allowed = 0
         then Respond \<lparr>res_status = 429, res_headers = hs @ [(''Retry-After'', resetAfterSeconds)],
                res_json = JObj [(''status'', JStr ''fail''), (''statusCode'', JNum 429),
                  (''message'', JStr ''Too many requests, please try again later'')]\<rparr>
         else Next hs)"

definition rateLimiter ::
  "('r, 'd) services \<Rightarrow> string option \<Rightarrow> string \<Rightarrow> RateLimiterOptions \<Rightarrow> http_request \<Rightarrow> (('r, 'd) world, outcome) proc" where
  "rateLimiter svc DISABLE_RATE_LIMIT randomUUID options request =
     (let cfg = configuration options in
      if bypassed DISABLE_RATE_LIMIT cfg request then Ret (Next [])
      else
        (let key = client_key cfg request in
         await Date_now (\<lambda>now.
         await (getLuaScriptDigest slidingWindow) (\<lambda>digest.
         await (redis_do (c_evalsha (redis svc) digest [key]
           [show_int now, show_int (cf_windowMs cfg), show_int (cf_maxRequests cfg),
            show_int now @ CHR ''-'' # randomUUID, show_int (ceil_thousandth (cf_windowMs cfg))])) (\<lambda>result.
         (case result of
            RArr (allowed # remaining # resetAt # _) \<Rightarrow> Ret (apply_limit cfg now allowed remaining resetAt)
          | _ \<Rightarrow> Throw (JsError ''TypeError'')))))))"

text \<open>The keys of different clients are different.\<close>

lemma client_key_inject:
  assumes "client_key cfg request = client_key cfg request'" and "req_ip request = Some a" and "req_ip request' = Some b"
  shows "a = b"
  using assms by (simp add: client_key_def encodeURIComponent_inject)

section \<open>Sorted sets\<close>

text \<open>
  \<open>members k r\<close> maps the members of the sorted set under \<open>k\<close> to their scores, \<open>zttl k r\<close> is
  what is left of its life in milliseconds.
\<close>

locale redis_zsets =
  fixes S :: "'r redis_server"
    and elapse :: "nat \<Rightarrow> 'r \<Rightarrow> 'r"
    and members :: "string \<Rightarrow> 'r \<Rightarrow> string \<Rightarrow> int option"
    and zttl :: "string \<Rightarrow> 'r \<Rightarrow> nat option"
  assumes zremrange: "members k (ZREMRANGEBYSCORE S k lo hi r) m =
      (case members k r m of Some s \<Rightarrow> if lo \<le> s \<and> s \<le> hi then None else Some s | None \<Rightarrow> None)"
    and zadd: "members k (ZADD S k s m r) = (members k r)(m \<mapsto> s)"
    and zcard: "finite (dom (members k r)) \<Longrightarrow> ZCARD S k r = int (card (dom (members k r)))"
    and expire: "0 < t \<Longrightarrow> members k r \<noteq> Map.empty \<Longrightarrow>
      members k (EXPIRE S k t r) = members k r \<and> zttl k (EXPIRE S k t r) = Some (nat t * 1000)"
    and zelapse: "members k (elapse n r) =
      (case zttl k r of Some t \<Rightarrow> if t \<le> n then Map.empty else members k r | None \<Rightarrow> members k r)"
    and zttl_elapse: "zttl k (elapse n r) =
      (case zttl k r of Some t \<Rightarrow> if t \<le> n then None else Some (t - n) | None \<Rightarrow> None)"

interpretation ref_zsets: redis_zsets ref_server ref_elapse "\<lambda>k r. rs_z r k" "\<lambda>k r. rs_zttl r k"
  by unfold_locales
     (auto simp: ref_server_def ref_zset_def ref_elapse_def ref_zgone_def split: option.splits)

section \<open>The window as a log\<close>

text \<open>
  The specification: a request at time \<open>t\<close> is allowed if at most \<open>limit\<close> requests of the log,
  itself included, are younger than the window.  Refused requests are in the log too.
\<close>

definition window_count :: "int \<Rightarrow> int list \<Rightarrow> int \<Rightarrow> nat" where
  "window_count window log now = length (filter (\<lambda>t. now - window < t) log)"

fun window_spec :: "int \<Rightarrow> int \<Rightarrow> int list \<Rightarrow> int list \<Rightarrow> (int \<times> bool) list" where
  "window_spec window limit log [] = []"
| "window_spec window limit log (t # ts) =
     (t, int (window_count window (log @ [t]) t) \<le> limit) # window_spec window limit (log @ [t]) ts"

text \<open>
  The implementation: requests of one client, each \<open>d\<close> milliseconds after the one before
  and with its own member, as executions of the script.
\<close>

fun window_run ::
  "'r redis_server \<Rightarrow> (nat \<Rightarrow> 'r \<Rightarrow> 'r) \<Rightarrow> string \<Rightarrow> int \<Rightarrow> int \<Rightarrow> int \<Rightarrow> int \<Rightarrow> (nat \<times> string) list \<Rightarrow> 'r \<Rightarrow> (int \<times> bool) list" where
  "window_run S elapse key window limit ttl clock [] r = []"
| "window_run S elapse key window limit ttl clock ((d, m) # reqs) r =
     (let now = clock + int d in
      case sliding_window S [key] [show_int now, show_int window, show_int limit, m, show_int ttl] (elapse d r) of
        (r', reply) \<Rightarrow> (now, case reply of Inr (RArr (allowed # _)) \<Rightarrow> allowed = 1 | _ \<Rightarrow> False)
          # window_run S elapse key window limit ttl now reqs r')"

text \<open>The instants of a sequence of requests.\<close>

fun instants :: "int \<Rightarrow> (nat \<times> string) list \<Rightarrow> int list" where
  "instants clock [] = []"
| "instants clock ((d, m) # reqs) = (clock + int d) # instants (clock + int d) reqs"

text \<open>What the sorted set knows of the log.\<close>

definition log_kept ::
  "(string \<Rightarrow> 'r \<Rightarrow> string \<Rightarrow> int option) \<Rightarrow> (string \<Rightarrow> 'r \<Rightarrow> nat option) \<Rightarrow> string \<Rightarrow> int \<Rightarrow> int \<Rightarrow> (int \<times> string) list \<Rightarrow> 'r \<Rightarrow> bool" where
  "log_kept members zttl key window now log r \<longleftrightarrow>
     distinct (map snd log) \<and> (\<forall>(t, m) \<in> set log. 0 \<le> t \<and> t \<le> now) \<and>
     (\<forall>m t. members key r m = Some t \<longrightarrow> (t, m) \<in> set log) \<and>
     (\<forall>(t, m) \<in> set log. now - window < t \<longrightarrow> members key r m = Some t) \<and>
     (\<forall>x. zttl key r = Some x \<longrightarrow> (\<forall>(t, m) \<in> set log. t + window \<le> now + int x))"

lemma card_log_younger:
  assumes "distinct (map snd log)"
  shows "card {m. \<exists>t. (t, m) \<in> set log \<and> P t} = length (filter P (map fst log))"
  using assms
proof (induction log)
  case (Cons e log)
  obtain t m where e: "e = (t, m)" by force
  have fin: "finite {m. \<exists>t. (t, m) \<in> set log \<and> P t}"
    by (rule finite_subset [of _ "snd ` set log"]) force+
  have new: "m \<notin> {m. \<exists>t. (t, m) \<in> set log \<and> P t}" using Cons.prems e by force
  show ?case
  proof (cases "P t")
    case True
    then have "{m. \<exists>t. (t, m) \<in> set (e # log) \<and> P t} = insert m {m. \<exists>t. (t, m) \<in> set log \<and> P t}"
      using e by auto
    with Cons fin new True e show ?thesis by simp
  next
    case False
    then have "{m. \<exists>t. (t, m) \<in> set (e # log) \<and> P t} = {m. \<exists>t. (t, m) \<in> set log \<and> P t}"
      using e by auto
    with Cons False e show ?thesis by simp
  qed
qed simp

context redis_zsets begin

lemma log_kept_elapse:
  assumes "log_kept members zttl key window now log r"
  shows "log_kept members zttl key window (now + int d) log (elapse d r)"
  using assms unfolding log_kept_def zelapse zttl_elapse
  by (auto split: option.splits if_splits) fastforce+

lemma log_kept_request:
  assumes kept: "log_kept members zttl key window now log r" and "0 < window" and "0 < ttl" and "window \<le> ttl * 1000"
    and "0 \<le> now" and "m \<notin> snd ` set log"
  shows "\<exists>r' rest. sliding_window S [key] [show_int now, show_int window, show_int limit, m, show_int ttl] r =
      (r', Inr (RArr ((if int (window_count window (map fst log @ [now]) now) \<le> limit then 1 else 0) # rest))) \<and>
    log_kept members zttl key window now (log @ [(now, m)]) r'"
proof -
  let ?r1 = "ZREMRANGEBYSCORE S key 0 (now - window) r" and ?log = "log @ [(now, m)]"
  let ?r2 = "ZADD S key now m ?r1" and ?r3 = "EXPIRE S key ttl (ZADD S key now m ?r1)"
  let ?young = "{m'. \<exists>t. (t, m') \<in> set ?log \<and> now - window < t}"
  from kept have dist: "distinct (map snd ?log)" using assms(6) by (auto simp: log_kept_def)
  have m1: "members key ?r1 m' = Some t \<longleftrightarrow> (t, m') \<in> set log \<and> now - window < t" for m' t
    using kept by (auto simp: log_kept_def zremrange split: option.splits if_splits)
  have m2: "members key ?r2 m' = Some t \<longleftrightarrow> (t, m') \<in> set ?log \<and> now - window < t" for m' t
    using m1 [of m' t] assms(2,6) by (auto simp: zadd image_iff)
  have "members key ?r2 \<noteq> Map.empty" by (simp add: zadd)
  from expire [OF assms(3) this] have m3: "members key ?r3 = members key ?r2" and t3: "zttl key ?r3 = Some (nat ttl * 1000)"
    by simp_all
  have dom: "dom (members key ?r3) = ?young" using m2 by (auto simp: m3 dom_def)
  have "finite ?young" by (rule finite_subset [of _ "snd ` set ?log"]) force+
  then have card: "ZCARD S key ?r3 = int (window_count window (map fst log @ [now]) now)"
    using zcard [of key ?r3] card_log_younger [OF dist, of "\<lambda>t. now - window < t"] dom
    by (simp add: window_count_def)
  have "log_kept members zttl key window now ?log ?r3"
    using kept dist assms(2,4,5) m2 t3 by (auto simp: log_kept_def m3)
  with card show ?thesis by (auto simp: Let_def)
qed

lemma window_run_spec:
  assumes "log_kept members zttl key window clock log r" and "0 < window" and "0 < ttl" and "window \<le> ttl * 1000"
    and "0 \<le> clock" and "distinct (map snd log @ map snd reqs)"
  shows "window_run S elapse key window limit ttl clock reqs r = window_spec window limit (map fst log) (instants clock reqs)"
  using assms(1,5,6)
proof (induction reqs arbitrary: clock log r)
  case (Cons req reqs)
  obtain d m where req: "req = (d, m)" by force
  have k: "log_kept members zttl key window (clock + int d) log (elapse d r)"
    by (rule log_kept_elapse) (rule Cons.prems(1))
  have "0 \<le> clock + int d" "m \<notin> snd ` set log" using Cons.prems req by auto
  from log_kept_request [OF k assms(2-4) this, of limit] obtain r' rest where
    run: "sliding_window S [key] [show_int (clock + int d), show_int window, show_int limit, m, show_int ttl] (elapse d r) =
      (r', Inr (RArr ((if int (window_count window (map fst log @ [clock + int d]) (clock + int d)) \<le> limit then 1 else 0) # rest)))"
    and k': "log_kept members zttl key window (clock + int d) (log @ [(clock + int d, m)]) r'" by blast
  have "distinct (map snd (log @ [(clock + int d, m)]) @ map snd reqs)" using Cons.prems req by auto
  from Cons.IH [OF k' _ this] run req Cons.prems(2) show ?case by (simp add: Let_def del: sliding_window.simps)
qed simp

end

section \<open>The bound\<close>

lemma window_spec_nth:
  "i < length ts \<Longrightarrow> window_spec window limit log ts ! i =
    (ts ! i, int (window_count window (log @ take (Suc i) ts) (ts ! i)) \<le> limit)"
proof (induction ts arbitrary: log i)
  case (Cons t ts)
  then show ?case by (cases i) auto
qed simp

lemma length_window_spec [simp]: "length (window_spec window limit log ts) = length ts"
  by (induction ts arbitrary: log) auto

lemma length_instants [simp]: "length (instants clock reqs) = length reqs"
  by (induction clock reqs rule: instants.induct) auto

lemma window_spec_bound:
  fixes \<tau> :: int
  assumes "0 \<le> limit"
  shows "int (card {i. i < length ts \<and> snd (window_spec window limit [] ts ! i) \<and> \<tau> - window < ts ! i \<and> ts ! i \<le> \<tau>}) \<le> limit"
    (is "int (card ?A) \<le> limit")
proof (cases "?A = {}")
  case True
  then show ?thesis using assms by (simp only: card.empty)
next
  case False
  have fin: "finite ?A" by simp
  obtain m where m: "m \<in> ?A" and max: "\<And>i. i \<in> ?A \<Longrightarrow> i \<le> m"
    using Max_in [OF fin False] Max_ge [OF fin] by blast
  have "?A \<subseteq> {i. i < length (take (Suc m) ts) \<and> ts ! m - window < take (Suc m) ts ! i}"
  proof
    fix i
    assume i: "i \<in> ?A"
    then have "i \<le> m" by (rule max)
    with i m show "i \<in> {i. i < length (take (Suc m) ts) \<and> ts ! m - window < take (Suc m) ts ! i}" by auto
  qed
  then have "card ?A \<le> card {i. i < length (take (Suc m) ts) \<and> ts ! m - window < take (Suc m) ts ! i}"
    by (rule card_mono [rotated]) simp
  also have "\<dots> = window_count window (take (Suc m) ts) (ts ! m)"
    by (simp add: window_count_def length_filter_conv_card)
  finally show ?thesis using m window_spec_nth [of m ts window limit "[]"] by auto
qed

section \<open>A request through the middleware\<close>

context redis_remote begin

lemma limiter_run:
  assumes "registered svc sha1 w" and "\<not> bypassed disable (configuration options) request"
    and "run (rateLimiter svc disable uuid options request) w = (w', Inr out)"
  defines "cfg \<equiv> configuration options"
  shows "\<exists>r'. w' = w\<lparr>w_redis := r'\<rparr> \<and>
    sliding_window S [client_key cfg request]
      [show_int (w_clock w), show_int (cf_windowMs cfg), show_int (cf_maxRequests cfg),
       show_int (w_clock w) @ CHR ''-'' # uuid, show_int (ceil_thousandth (cf_windowMs cfg))] (w_redis w) =
      (r', Inr (RArr [if ZCARD S (client_key cfg request) r' \<le> cf_maxRequests cfg then 1 else 0,
        max (cf_maxRequests cfg - ZCARD S (client_key cfg request) r') 0, w_clock w + cf_windowMs cfg,
        ZCARD S (client_key cfg request) r'])) \<and>
    out = apply_limit cfg (w_clock w) (if ZCARD S (client_key cfg request) r' \<le> cf_maxRequests cfg then 1 else 0)
      (max (cf_maxRequests cfg - ZCARD S (client_key cfg request) r') 0) (w_clock w + cf_windowMs cfg)"
proof -
  let ?args = "[show_int (w_clock w), show_int (cf_windowMs cfg), show_int (cf_maxRequests cfg),
       show_int (w_clock w) @ CHR ''-'' # uuid, show_int (ceil_thousandth (cf_windowMs cfg))]"
  obtain src where src: "scriptFile svc slidingWindow = Inr src" "w_digests w slidingWindow = Some (sha1 src)"
    using assms(1) by (rule registeredE)
  obtain r' reply where sha: "c_evalsha (redis svc) (sha1 src) [client_key cfg request] ?args (w_redis w) = (r', Inr reply)"
    and w': "w' = w\<lparr>w_redis := r'\<rparr>"
    and out: "\<exists>allowed remaining resetAt rest. reply = RArr (allowed # remaining # resetAt # rest) \<and>
      out = apply_limit cfg (w_clock w) allowed remaining resetAt"
    using assms(2,3) src(2) unfolding cfg_def
    by (auto simp: rateLimiter_def Let_def run_simps split: prod.splits sum.splits reply.splits list.splits)
  have "lua_script S slidingWindow [client_key cfg request] ?args (w_redis w) = (r', Inr reply)"
    using evalsha_remote [OF src(1), of "w_redis w" "[client_key cfg request]" ?args] sha by (auto simp: delivers_def)
  with w' out show ?thesis by (auto simp: Let_def)
qed

end

section \<open>Properties\<close>

text \<open>
  Claim C14.  The script implements the sliding window: run for the requests of one client
  in the order of their instants, with expiry of the key in between, it allows exactly
  what the specification over the log of all requests allows.
\<close>

theorem sliding_window_refines_log:
  assumes "redis_zsets S elapse members zttl" and "members key r = Map.empty"
    and "0 < window" and "0 < ttl" and "window \<le> ttl * 1000" and "0 \<le> clock" and "distinct (map snd reqs)"
  shows "window_run S elapse key window limit ttl clock reqs r = window_spec window limit [] (instants clock reqs)"
proof -
  have "log_kept members zttl key window clock [] r" using assms(2) by (simp add: log_kept_def)
  from redis_zsets.window_run_spec [OF assms(1) this assms(3-6)] assms(7) show ?thesis by simp
qed

theorem sliding_window_refines_log_witness:
  "window_run ref_server ref_elapse ''k'' 1000 1 1 0 [(5, ''a''), (10, ''b''), (2000, ''c'')] ref_redis0 =
    [(5, True), (15, False), (2015, True)]"
  using sliding_window_refines_log [OF ref_zsets.redis_zsets_axioms, where key = "''k''" and r = ref_redis0 and window = 1000 and limit = 1 and ttl = 1 and clock = 0
      and reqs = "[(5, ''a''), (10, ''b''), (2000, ''c'')]"]
  by (simp add: ref_redis0_def window_count_def)

text \<open>
  Claim C15.  The limit holds for every window, not only the aligned ones: of the requests
  of one client in any interval of the window's length at most \<open>limit\<close> are allowed.
\<close>

theorem sliding_window_bound:
  assumes "redis_zsets S elapse members zttl" and "members key r = Map.empty"
    and "0 < window" and "0 < ttl" and "window \<le> ttl * 1000" and "0 \<le> clock" and "distinct (map snd reqs)"
    and "0 \<le> limit" and "rs = window_run S elapse key window limit ttl clock reqs r"
  shows "int (card {i. i < length reqs \<and> snd (rs ! i) \<and> \<tau> - window < fst (rs ! i) \<and> fst (rs ! i) \<le> \<tau>}) \<le> limit"
proof -
  have "log_kept members zttl key window clock [] r" using assms(2) by (simp add: log_kept_def)
  from redis_zsets.window_run_spec [OF assms(1) this assms(3-6)] assms(7,9)
  have rs: "rs = window_spec window limit [] (instants clock reqs)" by simp
  have "{i. i < length reqs \<and> snd (rs ! i) \<and> \<tau> - window < fst (rs ! i) \<and> fst (rs ! i) \<le> \<tau>} =
      {i. i < length (instants clock reqs) \<and> snd (rs ! i) \<and> \<tau> - window < instants clock reqs ! i \<and> instants clock reqs ! i \<le> \<tau>}"
    using window_spec_nth [of _ "instants clock reqs" window limit "[]"] by (auto simp: rs)
  with window_spec_bound [OF assms(8), of "instants clock reqs" window \<tau>] rs show ?thesis by simp
qed

theorem sliding_window_bound_witness:
  "\<exists>rs. rs = window_run ref_server ref_elapse ''k'' 1000 1 1 0 [(5, ''a''), (10, ''b''), (2000, ''c'')] ref_redis0 \<and>
    int (card {i. i < 3 \<and> snd (rs ! i) \<and> 900 - 1000 < fst (rs ! i) \<and> fst (rs ! i) \<le> 900}) \<le> 1"
proof -
  let ?reqs = "[(5::nat, ''a''), (10, ''b''), (2000, ''c'')]"
  let ?rs = "window_run ref_server ref_elapse ''k'' 1000 1 1 0 ?reqs ref_redis0"
  have l: "length ?reqs = 3" by simp
  have "int (card {i. i < length ?reqs \<and> snd (?rs ! i) \<and> 900 - 1000 < fst (?rs ! i) \<and> fst (?rs ! i) \<le> 900}) \<le> 1"
    by (rule sliding_window_bound [OF ref_zsets.redis_zsets_axioms _ _ _ _ _ _ _ refl]) (simp_all add: ref_redis0_def)
  then show ?thesis unfolding l by (intro exI conjI) (rule refl)
qed

text \<open>
  Claim C29.  A request the middleware lets through without a bypass was counted: the script
  ran on the client's key, the count is within the limit, and the headers say what is
  left.  One refusal only: status 429 with the time to wait, when the count exceeds the
  limit.
\<close>

theorem limiter_outcome:
  assumes "redis_remote S pttl elapse svc sha1" and "registered svc sha1 w"
    and "cfg = configuration options" and "\<not> bypassed disable cfg request"
    and "run (rateLimiter svc disable uuid options request) w = (w', Inr out)"
  shows "\<exists>r' count. w' = w\<lparr>w_redis := r'\<rparr> \<and> count = ZCARD S (client_key cfg request) r' \<and>
    r' = fst (sliding_window S [client_key cfg request]
      [show_int (w_clock w), show_int (cf_windowMs cfg), show_int (cf_maxRequests cfg),
       show_int (w_clock w) @ CHR ''-'' # uuid, show_int (ceil_thousandth (cf_windowMs cfg))] (w_redis w)) \<and>
    (if count \<le> cf_maxRequests cfg
     then out = Next [(''RateLimit-Limit'', cf_maxRequests cfg), (''RateLimit-Remaining'', cf_maxRequests cfg - count),
       (''RateLimit-Reset'', max (ceil_thousandth (cf_windowMs cfg)) 1)]
     else \<exists>res. out = Respond res \<and> res_status res = 429 \<and>
       res_headers res = [(''RateLimit-Limit'', cf_maxRequests cfg), (''RateLimit-Remaining'', 0),
         (''RateLimit-Reset'', max (ceil_thousandth (cf_windowMs cfg)) 1),
         (''Retry-After'', max (ceil_thousandth (cf_windowMs cfg)) 1)])"
proof -
  obtain r' where w': "w' = w\<lparr>w_redis := r'\<rparr>"
    and sw: "r' = fst (sliding_window S [client_key cfg request]
      [show_int (w_clock w), show_int (cf_windowMs cfg), show_int (cf_maxRequests cfg),
       show_int (w_clock w) @ CHR ''-'' # uuid, show_int (ceil_thousandth (cf_windowMs cfg))] (w_redis w))"
    and out: "out = apply_limit cfg (w_clock w) (if ZCARD S (client_key cfg request) r' \<le> cf_maxRequests cfg then 1 else 0)
      (max (cf_maxRequests cfg - ZCARD S (client_key cfg request) r') 0) (w_clock w + cf_windowMs cfg)"
    using redis_remote.limiter_run [OF assms(1,2) assms(4) [unfolded assms(3)] assms(5)] assms(3)
    by (auto simp del: sliding_window.simps)
  show ?thesis
    by (rule exI [of _ r'], rule exI [of _ "ZCARD S (client_key cfg request) r'"])
       (use w' sw out in \<open>auto simp: apply_limit_def Let_def simp del: sliding_window.simps\<close>)
qed

definition ref_options :: RateLimiterOptions where
  "ref_options = \<lparr>windowMs = None, maxRequests = Some 1, keyPrefix = None, skip = None\<rparr>"

definition ref_http :: http_request where
  "ref_http = \<lparr>req_method = ''GET'', req_path = ''/'', req_header = Map.empty, req_ip = Some ''::1'',
     req_remoteAddress = None, req_query = Map.empty, req_params = Map.empty, req_body = None\<rparr>"

lemma ref_not_bypassed: "\<not> bypassed None (configuration ref_options) ref_http"
  by (simp add: bypassed_def configuration_def ref_options_def ref_http_def)

lemma ref_limiter_run: "\<exists>w' out. run (rateLimiter ref_services None u ref_options ref_http) ref_world = (w', Inr out)"
proof -
  have "w_digests ref_world slidingWindow = Some (ref_sha1 (ref_text slidingWindow))" by (simp add: ref_world_def)
  moreover have "rs_cached (w_redis ref_world)" by (simp add: ref_world_def ref_redis0_def)
  ultimately show ?thesis
    using ref_not_bypassed
    by (simp add: rateLimiter_def Let_def run_await run_Date_now run_getLuaScriptDigest run_redis_do
        ref_client_def ref_evalsha_def ref_sha1_def ref_eval_def)
qed

theorem limiter_outcome_witness:
  "\<exists>w' out r'. run (rateLimiter ref_services None ''u1'' ref_options ref_http) ref_world = (w', Inr out) \<and> w' = ref_world\<lparr>w_redis := r'\<rparr>"
proof -
  obtain w' out where r: "run (rateLimiter ref_services None ''u1'' ref_options ref_http) ref_world = (w', Inr out)"
    using ref_limiter_run by blast
  from limiter_outcome [OF ref_remote.redis_remote_axioms ref_registered refl ref_not_bypassed r] r show ?thesis by blast
qed

text \<open>
  The limiter has no fallback to the script text: while Redis refuses the digest,
  for instance after it has lost its script cache, every request without a bypass is
  rejected with that error, on every route, and no state changes.
\<close>

theorem limiter_without_script:
  assumes "w_digests w slidingWindow = Some digest" and "\<not> bypassed disable (configuration options) request"
    and "\<And>keys args. c_evalsha (redis svc) digest keys args (w_redis w) = (w_redis w, Inl e)"
  shows "run (rateLimiter svc disable uuid options request) w = (w, Inl e)"
  using assms by (simp add: rateLimiter_def Let_def run_await run_Date_now run_getLuaScriptDigest run_redis_do)

theorem limiter_without_script_witness:
  "run (rateLimiter ref_services None ''u1'' ref_options ref_http) (ref_world\<lparr>w_redis := ref_redis0\<lparr>rs_cached := False\<rparr>\<rparr>)
    = (ref_world\<lparr>w_redis := ref_redis0\<lparr>rs_cached := False\<rparr>\<rparr>, Inl noscript)"
  by (rule limiter_without_script [OF _ ref_not_bypassed])
     (auto simp: ref_world_def ref_client_def ref_evalsha_def)

end
