(* ===== verification/App.thy ===== *)
theory App imports Controllers Rate_Limiter begin

text \<open>
  \<open>src/src/app.ts\<close> and \<open>src/src/routes/*.ts\<close>: the way of a request through body parser, rate
  limiter, routes and error middleware.  Express itself is a parameter: \<open>st_body\<close> is its
  body parser, \<open>st_match\<close> matches a path pattern with a path and gives the route parameters.
  \<open>helmet\<close>, \<open>cors\<close> and the request log only add headers and lines of a log and are left out.
\<close>

section \<open>Set-up\<close>

record ('r, 'd) app_setup =
  st_svc :: "('r, 'd) services"
  st_geo :: "('r, 'd) geo_services"
  st_bench :: "('r, 'd) bench_services"
  st_env :: node_env
  st_windowMs :: int
  st_maxRequests :: int
  st_disable :: "string option"
  st_zod :: zod_messages
  st_consumer :: string
  st_uptime :: "int \<Rightarrow> rat"
  st_body :: "http_request \<Rightarrow> exn + json option"
  st_match :: "string \<Rightarrow> string \<Rightarrow> (string \<Rightarrow> string option) option"

text \<open>What a request draws: the values of \<open>randomUUID()\<close> and the interleavings of its batches.\<close>

record draws =
  dw_limit :: string
  dw_uuid :: "nat \<Rightarrow> string"
  dw_batch :: "nat \<Rightarrow> nat \<Rightarrow> string"
  dw_sched :: "nat list"
  dw_scheds :: "nat \<Rightarrow> nat list"
  dw_uuids :: "nat \<Rightarrow> nat \<Rightarrow> string"

type_synonym ('r, 'd) handler = "http_request \<Rightarrow> (('r, 'd) world, http_answer) proc"
type_synonym ('r, 'd) route = "string \<times> string \<times> ('r, 'd) handler"

section \<open>Routes\<close>

definition ticketRouter :: "('r, 'd) app_setup \<Rightarrow> draws \<Rightarrow> ('r, 'd) route list" where
  "ticketRouter A D =
     [(''POST'', ''/hold'', holdSeatHandler (st_svc A) (st_zod A) (dw_uuid D)),
      (''POST'', ''/orders'', createOrderHandler (st_svc A) (st_zod A) (dw_uuid D)),
      (''POST'', ''/release'', releaseSeatHandler (st_svc A) (st_zod A) (dw_uuid D))]"

definition eventRouter :: "('r, 'd) app_setup \<Rightarrow> draws \<Rightarrow> ('r, 'd) route list" where
  "eventRouter A D =
     [(''GET'', ''/search/geo'', searchEventsByGeo (st_geo A) (st_zod A)),
      (''GET'', ''/:eventId/seats'', getEventSeatingMap (st_svc A) (st_env A) (dw_uuid D 0))]"

definition diagnosticsRouter :: "('r, 'd) app_setup \<Rightarrow> draws \<Rightarrow> ('r, 'd) route list" where
  "diagnosticsRouter A D =
     [(''POST'', ''/seating-map/benchmark'', benchmarkSeatingMap (st_svc A) (st_env A) (dw_sched D) (dw_uuid D)),
      (''POST'', ''/seat-hold/benchmark'', benchmarkSeatHold (st_svc A) (st_env A) (dw_sched D) (dw_uuid D)),
      (''POST'', ''/order-stream/benchmark'',
         benchmarkOrderStream (st_svc A) (st_bench A) (st_env A) (st_consumer A) (dw_sched D) (dw_batch D) (dw_scheds D) (dw_uuids D))]"

definition mount :: "string \<Rightarrow> ('r, 'd) route list \<Rightarrow> ('r, 'd) route list" where
  "mount prefix = map (\<lambda>(method, pattern, handler). (method, prefix @ pattern, handler))"

definition apiRouter :: "('r, 'd) app_setup \<Rightarrow> draws \<Rightarrow> ('r, 'd) route list" where
  "apiRouter A D =
     mount ''/events'' (eventRouter A D) @ mount ''/diagnostics'' (diagnosticsRouter A D) @
     mount ''/tickets'' (ticketRouter A D)"

definition root_handler :: "('r, 'd) handler" where
  "root_handler request =
     await Date_now (\<lambda>now. answer 200 (JsonBody (JObj
       [(''name'', JStr ''EventLock Engine API''), (''status'', JStr ''online''), (''timestamp'', JStr (toISOString now))])))"

definition health_handler :: "('r, 'd) app_setup \<Rightarrow> ('r, 'd) handler" where
  "health_handler A request =
     await Date_now (\<lambda>now. answer 200 (HealthBody (st_uptime A now) (toISOString now)))"

definition limit_test_handler :: "('r, 'd) handler" where
  "limit_test_handler request =
     answer 200 (JsonBody (JObj [(''status'', JStr ''ok''), (''message'', JStr ''Request passed the Redis rate limiter'')]))"

definition app_routes :: "('r, 'd) app_setup \<Rightarrow> draws \<Rightarrow> ('r, 'd) route list" where
  "app_routes A D =
     [(''GET'', ''/'', root_handler), (''GET'', ''/health'', health_handler A),
      (''GET'', ''/api/v1/rate-limit-test'', limit_test_handler)] @ mount ''/api/v1'' (apiRouter A D)"

text \<open>The first route of the method and the path; a \<open>GET\<close> route answers \<open>HEAD\<close> too.\<close>

fun dispatch ::
  "(string \<Rightarrow> string \<Rightarrow> (string \<Rightarrow> string option) option) \<Rightarrow> ('r, 'd) route list \<Rightarrow> ('r, 'd) handler" where
  "dispatch matches [] request = Throw (NotFoundError ''Requested endpoint does not exist'')"
| "dispatch matches ((method, pattern, handler) # routes) request =
     (case matches pattern (req_path request) of
        Some params \<Rightarrow>
          (if req_method request = method \<or> req_method request = ''HEAD'' \<and> method = ''GET''
           then handler (request\<lparr>req_params := params\<rparr>)
           else dispatch matches routes request)
      | None \<Rightarrow> dispatch matches routes request)"

section \<open>The application\<close>

definition limiter_options :: "('r, 'd) app_setup \<Rightarrow> RateLimiterOptions" where
  "limiter_options A =
     \<lparr>windowMs = Some (st_windowMs A), maxRequests = Some (st_maxRequests A), keyPrefix = None,
      skip = Some (\<lambda>request. req_path request = ''/'' \<or> req_path request = ''/health'')\<rparr>"

definition error_json :: "error_body \<Rightarrow> json" where
  "error_json b = JObj
     [(''status'', JStr (body_status b)), (''statusCode'', JNum (int (body_statusCode b))), (''message'', JStr (body_message b))]"

definition error_answer :: "node_env \<Rightarrow> headers \<Rightarrow> exn \<Rightarrow> http_answer" where
  "error_answer NODE_ENV hs error =
     (case errorHandler NODE_ENV error of
        (status, body) \<Rightarrow> \<lparr>an_status = status, an_headers = hs, an_body = JsonBody (error_json body)\<rparr>)"

definition handle_request :: "('r, 'd) app_setup \<Rightarrow> draws \<Rightarrow> ('r, 'd) handler" where
  "handle_request A D request =
     (case st_body A request of
        Inl error \<Rightarrow> Ret (error_answer (st_env A) [] error)
      | Inr body \<Rightarrow>
          (let request1 = request\<lparr>req_body := body\<rparr> in
           await (settled (rateLimiter (st_svc A) (st_disable A) (dw_limit D) (limiter_options A) request1)) (\<lambda>gate.
           case gate of
             Inl error \<Rightarrow> Ret (error_answer (st_env A) [] error)
           | Inr (Respond r) \<Rightarrow> Ret \<lparr>an_status = res_status r, an_headers = res_headers r, an_body = JsonBody (res_json r)\<rparr>
           | Inr (Next hs) \<Rightarrow>
               await (settled (dispatch (st_match A) (app_routes A D) request1)) (\<lambda>outcome.
               case outcome of
                 Inl error \<Rightarrow> Ret (error_answer (st_env A) hs error)
               | Inr result \<Rightarrow> Ret (result\<lparr>an_headers := hs @ an_headers result\<rparr>)))))"

section \<open>Every request is answered\<close>

lemma handle_run:
  "run (handle_request A D request) w =
    (case st_body A request of
       Inl error \<Rightarrow> (w, Inr (error_answer (st_env A) [] error))
     | Inr body \<Rightarrow>
         (case run (rateLimiter (st_svc A) (st_disable A) (dw_limit D) (limiter_options A) (request\<lparr>req_body := body\<rparr>)) w of
            (w1, Inl error) \<Rightarrow> (w1, Inr (error_answer (st_env A) [] error))
          | (w1, Inr (Respond r)) \<Rightarrow> (w1, Inr \<lparr>an_status = res_status r, an_headers = res_headers r, an_body = JsonBody (res_json r)\<rparr>)
          | (w1, Inr (Next hs)) \<Rightarrow>
              (case run (dispatch (st_match A) (app_routes A D) (request\<lparr>req_body := body\<rparr>)) w1 of
                 (w2, Inl error) \<Rightarrow> (w2, Inr (error_answer (st_env A) hs error))
               | (w2, Inr result) \<Rightarrow> (w2, Inr (result\<lparr>an_headers := hs @ an_headers result\<rparr>)))))"
  by (simp add: handle_request_def run_simps Let_def split: sum.split prod.split outcome.split)

lemma error_answer_status: "an_status (error_answer env hs e) = (case e of AppError m n \<Rightarrow> n | JsError m \<Rightarrow> 500)"
  by (cases e) (simp_all add: error_answer_def errorHandler_def)


text \<open>A body that is not JSON: the parser's error is no \<open>AppError\<close>.\<close>

definition sample_app :: "(ref_redis, ref_db) app_setup" where
  "sample_app = \<lparr>st_svc = ref_services, st_geo = undefined, st_bench = undefined, st_env = Production, st_windowMs = 60000,
     st_maxRequests = 100, st_disable = None, st_zod = undefined, st_consumer = ''c'', st_uptime = of_int,
     st_body = (\<lambda>_. Inl (JsError ''Unexpected token'')), st_match = (\<lambda>_ _. None)\<rparr>"

definition sample_draws :: draws where
  "sample_draws = \<lparr>dw_limit = ''l'', dw_uuid = show_nat, dw_batch = (\<lambda>i j. show_nat i), dw_sched = [], dw_scheds = (\<lambda>_. []),
     dw_uuids = (\<lambda>i j. show_nat i)\<rparr>"

definition broken_request :: http_request where
  "broken_request = \<lparr>req_method = ''POST'', req_path = ''/api/v1/tickets/hold'', req_header = Map.empty, req_ip = Some ''::1'',
     req_remoteAddress = None, req_query = Map.empty, req_params = Map.empty, req_body = None\<rparr>"


end
