(* ===== verification/Http_Contest.thy ===== *)
theory Http_Contest imports App Seat_Contest begin

text \<open>
  Any number of \<open>POST /api/v1/tickets/hold\<close> requests for one seat at the same time, each of
  them the whole handler: validation, lookup, lock, event, answer.
\<close>

section \<open>One handler\<close>

text \<open>The user a request names, and the seat it is for, after the two validations.\<close>

definition asks_for :: "zod_messages \<Rightarrow> http_request \<Rightarrow> string \<Rightarrow> string \<Rightarrow> string \<Rightarrow> bool" where
  "asks_for Z request ev seat user \<longleftrightarrow>
     (\<forall>parsed rq. holdSeatRequestSchema Z (req_body request) = Inr parsed \<longrightarrow>
        normalizeHoldRequest (hold_payload parsed) = Inr rq \<longrightarrow>
        rq_eventId rq = ev \<and> rq_seatId rq = seat \<and> rq_userId rq = user)"

definition hold_answered ::
  "'r redis_server \<Rightarrow> string \<Rightarrow> string \<Rightarrow> string \<Rightarrow> http_answer \<Rightarrow> ('r, 'd) world \<Rightarrow> bool" where
  "hold_answered S key user uuid a w \<longleftrightarrow>
     an_status a = 200 \<and> held_by S key user uuid (w_redis w) \<or>
     an_status a = 409 \<and> GET S key (w_redis w) \<noteq> None \<and> \<not> held_by S key user uuid (w_redis w)"

lemma hold_answered_outcome:
  "hold_answered S key user uuid a = (if an_status a = 200 then outcome S key user uuid (RInt 1)
     else if an_status a = 409 then outcome S key user uuid (RInt 0) else (\<lambda>_. False))"
  by (auto simp: hold_answered_def outcome_def fun_eq_iff)

lemma stable_hold_answered [stable_intros]:
  "stable (others_move S key n user uuid i) (hold_answered S key (user i) (uuid i) a)"
  by (simp add: hold_answered_outcome stable_outcome)

lemma quiet_refl: "quiet S key w w"
  by (simp add: quiet_def)

lemma stable_quiet:
  "stable (quiet S key) (may_try S svc sha1 key user uuid)" "stable (quiet S key) (outcome S key user uuid result)"
  by (auto intro!: stableI simp: quiet_def may_try_def registered_def well_held_def held_by_def outcome_def)

lemma quiet_Date_now: "moves (quiet S key) Date_now"
  unfolding Date_now_def by (rule moves_reads) (rule quiet_refl)

lemma quiet_open_seat: "moves (quiet S key) (open_seat svc rq)"
  unfolding open_seat_def db_read_def
  by (rule moves_await [OF moves_atomic])
     (auto intro: moves_intros quiet_refl split: option.split prod.split list.split)

context redis_streams begin

lemma quiet_publish: "moves (quiet S key) (publishSeatEvent svc event)"
proof -
  have "moves (quiet S key) (adapter_publishSeatEvent svc event)"
    unfolding adapter_publishSeatEvent_def
  proof (rule moves_atomic, goal_cases)
    case (1 w)
    obtain r x where p: "c_publish (redis svc) WS_SEAT_EVENTS_CHANNEL (stringify (seat_event_json event)) (w_redis w) = (r, x)" by force
    with publish_remote [OF p] show ?case by (auto simp: quiet_def Let_def split: sum.split simp del: stringify.simps)
  qed
  then show ?thesis unfolding publishSeatEvent_def by (intro moves_intros)
qed

lemma rg_answer_hold:
  assumes "inj uuid" and "i < n"
  shows "rg (others_move S key n user uuid i) (takes S key n user uuid i)
     (\<lambda>result. hold_answered S key (user i) (uuid i) \<lparr>an_status = hold_status_code result, an_headers = [], an_body = B result\<rparr>)
     (\<lambda>_ _. True) (outcome S key (user i) (uuid i) (se_result ex)) (answer_hold svc event_id rq ex)"
proof (cases "se_result ex = RInt 1")
  case True
  note keep = stable_outcome stable_quiet(2) quiet_takes
  show ?thesis
    using True unfolding answer_hold_def
    by (simp add: Let_def)
       (rule rg_await_moves [OF quiet_Date_now keep], assumption, rule rg_await_moves [OF quiet_publish keep], assumption,
         rule rg.rg_Ret [OF stable_outcome], simp add: hold_answered_def outcome_def)
next
  case False
  then show ?thesis
    by (simp add: answer_hold_def) (rule rg.rg_Ret [OF stable_outcome], auto simp: hold_answered_def outcome_def)
qed

lemma rg_holdSeat:
  assumes "inj (\<lambda>i. draw i 0)" and "i < n" and "normalizeHoldRequest payload = Inr rq"
    and "key = seatLockKey (rq_eventId rq) (rq_seatId rq)" and "rq_userId rq = user i"
  shows "rg (others_move S key n user (\<lambda>i. draw i 0) i) (takes S key n user (\<lambda>i. draw i 0) i)
     (\<lambda>result. hold_answered S key (user i) (draw i 0) \<lparr>an_status = hold_status_code result, an_headers = [], an_body = B result\<rparr>)
     (\<lambda>_ _. True) (may_try S svc sha1 key (user i) (draw i 0)) (holdSeat svc (draw i) payload)"
proof -
  note acquire = rg_acquire [OF assms(1,2,4), where user = user and ttl = "Finite DEFAULT_HOLD_TTL_SECONDS"]
  show ?thesis
    unfolding holdSeat_def assms(3) sync_def rethrow_def sum.case await.simps
  proof (rule rg_await_moves [OF quiet_open_seat [of S key] stable_may_try [OF assms(1,2)] stable_quiet(1)])
    fix seat
    show "rg (others_move S key n user (\<lambda>i. draw i 0) i) (takes S key n user (\<lambda>i. draw i 0) i)
       (\<lambda>result. hold_answered S key (user i) (draw i 0) \<lparr>an_status = hold_status_code result, an_headers = [], an_body = B result\<rparr>)
       (\<lambda>_ _. True) (may_try S svc sha1 key (user i) (draw i 0))
       (await (acquireSeatHold svc (draw i 0) (rq_eventId rq) (rq_seatId rq) (rq_userId rq) (Finite DEFAULT_HOLD_TTL_SECONDS))
         (answer_hold svc (draw i 1) rq))"
      unfolding assms(5) by (rule rg_await [OF acquire rg_answer_hold [OF assms(1,2)]])
  qed (rule quiet_takes)
qed

lemma rg_handler:
  assumes "inj (\<lambda>i. draw i 0)" and "i < n" and "asks_for Z request ev seat (user i)" and "key = seatLockKey ev seat"
  shows "rg (others_move S key n user (\<lambda>i. draw i 0) i) (takes S key n user (\<lambda>i. draw i 0) i)
     (hold_answered S key (user i) (draw i 0)) (\<lambda>_ _. True) (may_try S svc sha1 key (user i) (draw i 0))
     (holdSeatHandler svc Z (draw i) request)"
proof (cases "holdSeatRequestSchema Z (req_body request)")
  case (Inl m)
  then show ?thesis
    by (simp add: holdSeatHandler_def) (rule rg.rg_Throw [OF stable_may_try [OF assms(1,2)]], simp)
next
  case (Inr parsed)
  show ?thesis
  proof (cases "normalizeHoldRequest (hold_payload parsed)")
    case (Inl e)
    then show ?thesis
      using Inr by (simp add: holdSeatHandler_def holdSeat_def sync_def rethrow_def)
        (rule rg.rg_Throw [OF stable_may_try [OF assms(1,2)]], simp)
  next
    case rq: (Inr rq)
    have k: "key = seatLockKey (rq_eventId rq) (rq_seatId rq)" "rq_userId rq = user i"
      using assms(3,4) Inr rq by (auto simp: asks_for_def)
    have "rg (others_move S key n user (\<lambda>i. draw i 0) i) (takes S key n user (\<lambda>i. draw i 0) i)
       (hold_answered S key (user i) (draw i 0)) (\<lambda>_ _. True) (may_try S svc sha1 key (user i) (draw i 0))
       (await (holdSeat svc (draw i) (hold_payload parsed)) (\<lambda>result. answer (hold_status_code result) (JsonBody (hold_response_json result))))"
      unfolding answer_def
      by (rule rg_await [OF rg_holdSeat [where draw = draw and user = user, OF assms(1,2) rq k]]) (rule rg.rg_Ret [OF stable_hold_answered], assumption)
    then show ?thesis using Inr by (simp add: holdSeatHandler_def)
  qed
qed

end

section \<open>Many handlers\<close>

definition hold_requests ::
  "('r, 'd) services \<Rightarrow> zod_messages \<Rightarrow> (nat \<Rightarrow> nat \<Rightarrow> string) \<Rightarrow> (nat \<Rightarrow> http_request) \<Rightarrow> nat \<Rightarrow> (('r, 'd) world, http_answer) proc list" where
  "hold_requests svc Z draw request n = map (\<lambda>i. holdSeatHandler svc Z (draw i) (request i)) [0..<n]"

definition accepted :: "('w, http_answer) proc \<Rightarrow> bool" where
  "accepted p \<longleftrightarrow> (\<exists>a. p = Ret a \<and> an_status a = 200)"

context redis_streams begin

lemma requests_holding:
  assumes "inj (\<lambda>i. draw i 0)" and "registered svc sha1 w" and "GET S (seatLockKey ev seat) (w_redis w) = None"
    and "\<And>i. i < n \<Longrightarrow> asks_for Z (request i) ev seat (user i)"
  shows "contest.holding S (seatLockKey ev seat) n user (\<lambda>i. draw i 0)
    (\<lambda>i. hold_answered S (seatLockKey ev seat) (user i) (draw i 0)) (\<lambda>_ _ _. True) (w, hold_requests svc Z draw request n)"
  unfolding contest.holding_def
proof (intro allI impI)
  fix i
  assume "i < length (snd (w, hold_requests svc Z draw request n))"
  then have i: "i < n" by (simp add: hold_requests_def)
  from assms(2,3) have "may_try S svc sha1 (seatLockKey ev seat) (user i) (draw i 0) w"
    by (auto simp: may_try_def well_held_free held_by_def)
  moreover have "hold_requests svc Z draw request n ! i = holdSeatHandler svc Z (draw i) (request i)"
    using i by (simp add: hold_requests_def)
  ultimately show "\<exists>A. A (fst (w, hold_requests svc Z draw request n)) \<and>
      rg (others_move S (seatLockKey ev seat) n user (\<lambda>i. draw i 0) i) (takes S (seatLockKey ev seat) n user (\<lambda>i. draw i 0) i)
       (hold_answered S (seatLockKey ev seat) (user i) (draw i 0)) (\<lambda>_ _. True) A (snd (w, hold_requests svc Z draw request n) ! i)"
    using rg_handler [where draw = draw and user = user, OF assms(1) i assms(4) [OF i] refl] by (metis fst_conv snd_conv)
qed

lemma requests_winner:
  assumes "inj (\<lambda>i. draw i 0)" and "registered svc sha1 w" and "GET S (seatLockKey ev seat) (w_redis w) = None"
    and "\<And>i. i < n \<Longrightarrow> asks_for Z (request i) ev seat (user i)"
    and "pool_steps (quiet S (seatLockKey ev seat)) (w, hold_requests svc Z draw request n) (w', ps')"
  shows "i < n \<Longrightarrow> accepted (ps' ! i) \<Longrightarrow> held_by S (seatLockKey ev seat) (user i) (draw i 0) (w_redis w')"
    and "i < n \<Longrightarrow> j < n \<Longrightarrow> accepted (ps' ! i) \<Longrightarrow> accepted (ps' ! j) \<Longrightarrow> i = j"
    and "0 < n \<Longrightarrow> \<forall>i < n. answered (ps' ! i) \<Longrightarrow> \<exists>i < n. accepted (ps' ! i)"
proof -
  let ?key = "seatLockKey ev seat"
  note hold = requests_holding [where draw = draw and user = user and request = request, OF assms(1-4)]
  have out: "hold_answered S ?key (user i) (draw i 0) a w'" if "i < n" "ps' ! i = Ret a" for i a
    by (rule contest.finished_returned [OF assms(5) hold]) (use that in \<open>simp_all add: hold_requests_def\<close>)
  show held: "held_by S ?key (user i) (draw i 0) (w_redis w')" if "i < n" and acc: "accepted (ps' ! i)" for i
  proof -
    obtain a where a: "ps' ! i = Ret a" "an_status a = 200" using acc by (auto simp: accepted_def)
    with out [OF \<open>i < n\<close> a(1)] show ?thesis by (simp add: hold_answered_def)
  qed
  show "i = j" if "i < n" "j < n" "accepted (ps' ! i)" "accepted (ps' ! j)" for i j
    using held_by_unique [OF held [OF that(1,3)] held [OF that(2,4)]] assms(1) by (auto dest: injD)
  let ?I = "\<lambda>w. GET S ?key (w_redis w) = None \<or> (\<exists>i < n. held_by S ?key (user i) (draw i 0) (w_redis w))"
  have key: "?I (fst (w', ps'))"
    by (rule contest.steps_invariant [OF assms(5) hold, where I = ?I]) (use assms(3) in \<open>auto simp: takes_def quiet_def held_by_def\<close>)
  show "\<exists>i < n. accepted (ps' ! i)" if "0 < n" "\<forall>i < n. answered (ps' ! i)"
  proof (rule ccontr)
    assume none: "\<not> (\<exists>i < n. accepted (ps' ! i))"
    have refused: "GET S ?key (w_redis w') \<noteq> None \<and> \<not> held_by S ?key (user i) (draw i 0) (w_redis w')" if i: "i < n" for i
    proof -
      obtain a where a: "ps' ! i = Ret a" using \<open>\<forall>i < n. answered (ps' ! i)\<close> i by (auto elim: answeredE)
      with none i have "an_status a \<noteq> 200" by (auto simp: accepted_def)
      with out [OF i a] show ?thesis by (simp add: hold_answered_def)
    qed
    from refused [OF that(1)] key obtain i where "i < n" "held_by S ?key (user i) (draw i 0) (w_redis w')" by auto
    with refused show False by blast
  qed
qed

end

section \<open>Properties\<close>


text \<open>Two requests on the reference store; the first one has been answered.\<close>

definition sample_request :: http_request where
  "sample_request = \<lparr>req_method = ''POST'', req_path = ''/api/v1/tickets/hold'', req_header = Map.empty, req_ip = Some ''::1'',
     req_remoteAddress = None, req_query = Map.empty, req_params = Map.empty,
     req_body = Some (JObj [(''eventId'', JStr ''ev''), (''seatId'', JStr ''s1''), (''userId'', JStr ''u1'')])\<rparr>"

definition sample_zod :: zod_messages where
  "sample_zod = \<lparr>zm_string = (\<lambda>_. ''Invalid input''), zm_object = (\<lambda>_. ''Invalid input''), zm_number = (\<lambda>_ _. [''Invalid input''])\<rparr>"

lemma sample_parsed:
  "holdSeatRequestSchema sample_zod (req_body sample_request) = Inr ref_request"
  "hold_payload ref_request = ref_payload ''ev'' ''s1'' ''u1''"
  by (simp_all add: holdSeatRequestSchema_def sample_request_def member_def required_def hold_payload_def ref_payload_def)

lemma sample_asks: "asks_for sample_zod sample_request ''ev'' ''s1'' ''u1''"
  by (simp add: asks_for_def sample_parsed ref_normalize)

lemma sample_handler_run:
  "\<exists>w' a. run (holdSeatHandler ref_services sample_zod uuid sample_request) ref_world = (w', Inr a) \<and> an_status a = 200"
proof -
  obtain w' hr where "run (holdSeat ref_services uuid (ref_payload ''ev'' ''s1'' ''u1'')) ref_world = (w', Inr (HoldSeatSuccess hr))"
    using ref_hold_run by blast
  then show ?thesis by (simp add: holdSeatHandler_def sample_parsed answer_def run_simps)
qed


end
