(* ===== verification/Api_Types.thy ===== *)
theory Api_Types imports App begin

text \<open>
  The TypeScript types of what the engine sends and stores: interfaces of
  \<open>src/src/types/ticket.types.ts\<close>, the body of the error middleware, and the contract of every
  route.  A type is a description of JSON values; as in TypeScript, an object may have more
  members than its interface names.
\<close>

section \<open>Types of JSON values\<close>

datatype jty =
    TString
  | TNumber
  | TLit json
  | TArray jty
  | TObject "(string \<times> jty) list"
  | TUnion "jty list"

fun typed :: "jty \<Rightarrow> json \<Rightarrow> bool" where
  "typed TString v = (case v of JStr _ \<Rightarrow> True | _ \<Rightarrow> False)"
| "typed TNumber v = (case v of JNum _ \<Rightarrow> True | _ \<Rightarrow> False)"
| "typed (TLit l) v = (v = l)"
| "typed (TArray t) v = (case v of JArr vs \<Rightarrow> list_all (typed t) vs | _ \<Rightarrow> False)"
| "typed (TObject fts) v =
     (case v of
        JObj kvs \<Rightarrow> list_all (\<lambda>(k, t). case member kvs k of Some x \<Rightarrow> typed t x | None \<Rightarrow> False) fts
      | _ \<Rightarrow> False)"
| "typed (TUnion ts) v = list_ex (\<lambda>t. typed t v) ts"

section \<open>The interfaces\<close>

definition SeatState_type :: jty where
  "SeatState_type = TUnion [TLit (JStr ''AVAILABLE''), TLit (JStr ''HELD''), TLit (JStr ''SOLD'')]"

definition SeatingMapSeat_type :: jty where
  "SeatingMapSeat_type = TObject
     [(''id'', TString), (''section'', TString), (''row'', TString), (''number'', TString), (''status'', SeatState_type)]"

definition SeatingMap_type :: jty where
  "SeatingMap_type = TObject
     [(''eventId'', TString), (''eventName'', TString), (''startsAt'', TString), (''seats'', TArray SeatingMapSeat_type)]"

definition ReleaseSeatResponse_type :: jty where
  "ReleaseSeatResponse_type = TObject
     [(''status'', TLit (JStr ''released'')), (''eventId'', TString), (''seatId'', TString), (''holdId'', TString)]"

definition CreateOrderResponse_type :: jty where
  "CreateOrderResponse_type = TObject [(''orderId'', TString), (''status'', TLit (JStr ''PROCESSING''))]"

definition SeatHoldRecord_type :: jty where
  "SeatHoldRecord_type = TObject
     [(''holdId'', TString), (''eventId'', TString), (''seatId'', TString), (''userId'', TString),
      (''status'', TLit (JStr ''HELD'')), (''expiresAt'', TString)]"

definition HoldSeatSuccessResponse_type :: jty where
  "HoldSeatSuccessResponse_type = TObject
     [(''status'', TLit (JStr ''success'')), (''statusCode'', TLit (JNum 200)), (''data'', SeatHoldRecord_type)]"

definition HoldSeatConflictResponse_type :: jty where
  "HoldSeatConflictResponse_type = TObject
     [(''status'', TLit (JStr ''fail'')), (''statusCode'', TLit (JNum 409)), (''message'', TString)]"

text \<open>The body of the error middleware, and of the limiter, for a status.\<close>

definition error_type :: "nat \<Rightarrow> jty" where
  "error_type status = TObject
     [(''status'', TUnion [TLit (JStr ''fail''), TLit (JStr ''error'')]), (''statusCode'', TLit (JNum (int status))),
      (''message'', TString)]"

section \<open>The contract of the routes\<close>

datatype reply_type = JsonReply jty | HealthReply | NearbyReply | BenchmarkReply

fun reply_typed :: "reply_type \<Rightarrow> answer_body \<Rightarrow> bool" where
  "reply_typed (JsonReply t) (JsonBody v) = typed t v"
| "reply_typed HealthReply (HealthBody _ _) = True"
| "reply_typed NearbyReply (NearbyBody results query n) = (n = length results)"
| "reply_typed BenchmarkReply (MapBenchmarkBody _) = True"
| "reply_typed BenchmarkReply (HoldBenchmarkBody _) = True"
| "reply_typed BenchmarkReply (OrderBenchmarkBody _) = True"
| "reply_typed _ _ = False"

definition api_contract :: "string \<rightharpoonup> (nat \<times> reply_type) list" where
  "api_contract = map_of
     [(''/'', [(200, JsonReply (TObject [(''name'', TString), (''status'', TLit (JStr ''online'')), (''timestamp'', TString)]))]),
      (''/health'', [(200, HealthReply)]),
      (''/api/v1/rate-limit-test'', [(200, JsonReply (TObject [(''status'', TLit (JStr ''ok'')), (''message'', TString)]))]),
      (''/api/v1/events/search/geo'', [(200, NearbyReply)]),
      (''/api/v1/events/:eventId/seats'', [(200, JsonReply SeatingMap_type)]),
      (''/api/v1/diagnostics/seating-map/benchmark'', [(200, BenchmarkReply)]),
      (''/api/v1/diagnostics/seat-hold/benchmark'', [(200, BenchmarkReply)]),
      (''/api/v1/diagnostics/order-stream/benchmark'', [(200, BenchmarkReply)]),
      (''/api/v1/tickets/hold'', [(200, JsonReply HoldSeatSuccessResponse_type), (409, JsonReply HoldSeatConflictResponse_type)]),
      (''/api/v1/tickets/orders'', [(202, JsonReply CreateOrderResponse_type)]),
      (''/api/v1/tickets/release'', [(200, JsonReply ReleaseSeatResponse_type)])]"

definition declared :: "string \<Rightarrow> http_answer \<Rightarrow> bool" where
  "declared pattern a =
     (case api_contract pattern of
        None \<Rightarrow> False
      | Some replies \<Rightarrow> list_ex (\<lambda>(status, t). an_status a = status \<and> reply_typed t (an_body a)) replies)"

definition error_typed :: "http_answer \<Rightarrow> bool" where
  "error_typed a = reply_typed (JsonReply (error_type (an_status a))) (an_body a)"

section \<open>What the engine builds is well typed\<close>

lemmas interface_defs =
  SeatState_type_def SeatingMapSeat_type_def SeatingMap_type_def ReleaseSeatResponse_type_def CreateOrderResponse_type_def
  SeatHoldRecord_type_def HoldSeatSuccessResponse_type_def HoldSeatConflictResponse_type_def error_type_def

lemma seat_state_typed [simp]: "typed SeatState_type (JStr (seat_state_text st))"
  by (cases st) (simp_all add: SeatState_type_def)

lemma seating_map_typed: "typed SeatingMap_type (seating_map_value m)"
proof -
  have "typed SeatingMapSeat_type (seat_value s)" for s
    by (simp add: SeatingMapSeat_type_def seat_value_def member_def)
  then show ?thesis by (simp add: SeatingMap_type_def seating_map_value_def member_def list_all_iff)
qed

lemma hold_response_typed:
  "declared ''/api/v1/tickets/hold'' \<lparr>an_status = hold_status_code r, an_headers = hs, an_body = JsonBody (hold_response_json r)\<rparr>"
  by (cases r) (simp_all add: declared_def api_contract_def interface_defs member_def)

lemma error_answer_typed: "error_typed (error_answer env hs e)"
  by (cases e) (simp_all add: error_typed_def error_answer_def errorHandler_def error_json_def interface_defs member_def)

text \<open>Headers do not matter.\<close>

lemma declared_headers [simp]: "declared p (a\<lparr>an_headers := hs\<rparr>) = declared p a"
  by (simp add: declared_def split: option.split)

lemma limit_typed:
  "apply_limit cfg now allowed remaining resetAt = Respond r \<Longrightarrow>
    error_typed \<lparr>an_status = res_status r, an_headers = res_headers r, an_body = JsonBody (res_json r)\<rparr>"
  by (auto simp: apply_limit_def Let_def error_typed_def interface_defs member_def split: if_splits)

section \<open>Sound answers\<close>

text \<open>
  What a request may be answered: an error, or what a route of its path declares; \<open>V\<close> stands
  for the type of a seating map.
\<close>

definition replies :: "(json \<Rightarrow> bool) \<Rightarrow> string \<Rightarrow> http_answer \<Rightarrow> bool" where
  "replies V pattern a \<longleftrightarrow>
     (if pattern = ''/api/v1/events/:eventId/seats'' then an_status a = 200 \<and> (\<exists>m. an_body a = JsonBody m \<and> V m)
      else declared pattern a)"

definition answered_by ::
  "(json \<Rightarrow> bool) \<Rightarrow> (string \<Rightarrow> string \<Rightarrow> (string \<Rightarrow> string option) option) \<Rightarrow> ('r, 'd) route list \<Rightarrow> http_request \<Rightarrow> http_answer \<Rightarrow> bool" where
  "answered_by V matches routes request a \<longleftrightarrow>
     (\<exists>(method, pattern, handler) \<in> set routes. matches pattern (req_path request) \<noteq> None \<and> replies V pattern a)"

definition answer_sound :: "(json \<Rightarrow> bool) \<Rightarrow> ('r, 'd) app_setup \<Rightarrow> draws \<Rightarrow> http_request \<Rightarrow> http_answer \<Rightarrow> bool" where
  "answer_sound V A D request a \<longleftrightarrow> error_typed a \<or> answered_by V (st_match A) (app_routes A D) request a"

lemma replies_declared: "replies (typed SeatingMap_type) pattern a \<longleftrightarrow> declared pattern a"
  by (cases "an_body a") (auto simp: replies_def declared_def api_contract_def)

lemma replies_headers [simp]: "replies V p (a\<lparr>an_headers := hs\<rparr>) = replies V p a"
  by (simp add: replies_def)

lemma answered_by_Cons:
  "answered_by V matches ((method, pattern, handler) # routes) request a \<longleftrightarrow>
     matches pattern (req_path request) \<noteq> None \<and> replies V pattern a \<or> answered_by V matches routes request a"
  by (auto simp: answered_by_def)

lemma answered_by_simps [simp]:
  "answered_by V matches routes request (a\<lparr>an_headers := hs\<rparr>) = answered_by V matches routes request a"
  "answered_by V matches routes (request\<lparr>req_body := b\<rparr>) a = answered_by V matches routes request a"
  by (simp_all add: answered_by_def)

definition refusal_typed :: "outcome \<Rightarrow> bool" where
  "refusal_typed out \<longleftrightarrow> (\<forall>r. out = Respond r \<longrightarrow>
     error_typed \<lparr>an_status = res_status r, an_headers = res_headers r, an_body = JsonBody (res_json r)\<rparr>)"

lemma apply_limit_typed: "refusal_typed (apply_limit cfg now allowed remaining resetAt)"
  by (simp add: refusal_typed_def limit_typed)

section \<open>Parties\<close>

text \<open>HTTP requests, order workers, and a shutdown that stops them; only requests are answered.\<close>

datatype party = Client draws http_request | Worker string "nat \<Rightarrow> nat list" "nat \<Rightarrow> nat \<Rightarrow> string" nat | Stop

fun party_proc :: "('r, 'd) app_setup \<Rightarrow> party \<Rightarrow> (('r, 'd) world, http_answer option) proc" where
  "party_proc A (Client D request) = await (handle_request A D request) (\<lambda>a. Ret (Some a))"
| "party_proc A (Worker consumer sched uuid bound) = await (startOrderConsumer (st_svc A) consumer sched uuid bound) (\<lambda>_. Ret None)"
| "party_proc A Stop = await stopOrderConsumer (\<lambda>_. Ret None)"

fun party_answer :: "(json \<Rightarrow> bool) \<Rightarrow> ('r, 'd) app_setup \<Rightarrow> party \<Rightarrow> http_answer option \<Rightarrow> bool" where
  "party_answer V A (Client D request) a = (\<exists>b. a = Some b \<and> answer_sound V A D request b)"
| "party_answer V A (Worker consumer sched uuid bound) a = (a = None)"
| "party_answer V A Stop a = (a = None)"

end
