(* ===== verification/Invariant_Logic.thy ===== *)
theory Invariant_Logic imports Rely_Guarantee begin

text \<open>
  A small logic for a discipline that everybody keeps.  \<open>conforms G I T p\<close> reads as a typing
  judgement: in a world where \<open>I\<close> holds, beside others that only make moves of \<open>G\<close>, every
  action of \<open>p\<close> is a move of \<open>G\<close>, and what \<open>p\<close> returns has the type \<open>T\<close>.  It is an instance
  of \<open>rg\<close>, so it holds in every interleaving; its rules follow the syntax of the functions.
\<close>

definition conforms :: "('w \<Rightarrow> 'w \<Rightarrow> bool) \<Rightarrow> ('w \<Rightarrow> bool) \<Rightarrow> ('a \<Rightarrow> bool) \<Rightarrow> ('w, 'a) proc \<Rightarrow> bool" where
  "conforms G I T p \<longleftrightarrow> rg G G (\<lambda>a w. I w \<and> T a) (\<lambda>_. I) I p"

text \<open>The discipline of one invariant: whoever finds it keeps it.\<close>

definition upholds :: "('w \<Rightarrow> bool) \<Rightarrow> 'w \<Rightarrow> 'w \<Rightarrow> bool" where
  "upholds I w w' \<longleftrightarrow> (I w \<longrightarrow> I w')"

lemma stable_upholds [simp]: "stable (upholds I) I"
  by (auto simp: stable_def upholds_def)

section \<open>Rules\<close>

locale keeping =
  fixes G :: "'w \<Rightarrow> 'w \<Rightarrow> bool" and I :: "'w \<Rightarrow> bool"
  assumes stable: "stable G I"
begin

lemma keep: "I w \<Longrightarrow> G w w' \<Longrightarrow> I w'"
  by (rule stableD [OF stable])

lemma conforms_Ret: "T a \<Longrightarrow> conforms G I T (Ret a)"
  unfolding conforms_def by (rule rg.rg_Ret [OF stable]) simp

lemma conforms_Throw: "conforms G I T (Throw e)"
  unfolding conforms_def by (rule rg.rg_Throw [OF stable])

lemma conforms_return: "conforms G I (\<lambda>_. True) (Ret a)"
  by (rule conforms_Ret) simp

lemma conforms_rethrow: "(\<And>a. r = Inr a \<Longrightarrow> T a) \<Longrightarrow> conforms G I T (rethrow r)"
  by (cases r) (auto simp: rethrow_def intro: conforms_Ret conforms_Throw)

lemma conforms_sync: "(\<And>a. r = Inr a \<Longrightarrow> T a) \<Longrightarrow> conforms G I T (sync r)"
  unfolding sync_def by (rule conforms_rethrow)

lemma conforms_check: "conforms G I (\<lambda>_. True) (sync r)"
  by (rule conforms_sync) simp

lemma conforms_mono: "conforms G I T p \<Longrightarrow> (\<And>a. T a \<Longrightarrow> T' a) \<Longrightarrow> conforms G I T' p"
  unfolding conforms_def by (erule rg_weaken) auto

lemma conforms_any: "conforms G I T p \<Longrightarrow> conforms G I (\<lambda>_. True) p"
  by (erule conforms_mono) simp

lemma conforms_await:
  assumes "conforms G I T1 p" and "\<And>x. T1 x \<Longrightarrow> conforms G I T (k x)"
  shows "conforms G I T (await p k)"
  unfolding conforms_def
proof (rule rg_await [OF assms(1) [unfolded conforms_def]])
  fix x
  show "rg G G (\<lambda>a w. I w \<and> T a) (\<lambda>_. I) (\<lambda>w. I w \<and> T1 x) (k x)"
    by (cases "T1 x") (use assms(2) [of x] in \<open>auto simp: conforms_def intro: rg_False\<close>)
qed

lemma conforms_then:
  "conforms G I (\<lambda>_. True) p \<Longrightarrow> (\<And>x. conforms G I T (k x)) \<Longrightarrow> conforms G I T (await p k)"
  by (rule conforms_await)

lemma conforms_catch:
  "conforms G I T p \<Longrightarrow> (\<And>e. conforms G I T (h e)) \<Longrightarrow> conforms G I T (catch p h)"
  unfolding conforms_def by (rule rg_catch)

lemma conforms_settled:
  assumes "conforms G I T p"
  shows "conforms G I (\<lambda>r. \<forall>a. r = Inr a \<longrightarrow> T a) (settled p)"
  unfolding conforms_def by (rule rg_settled [OF assms [unfolded conforms_def]]) auto

lemma conforms_finally:
  assumes "conforms G I T p" and "conforms G I T1 q"
  shows "conforms G I T (finally_do p q)"
  unfolding finally_do_def
  by (rule conforms_await [OF conforms_settled [OF assms(1)]], rule conforms_await [OF assms(2)], rule conforms_rethrow) simp

lemma conforms_atomic:
  assumes "\<And>w w' x. I w \<Longrightarrow> f w = (w', x) \<Longrightarrow> G w w' \<and> (\<forall>a. x = Inr a \<longrightarrow> T a)"
  shows "conforms G I T (atomic f)"
  unfolding conforms_def
proof (rule rg_atomic)
  show "stable G (\<lambda>w. I w \<and> T a)" for a by (intro stable_conj stable) simp
qed (use assms keep stable in blast)+

lemma conforms_reads: "(\<And>w. I w \<Longrightarrow> G w w \<and> T (f w)) \<Longrightarrow> conforms G I T (reads f)"
  unfolding conforms_def
proof (rule rg_reads)
  show "stable G (\<lambda>w. I w \<and> T a)" for a by (intro stable_conj stable) simp
qed (use stable in auto)

lemma conforms_modifies: "(\<And>w. I w \<Longrightarrow> G w (f w)) \<Longrightarrow> conforms G I (\<lambda>_. True) (modifies f)"
  unfolding conforms_def by (rule rg_modifies) (use stable keep in auto)

text \<open>A judgement of \<open>rg\<close> for the same moves is enough.\<close>

lemma rg_conforms:
  assumes "rg G G (\<lambda>_ _. True) (\<lambda>_ _. True) A p" and "\<And>w. I w \<Longrightarrow> A w"
  shows "conforms G I (\<lambda>_. True) p"
proof -
  have "rg G G (\<lambda>_ _. True) (\<lambda>_ _. True) I p" by (rule rg_conseq [OF assms(1) stable assms(2)])
  from rg_frame [OF this stable] show ?thesis by (simp add: conforms_def)
qed

lemma moves_conforms: "moves G p \<Longrightarrow> conforms G I (\<lambda>_. True) p"
  by (rule rg_conforms [OF rg_weaken [OF moves_rg [OF _ stable]]]) auto

lemma conforms_par:
  assumes "\<And>p. p \<in> set ps \<Longrightarrow> conforms G I (\<lambda>_. True) p"
  shows "conforms G I (\<lambda>_. True) (par sched ps)"
proof (rule rg_conforms)
  have "rg G G (\<lambda>_ _. True) (\<lambda>_ _. True) I (ps ! i)" if "i < length ps" for i
    using assms [of "ps ! i"] that unfolding conforms_def by (auto intro: rg_weaken)
  then show "rg G G (\<lambda>_ _. True) (\<lambda>_ _. True) (\<lambda>w. \<forall>i < length ps. I w) (par sched ps)"
    by (intro rg_par_moves) auto
qed simp

lemma conforms_allSettled:
  "(\<And>p. p \<in> set ps \<Longrightarrow> conforms G I (\<lambda>_. True) p) \<Longrightarrow> conforms G I (\<lambda>_. True) (Promise_allSettled sched ps)"
  unfolding Promise_allSettled_def by (rule conforms_par)

lemma conforms_all:
  "(\<And>p. p \<in> set ps \<Longrightarrow> conforms G I (\<lambda>_. True) p) \<Longrightarrow> conforms G I (\<lambda>_. True) (Promise_all sched ps)"
  unfolding Promise_all_def
  by (rule conforms_then [OF conforms_par]) (auto split: option.split sum.split intro: conforms_Throw conforms_return)

end

text \<open>What others may do, they may do where more is allowed.\<close>

lemma pool_step_mono:
  assumes "pool_step env c c'" and "\<And>w w'. env w w' \<Longrightarrow> env' w w'"
  shows "pool_step env' c c'"
  using assms(1) by cases (auto intro: pool_run pool_env assms(2))

lemma pool_steps_mono:
  assumes "pool_steps env c c'" and "\<And>w w'. env w w' \<Longrightarrow> env' w w'"
  shows "pool_steps env' c c'"
  unfolding pool_steps_def
proof (rule mono_rtranclp [rule_format])
  show "pool_step env' a b" if "pool_step env a b" for a b
    using that assms(2) by (rule pool_step_mono)
  show "(pool_step env)\<^sup>*\<^sup>* c c'" using assms(1) by (simp add: pool_steps_def)
qed

text \<open>The functions of a pool rely on each other's discipline.\<close>

interpretation disciplined: compatible "\<lambda>_. G" "\<lambda>_. G" G for G
  by unfold_locales

interpretation upholding: keeping "upholds I" I for I
  by unfold_locales simp

context keeping begin

lemma conforms_holding:
  "I w \<Longrightarrow> (\<And>i. i < length ps \<Longrightarrow> conforms G I (T i) (ps ! i)) \<Longrightarrow>
    disciplined.holding G (\<lambda>i a w. I w \<and> T i a) (\<lambda>_ _. I) (w, ps)"
  unfolding disciplined.holding_def by (auto simp: conforms_def)

text \<open>
  Preservation and soundness: from a state of \<open>I\<close>, any interleaving stays in it, is a chain
  of moves, and what has been returned has its type.
\<close>

lemma conforms_pool:
  assumes "pool_steps G (w, ps) (w', ps')" and "I w" and "\<And>i. i < length ps \<Longrightarrow> conforms G I (T i) (ps ! i)"
  shows "I w'" and "i < length ps \<Longrightarrow> ps' ! i = Ret a \<Longrightarrow> T i a" and "G\<^sup>*\<^sup>* w w'"
proof -
  note h = conforms_holding [OF assms(2,3)]
  show "T i a" if "i < length ps" "ps' ! i = Ret a"
    using disciplined.finished_returned [OF assms(1) h that] by simp
  have "G\<^sup>*\<^sup>* w (fst (w', ps'))"
    by (rule disciplined.steps_invariant [OF assms(1) h, where I = "G\<^sup>*\<^sup>* w"]) (auto intro: rtranclp.rtrancl_into_rtrancl)
  then show g: "G\<^sup>*\<^sup>* w w'" by simp
  from g assms(2) show "I w'" by (induction rule: rtranclp_induct) (auto intro: keep)
qed

text \<open>Every single step of the pool is a move.\<close>

lemma conforms_step:
  assumes "pool_steps G (w, ps) c" and "pool_step G c c'" and "I w" and "\<And>i. i < length ps \<Longrightarrow> conforms G I (T i) (ps ! i)"
  shows "G (fst c) (fst c')"
proof -
  have "disciplined.holding G (\<lambda>i a w. I w \<and> T i a) (\<lambda>_ _. I) c"
    using disciplined.holding_steps [OF assms(1) conforms_holding [OF assms(3,4)]] by blast
  from disciplined.holding_step [OF assms(2) this] show ?thesis by blast
qed

lemma conforms_run:
  assumes "conforms G I T p" and "I w" and "run p w = (w', x)"
  shows "I w'" and "x = Inr a \<Longrightarrow> T a"
proof -
  have s: "pool_steps G (w, [p]) (w', [p][0 := rethrow x])"
    by (rule pool_steps_settle [OF assms(3)]) simp_all
  have c: "\<And>i. i < length [p] \<Longrightarrow> conforms G I T ([p] ! i)" using assms(1) by simp
  show "I w'" by (rule conforms_pool(1) [OF s assms(2) c])
  show "x = Inr a \<Longrightarrow> T a"
    using conforms_pool(2) [OF s assms(2) c, of 0 a] by (simp add: rethrow_def)
qed

end

end
