(* ===== verification/Engine_Logic.thy ===== *)
theory Engine_Logic imports Api_Types Invariant_Logic begin

text \<open>
  What every function of the engine does, in terms of the commands it sends.  The interface
  \<open>discipline\<close> lists the commands and asks that each of them keeps a given discipline; the
  lemmas carry it from there through services, handlers, limiter and routes to the requests and
  workers of a whole running engine.  \<open>Store_Typing\<close> and \<open>Engine_Safety\<close> provide it, for the
  typing of the store and for the safety of the orders.
\<close>

section \<open>The interface\<close>

text \<open>\<open>V\<close> is what is known of a cached seating map.\<close>

locale discipline = keeping guarantee I
  for guarantee :: "('r, 'd) world \<Rightarrow> ('r, 'd) world \<Rightarrow> bool" and I :: "('r, 'd) world \<Rightarrow> bool" +
  fixes svc :: "('r, 'd) services" and G :: "('r, 'd) geo_services" and B :: "('r, 'd) bench_services" and V :: "json \<Rightarrow> bool"
  assumes idle: "I w \<Longrightarrow> guarantee w w"
    and tick: "I w \<Longrightarrow> guarantee w (w\<lparr>w_clock := c\<rparr>)"
    and acquire: "conforms guarantee I (\<lambda>_. True) (acquireSeatHold svc u ev sid user ttl)"
    and release: "conforms guarantee I (\<lambda>_. True) (releaseSeatHold svc ev sid user u)"
    and free_seat: "conforms guarantee I (\<lambda>_. True) (redis_do (c_del (redis svc) (seatLockKey ev sid)))"
    and reopen: "conforms guarantee I (\<lambda>_. True) (db_do (pc_seat_updateMany (prisma svc) sid ev HELD AVAILABLE))"
    and broadcast: "conforms guarantee I (\<lambda>_. True) (publishSeatEvent svc event)"
    and place: "conforms guarantee I (\<lambda>_. True) (place_order svc uuid rq ex)"
    and read_map: "conforms guarantee I (\<lambda>found. \<forall>m. found = Some m \<longrightarrow> V m) (readCachedMap svc (seatingMapCacheKey ev))"
    and write_map: "conforms guarantee I (\<lambda>_. True)
      (redis_do (c_set_ex (redis svc) (seatingMapCacheKey ev) (stringify (seating_map_value sm)) CACHE_TTL_SECONDS))"
    and clear_map: "conforms guarantee I (\<lambda>_. True) (redis_do (c_del (redis svc) (seatingMapCacheKey ev)))"
    and map_value: "V (seating_map_value sm)"
    and lock_map: "conforms guarantee I (\<lambda>_. True) (acquireMutex svc u (lockKey ev))"
    and unlock_map: "conforms guarantee I (\<lambda>_. True) (releaseMutex svc (lockKey ev) u)"
    and limit: "conforms guarantee I (\<lambda>_. True) (await (getLuaScriptDigest slidingWindow) (\<lambda>digest.
      redis_do (c_evalsha (redis svc) digest [''rate-limit'' @ CHR '':'' # client] [arg1, arg2, arg3, arg4, arg5])))"
    and search: "conforms guarantee I (\<lambda>_. True) (redis_do (geo_search G k lng lat radius n))"
    and backlog: "conforms guarantee I (\<lambda>_. True) (redis_do (xpending B k' g))"
    and group: "conforms guarantee I (\<lambda>_. True) (initializeOrderConsumerGroup svc)"
    and drain: "conforms guarantee I (\<lambda>_. True) (processAvailableOrderMessages svc consumer sched uuid)"
    and consume: "conforms guarantee I (\<lambda>_. True) (startOrderConsumer svc consumer scheds uuids bound)"
    and stop: "conforms guarantee I (\<lambda>_. True) stopOrderConsumer"
begin

abbreviation fits :: "('a \<Rightarrow> bool) \<Rightarrow> (('r, 'd) world, 'a) proc \<Rightarrow> bool" where
  "fits \<equiv> conforms guarantee I"

lemma fits_clock: "fits (\<lambda>_. True) Date_now" "fits (\<lambda>_. True) (sleep n)"
  by (auto simp: Date_now_def sleep_def intro!: conforms_reads conforms_then conforms_modifies idle tick)

lemma fits_read: "fits (\<lambda>_. True) (db_read q)"
  unfolding db_read_def by (rule conforms_atomic) (use idle in auto)

section \<open>Tickets\<close>

lemma fits_open_seat: "fits (\<lambda>_. True) (open_seat svc rq)"
  unfolding open_seat_def
  by (rule conforms_then [OF fits_read]) (auto intro: conforms_return conforms_Throw split: option.split list.split)

lemma fits_holdSeat: "fits (\<lambda>_. True) (holdSeat svc uuid payload)"
proof -
  have "fits (\<lambda>_. True) (answer_hold svc u rq ex)" for u rq ex
    by (auto simp: answer_hold_def Let_def intro!: conforms_return conforms_then [OF fits_clock(1)] conforms_then [OF broadcast])
  then show ?thesis
    unfolding holdSeat_def by (intro conforms_then [OF conforms_check] conforms_then [OF fits_open_seat] conforms_then [OF acquire])
qed

lemma fits_createOrder: "fits (\<lambda>_. True) (createOrder svc uuid payload)"
  unfolding createOrder_def
  by (intro conforms_then [OF conforms_check] conforms_then [OF fits_open_seat] conforms_then [OF acquire])
     (simp add: conforms_Throw place)

lemma fits_releaseSeat: "fits (\<lambda>_. True) (releaseSeat svc uuid payload)"
proof -
  have "fits (\<lambda>_. True)
     (await (releaseSeatHold svc ev sid user h) (\<lambda>released.
        if \<not> released then Throw e
        else await (db_do (pc_seat_updateMany (prisma svc) sid ev HELD AVAILABLE)) (\<lambda>_.
             await Date_now (\<lambda>now. await (publishSeatEvent svc (event now)) (\<lambda>_. Ret a)))))" for ev sid user h e a event
    by (rule conforms_then [OF release])
       (auto intro!: conforms_return conforms_Throw conforms_then [OF reopen] conforms_then [OF fits_clock(1)] conforms_then [OF broadcast])
  then show ?thesis
    unfolding releaseSeat_def
    by (intro conforms_then [OF conforms_check]) (auto intro!: conforms_Throw conforms_then [OF fits_read])
qed

section \<open>Seating maps\<close>

lemma fits_answer_map: "V m \<Longrightarrow> fits (\<lambda>res. V (smr_map res)) (answer_map t how m h a wt l)"
  unfolding answer_map_def by (rule conforms_then [OF fits_clock(1) conforms_Ret]) simp

lemma fits_load: "fits (\<lambda>_. True) (loadFromDatabase svc ev)"
  unfolding loadFromDatabase_def
  by (rule conforms_then [OF fits_read]) (auto intro: conforms_return conforms_Throw split: option.split prod.split)

lemma fits_rehydrate: "fits (\<lambda>res. V (smr_map res)) (rehydrate svc t ev)"
  unfolding rehydrate_def
  by (intro conforms_await [OF read_map])
     (auto intro!: fits_answer_map map_value conforms_then [OF fits_load] conforms_then [OF write_map] split: option.split)

lemma fits_wait: "fits (\<lambda>res. V (smr_map res)) (wait_for_map svc t ev n)"
proof (induction n)
  case (Suc n)
  then show ?case
    by (auto intro!: conforms_then [OF fits_clock(2)] conforms_await [OF read_map] fits_answer_map split: option.split)
qed (simp add: conforms_Throw)

lemma fits_seating_map: "fits (\<lambda>res. V (smr_map res)) (getSeatingMapForMode svc u ev useRedis)"
proof -
  have "fits (\<lambda>res. V (smr_map res)) (getSeatingMapWithMetrics svc u ev)"
    unfolding getSeatingMapWithMetrics_def
    by (intro conforms_then [OF fits_clock(1)] conforms_await [OF read_map])
       (auto intro!: fits_answer_map conforms_then [OF lock_map] fits_wait conforms_finally [OF fits_rehydrate unlock_map] split: option.split)
  then show ?thesis
    by (auto simp: getSeatingMapForMode_def getSeatingMapDirect_def
        intro!: map_value conforms_then [OF fits_clock(1)] conforms_then [OF fits_load] fits_answer_map)
qed

section \<open>Search and benchmarks\<close>

lemma fits_search: "fits (\<lambda>_. True) (searchNearbyEvents G query)"
  unfolding searchNearbyEvents_def Let_def
  by (intro conforms_then [OF conforms_check] conforms_then [OF search])
     (auto intro!: conforms_return conforms_then [OF fits_clock(1)] conforms_then [OF fits_read])

lemma fits_map_benchmark: "fits (\<lambda>_. True) (runSeatingMapBenchmark svc sched uuid request)"
proof -
  have "fits (\<lambda>_. True) (Promise_allSettled sched
      (map (\<lambda>i. getSeatingMapForMode svc (uuid i) ev useRedis) [0..<n]))" for ev useRedis n
    by (rule conforms_allSettled) (auto intro: conforms_any [OF fits_seating_map])
  moreover have "fits (\<lambda>_. True) (if b then clearSeatingMapCache svc ev else Ret ())" for b ev
    by (auto simp: clearSeatingMapCache_def intro!: conforms_return conforms_then [OF clear_map])
  ultimately show ?thesis
    unfolding runSeatingMapBenchmark_def by (intro conforms_then fits_clock(1) conforms_return)
qed

lemma fits_hold_benchmark: "fits (\<lambda>_. True) (runSeatHoldBenchmark svc sched uuid request)"
proof -
  have "fits (\<lambda>_. True) (Promise_all sched (map (\<lambda>i. acquireSeatHold svc (uuid i) ev sid (diagnostic_user i) ttl) [0..<n]))"
    for ev sid ttl n
    by (rule conforms_all) (auto intro: acquire)
  then show ?thesis
    unfolding runSeatHoldBenchmark_def getSeatLockKey_def
    by (intro conforms_then free_seat fits_clock(1) conforms_return)
qed

lemma fits_drain: "fits (\<lambda>_. True) (drain_orders svc consumer sched uuid n processed wanted)"
proof (induction n arbitrary: processed)
  case (Suc n)
  have "fits (\<lambda>_. True) (if b then sleep 10 else Ret ())" for b
    by (simp add: fits_clock conforms_return)
  with Suc show ?case
    by (auto intro!: conforms_return conforms_then [OF drain] conforms_then [where p = "if _ then _ else _"])
qed (simp add: conforms_return)

lemma fits_order_benchmark: "fits (\<lambda>_. True) (runOrderStreamBenchmark svc B consumer sched uuid scheds uuids request)"
proof -
  have orders: "fits (\<lambda>_. True) (Promise_allSettled sched
      (map (\<lambda>i. createOrder svc (uuid i) (benchmark_order request i)) [0..<n]))" for n
    by (rule conforms_allSettled) (auto intro: fits_createOrder)
  have "fits (\<lambda>_. True) (if b then Ret 0 else db_read c)" for b and c :: "'d \<Rightarrow> exn + nat"
    by (simp add: fits_read conforms_return)
  then show ?thesis
    unfolding runOrderStreamBenchmark_def Let_def
    by (intro conforms_then group fits_clock(1) orders fits_drain backlog conforms_return)
qed

section \<open>Requests\<close>

lemma fits_limiter:
  assumes "keyPrefix options = None"
  shows "fits refusal_typed (rateLimiter svc disable u options request)"
proof -
  let ?cfg = "configuration options"
  obtain client where key: "client_key ?cfg request = ''rate-limit'' @ CHR '':'' # client"
    using assms by (auto simp: client_key_def configuration_def Let_def)
  have run: "fits refusal_typed (await (getLuaScriptDigest slidingWindow) (\<lambda>digest.
     await (redis_do (c_evalsha (redis svc) digest [client_key ?cfg request] [a, b, c, m, d])) (\<lambda>result.
       case result of
         RArr (allowed # remaining # resetAt # _) \<Rightarrow> Ret (apply_limit ?cfg now allowed remaining resetAt)
       | _ \<Rightarrow> Throw (JsError ''TypeError''))))" for a b c m d now
    unfolding key await_assoc [symmetric]
    by (rule conforms_then [OF limit]) (auto split: reply.split list.split intro!: conforms_Ret conforms_Throw apply_limit_typed)
  show ?thesis
    unfolding rateLimiter_def Let_def
    by (auto simp: refusal_typed_def [of "Next []"] intro!: conforms_Ret conforms_then [OF fits_clock(1)] run)
qed

text \<open>The handlers, each with the contract of its route.\<close>

lemma fits_ticket_handlers:
  "fits (replies V ''/api/v1/tickets/hold'') (holdSeatHandler svc Z uuid request)"
  "fits (replies V ''/api/v1/tickets/orders'') (createOrderHandler svc Z uuid request)"
  "fits (replies V ''/api/v1/tickets/release'') (releaseSeatHandler svc Z uuid request)"
  unfolding holdSeatHandler_def createOrderHandler_def releaseSeatHandler_def answer_def
  by (auto simp: replies_def split: sum.split intro!: conforms_Ret conforms_Throw hold_response_typed
      conforms_then [OF fits_holdSeat] conforms_then [OF fits_createOrder] conforms_then [OF fits_releaseSeat])
     (simp_all add: declared_def api_contract_def interface_defs member_def)

lemma fits_event_handlers:
  "fits (replies V ''/api/v1/events/:eventId/seats'') (getEventSeatingMap svc env u request)"
  "fits (replies V ''/api/v1/events/search/geo'') (searchEventsByGeo G Z request)"
  unfolding getEventSeatingMap_def searchEventsByGeo_def answer_def Let_def
  by (auto simp: replies_def split: sum.split intro!: conforms_Ret conforms_Throw conforms_await [OF fits_seating_map] conforms_then [OF fits_search])
     (simp_all add: declared_def api_contract_def)

lemma fits_benchmark_handlers:
  "fits (replies V ''/api/v1/diagnostics/seating-map/benchmark'') (benchmarkSeatingMap svc env sched uuid request)"
  "fits (replies V ''/api/v1/diagnostics/seat-hold/benchmark'') (benchmarkSeatHold svc env sched uuid request)"
  "fits (replies V ''/api/v1/diagnostics/order-stream/benchmark'')
     (benchmarkOrderStream svc B env consumer sched uuids scheds uuidss request)"
  unfolding benchmarkSeatingMap_def benchmarkSeatHold_def benchmarkOrderStream_def benchmark_handler_def answer_def
  by (auto simp: replies_def split: option.split intro!: conforms_Ret conforms_Throw conforms_then [OF fits_map_benchmark]
      conforms_then [OF fits_hold_benchmark] conforms_then [OF fits_order_benchmark])
     (simp_all add: declared_def api_contract_def)

lemma fits_plain_handlers:
  "fits (replies V ''/'') (root_handler request)" "fits (replies V ''/health'') (health_handler A request)"
  "fits (replies V ''/api/v1/rate-limit-test'') (limit_test_handler request)"
  unfolding root_handler_def health_handler_def limit_test_handler_def answer_def
  by (auto simp: replies_def intro!: conforms_Ret conforms_then [OF fits_clock(1)]) (simp_all add: declared_def api_contract_def member_def)

lemma fits_routes:
  assumes "st_svc A = svc" and "st_geo A = G" and "st_bench A = B" and "(verb, pattern, handler) \<in> set (app_routes A D)"
  shows "fits (replies V pattern) (handler request)"
  using assms(4) fits_ticket_handlers fits_event_handlers fits_benchmark_handlers fits_plain_handlers
  by (auto simp: app_routes_def apiRouter_def mount_def ticketRouter_def eventRouter_def diagnosticsRouter_def assms(1-3))

lemma fits_dispatch:
  assumes "\<And>verb pattern handler request'. (verb, pattern, handler) \<in> set routes \<Longrightarrow> fits (replies V pattern) (handler request')"
  shows "fits (answered_by V matches routes request) (dispatch matches routes request)"
  using assms
proof (induction matches routes request rule: dispatch.induct)
  case (1 matches request)
  show ?case by (simp add: conforms_Throw)
next
  case (2 matches verb pattern handler routes request)
  have later: "fits (answered_by V matches ((verb, pattern, handler) # routes) request) (dispatch matches routes request)"
    if "fits (answered_by V matches routes request) (dispatch matches routes request)"
    by (rule conforms_mono [OF that]) (simp add: answered_by_Cons)
  have tail: "fits (replies V p) (h request')" if "(m, p, h) \<in> set routes" for m p h request'
    by (rule 2(3) [of m p h]) (use that in simp)
  have here: "fits (answered_by V matches ((verb, pattern, handler) # routes) request) (handler request')"
    if "matches pattern (req_path request) = Some params" for request' params
  proof (rule conforms_mono)
    show "fits (replies V pattern) (handler request')" by (rule 2(3) [of verb]) simp
  qed (simp add: answered_by_Cons that)
  show ?case
  proof (cases "matches pattern (req_path request)")
    case None
    have "fits (answered_by V matches routes request) (dispatch matches routes request)"
      by (rule 2(1) [OF None]) (rule tail)
    with None later show ?thesis by simp
  next
    case (Some params)
    show ?thesis
    proof (cases "req_method request = verb \<or> req_method request = ''HEAD'' \<and> verb = ''GET''")
      case True
      with Some here [OF Some] show ?thesis by simp
    next
      case False
      have "fits (answered_by V matches routes request) (dispatch matches routes request)"
        by (rule 2(2) [OF Some False]) (rule tail)
      with Some False later show ?thesis by auto
    qed
  qed
qed

lemma fits_request:
  assumes "st_svc A = svc" and "st_geo A = G" and "st_bench A = B"
  shows "fits (answer_sound V A D request) (handle_request A D request)"
proof (cases "st_body A request")
  case (Inl e)
  then show ?thesis by (simp add: handle_request_def conforms_Ret answer_sound_def error_answer_typed)
next
  case (Inr body)
  let ?request = "request\<lparr>req_body := body\<rparr>"
  have routes: "fits (answered_by V (st_match A) (app_routes A D) ?request) (dispatch (st_match A) (app_routes A D) ?request)"
    by (rule fits_dispatch) (rule fits_routes [OF assms])
  have rest: "fits (answer_sound V A D request)
     (await (settled (dispatch (st_match A) (app_routes A D) ?request)) (\<lambda>outcome.
        case outcome of Inl error \<Rightarrow> Ret (error_answer (st_env A) hs error)
        | Inr result \<Rightarrow> Ret (result\<lparr>an_headers := hs @ an_headers result\<rparr>)))" for hs
    by (rule conforms_await [OF conforms_settled [OF routes]])
       (auto split: sum.split intro!: conforms_Ret simp: answer_sound_def error_answer_typed)
  have "keyPrefix (limiter_options A) = None" by (simp add: limiter_options_def)
  from conforms_settled [OF fits_limiter [OF this]] show ?thesis
    unfolding handle_request_def Inr sum.case Let_def assms(1)
    by (rule conforms_await)
       (auto split: sum.split outcome.split intro!: conforms_Ret rest simp: answer_sound_def error_answer_typed refusal_typed_def)
qed

lemma fits_party:
  assumes "st_svc A = svc" and "st_geo A = G" and "st_bench A = B"
  shows "fits (party_answer V A p) (party_proc A p)"
proof (cases p)
  case (Client D request)
  show ?thesis unfolding Client party_proc.simps
    by (rule conforms_await [OF fits_request [OF assms]]) (simp add: conforms_Ret)
next
  case (Worker consumer sched uuid bound)
  show ?thesis unfolding Worker party_proc.simps assms(1)
    by (rule conforms_then [OF consume]) (simp add: conforms_Ret)
next
  case Stop
  show ?thesis unfolding Stop party_proc.simps
    by (rule conforms_then [OF stop]) (simp add: conforms_Ret)
qed

text \<open>Any number of requests and workers, interleaved.\<close>

lemma parties_fit:
  assumes "st_svc A = svc" and "st_geo A = G" and "st_bench A = B" and "i < length (map (party_proc A) parties)"
  shows "fits (party_answer V A (parties ! i)) (map (party_proc A) parties ! i)"
  using fits_party [OF assms(1-3)] assms(4) by simp

lemma engine_pool:
  assumes "st_svc A = svc" and "st_geo A = G" and "st_bench A = B" and "I w"
    and "pool_steps guarantee (w, map (party_proc A) parties) (w', ps')"
  shows "I w'" and "guarantee\<^sup>*\<^sup>* w w'" and "i < length parties \<Longrightarrow> ps' ! i = Ret a \<Longrightarrow> party_answer V A (parties ! i) a"
proof -
  note c = parties_fit [OF assms(1-3)]
  show "I w'" by (rule conforms_pool(1) [OF assms(5,4) c])
  show "guarantee\<^sup>*\<^sup>* w w'" by (rule conforms_pool(3) [OF assms(5,4) c])
  show "party_answer V A (parties ! i) a" if "i < length parties" "ps' ! i = Ret a"
    by (rule conforms_pool(2) [OF assms(5,4) c]) (use that in simp_all)
qed

lemma engine_step:
  assumes "st_svc A = svc" and "st_geo A = G" and "st_bench A = B" and "I w"
    and "pool_steps guarantee (w, map (party_proc A) parties) c" and "pool_step guarantee c c'"
  shows "guarantee (fst c) (fst c')"
  by (rule conforms_step [OF assms(5,6,4) parties_fit [OF assms(1-3)]])

end

end
