(* ===== verification/Store_Typing.thy ===== *)
theory Store_Typing imports Engine_Logic begin

text \<open>
  A typing of the Redis store, in the manner of a heap typing: what may be found under a key
  depends on the key.  Under a seat key there is a hold record, under the key of a seating map
  the text of a \<open>SeatingMap\<close>, in the order stream only messages the worker can read.  The
  contract of the engine is extended by the commands of the remaining components (sorted sets,
  geo index, summary of pending messages), and every command the engine sends keeps the typing.
\<close>

section \<open>The contract of the whole API\<close>

definition same_redis ::
  "'r redis_server \<Rightarrow> (string \<Rightarrow> 'r \<Rightarrow> nat option) \<Rightarrow> ('r \<Rightarrow> stream_entry list) \<Rightarrow> ('r \<Rightarrow> string list option) \<Rightarrow>
   ('r \<Rightarrow> string set) \<Rightarrow> string set \<Rightarrow> 'r \<Rightarrow> 'r \<Rightarrow> bool" where
  "same_redis S pttl entries undelivered pending ks r r' \<longleftrightarrow>
     (\<forall>k. k \<notin> ks \<longrightarrow> GET S k r' = GET S k r \<and> pttl k r' = pttl k r) \<and>
     entries r' = entries r \<and> undelivered r' = undelivered r \<and> pending r' = pending r"

text \<open>A command on one key leaves the others alone; queries leave everything alone.\<close>

locale redis_api = redis_streams S pttl elapse svc sha1 entries undelivered pending
  for S :: "'r redis_server" and pttl and elapse and svc :: "('r, 'd) services" and sha1
    and entries and undelivered and pending +
  fixes G :: "('r, 'd) geo_services" and B :: "('r, 'd) bench_services"
  assumes set_px_nx_streams: "k \<noteq> ORDER_STREAM_KEY \<Longrightarrow> SET_PX_NX S k v t r = (r', ok) \<Longrightarrow>
      entries r' = entries r \<and> undelivered r' = undelivered r \<and> pending r' = pending r"
    and zremrange_apart: "k \<noteq> ORDER_STREAM_KEY \<Longrightarrow>
      same_redis S pttl entries undelivered pending {k} r (ZREMRANGEBYSCORE S k lo hi r)"
    and zadd_apart: "k \<noteq> ORDER_STREAM_KEY \<Longrightarrow> same_redis S pttl entries undelivered pending {k} r (ZADD S k s m r)"
    and expire_apart: "k \<noteq> ORDER_STREAM_KEY \<Longrightarrow> same_redis S pttl entries undelivered pending {k} r (EXPIRE S k t r)"
    and geo_search_remote: "geo_search G k lng lat radius n r = (r', found) \<Longrightarrow>
      same_redis S pttl entries undelivered pending {} r r'"
    and xpending_remote: "xpending B k g r = (r', summary) \<Longrightarrow> same_redis S pttl entries undelivered pending {} r r'"

lemma same_redis_trans:
  "same_redis S pttl entries undelivered pending ks r r1 \<Longrightarrow> same_redis S pttl entries undelivered pending ks r1 r2 \<Longrightarrow>
    same_redis S pttl entries undelivered pending ks r r2"
  by (simp add: same_redis_def)

lemma same_redis_refl [simp]: "same_redis S pttl entries undelivered pending ks r r"
  by (simp add: same_redis_def)

section \<open>The typing\<close>

definition value_typed :: "'r redis_server \<Rightarrow> string \<Rightarrow> string \<Rightarrow> bool" where
  "value_typed S k v \<longleftrightarrow>
     (\<forall>ev sid. k = seatLockKey ev sid \<longrightarrow> (\<exists>u h. hold_value S v u h)) \<and>
     (\<forall>ev. k = seatingMapCacheKey ev \<longrightarrow> (\<exists>m. JSON_parse v = Inr m \<and> typed SeatingMap_type m))"

definition readable :: "RedisStreamMessage \<Rightarrow> bool" where
  "readable message \<longleftrightarrow> supported message \<and> isInr (parsePayload message)"

definition entry_typed :: "stream_entry \<Rightarrow> bool" where
  "entry_typed e \<longleftrightarrow> readable (toMessage (flat_entry e))"

definition store_typed :: "'r redis_server \<Rightarrow> ('r \<Rightarrow> stream_entry list) \<Rightarrow> 'r \<Rightarrow> bool" where
  "store_typed S entries r \<longleftrightarrow>
     (\<forall>k v. GET S k r = Some v \<longrightarrow> value_typed S k v) \<and> (\<forall>e \<in> set (entries r). entry_typed e)"

definition world_typed ::
  "'r redis_server \<Rightarrow> ('r, 'd) services \<Rightarrow> (string \<Rightarrow> string) \<Rightarrow> ('r \<Rightarrow> stream_entry list) \<Rightarrow> ('r, 'd) world \<Rightarrow> bool" where
  "world_typed S svc sha1 entries w \<longleftrightarrow> registered svc sha1 w \<and> store_typed S entries (w_redis w)"

lemma world_typed_redis: "world_typed S svc sha1 entries w \<Longrightarrow>
    world_typed S svc sha1 entries (w\<lparr>w_redis := r\<rparr>) = store_typed S entries r"
  by (simp add: world_typed_def)

lemma world_typed_other [simp]:
  "world_typed S svc sha1 entries (w\<lparr>w_db := d\<rparr>) = world_typed S svc sha1 entries w"
  "world_typed S svc sha1 entries (w\<lparr>w_clock := c\<rparr>) = world_typed S svc sha1 entries w"
  "world_typed S svc sha1 entries (w\<lparr>w_sent := m\<rparr>) = world_typed S svc sha1 entries w"
  "world_typed S svc sha1 entries (w\<lparr>w_consumer_running := b\<rparr>) = world_typed S svc sha1 entries w"
  by (simp_all add: world_typed_def registered_def)

text \<open>A typed store meets the hypothesis on seat keys that the properties of the services have.\<close>

lemma world_typed_seat_keys: "world_typed S svc sha1 entries w \<Longrightarrow> seat_keys_ok S w"
  unfolding world_typed_def store_typed_def value_typed_def seat_keys_ok_def well_held_def hold_value_def by blast

text \<open>Only two families of keys are constrained.\<close>

lemma other_keys_typed:
  "value_typed S (lockKey ev) v"
  "value_typed S (''rate-limit'' @ CHR '':'' # s) v"
  by (simp_all add: value_typed_def lockKey_def seatLockKey_def seatingMapCacheKey_def)

lemma hold_typed: "hold_value S v u h \<Longrightarrow> value_typed S (seatLockKey ev sid) v"
  by (auto simp: value_typed_def seatLockKey_def seatingMapCacheKey_def)

lemma map_text_typed: "value_typed S (seatingMapCacheKey ev) (stringify (seating_map_value m))"
  by (auto simp: value_typed_def seatLockKey_def seatingMapCacheKey_def seating_map_typed simp del: stringify.simps)

lemma keys_not_stream [simp]:
  "lockKey ev \<noteq> ORDER_STREAM_KEY" "seatingMapCacheKey ev \<noteq> ORDER_STREAM_KEY" "seatLockKey ev sid \<noteq> ORDER_STREAM_KEY"
  "''rate-limit'' @ CHR '':'' # s \<noteq> ORDER_STREAM_KEY"
  by (simp_all add: lockKey_def seatingMapCacheKey_def seatLockKey_def ORDER_STREAM_KEY_def)

lemma order_entry_typed: "entry_typed (i, order_fields a now p)"
  by (simp add: entry_typed_def readable_def order_message_supported order_message_parses)

section \<open>Every command keeps it\<close>

lemma store_typed_same:
  assumes "store_typed S entries r" and "same_redis S pttl entries undelivered pending ks r r'"
    and "\<And>k v. k \<in> ks \<Longrightarrow> value_typed S k v"
  shows "store_typed S entries r'"
  unfolding store_typed_def
proof (intro conjI allI impI)
  fix k v
  assume "GET S k r' = Some v"
  with assms show "value_typed S k v" by (cases "k \<in> ks") (auto simp: store_typed_def same_redis_def)
qed (use assms in \<open>simp add: store_typed_def same_redis_def\<close>)

context redis_api begin

abbreviation ok :: "('r, 'd) world \<Rightarrow> bool" where
  "ok \<equiv> world_typed S svc sha1 entries"

abbreviation fits :: "('a \<Rightarrow> bool) \<Rightarrow> (('r, 'd) world, 'a) proc \<Rightarrow> bool" where
  "fits \<equiv> conforms (upholds ok) ok"

lemma typed_SET_EX:
  assumes "store_typed S entries r" and "0 < t" and "k \<noteq> ORDER_STREAM_KEY" and "value_typed S k v"
  shows "store_typed S entries (SET_EX S k v t r)"
  using assms set_ex_streams [OF assms(3), of v t r] get_set_ex [OF assms(2), of _ k v r]
  by (auto simp: store_typed_def split: if_splits)

lemma typed_SET_PX_NX:
  assumes "store_typed S entries r" and "0 < t" and "k \<noteq> ORDER_STREAM_KEY" and "value_typed S k v"
  shows "store_typed S entries (fst (SET_PX_NX S k v t r))"
proof -
  obtain r' b where s: "SET_PX_NX S k v t r = (r', b)" by force
  from set_px_nx [OF assms(2) s] set_px_nx_streams [OF assms(3) s] assms(1,4) s show ?thesis
    by (auto simp: store_typed_def split: if_splits)
qed

lemma typed_DEL:
  assumes "store_typed S entries r" and "k \<noteq> ORDER_STREAM_KEY"
  shows "store_typed S entries (fst (DEL S k r))"
proof -
  obtain r' n where d: "DEL S k r = (r', n)" by force
  have "GET S k' r' = Some v \<Longrightarrow> GET S k' r = Some v" for k' v
    using del [OF _ d] del_missing [OF _ d] by (cases "GET S k r") (auto split: if_splits)
  with del_streams [OF assms(2) d] assms(1) d show ?thesis by (auto simp: store_typed_def)
qed

text \<open>The scripts.\<close>

lemma typed_release_mutex:
  assumes "store_typed S entries r" and "k \<noteq> ORDER_STREAM_KEY"
  shows "store_typed S entries (fst (lua_script S LuaScriptName.releaseMutex [k] [t] r))"
  using typed_DEL [OF assms] assms(1) by (auto split: prod.splits)

lemma typed_release_seat:
  assumes "store_typed S entries r" and "k \<noteq> ORDER_STREAM_KEY"
  shows "store_typed S entries (fst (lua_script S releaseSeatScript [k] [u, h] r))"
  using typed_DEL [OF assms] assms(1) by (auto split: prod.splits option.splits sum.splits)

lemma typed_seat_lock:
  assumes "store_typed S entries r"
  shows "store_typed S entries (fst (lua_script S atomicSeatLock [seatLockKey ev sid] [u, h, ttl] r))"
proof -
  have "store_typed S entries (SET_EX S (seatLockKey ev sid) (cjson_encode S (held_members u h c x)) t r)" if "0 < t" for t c x
    by (rule typed_SET_EX [OF assms that]) (simp_all add: hold_typed [OF hold_value_encode])
  with assms show ?thesis by (auto simp: Let_def split: option.splits sum.splits)
qed

lemma typed_sliding_window:
  assumes "store_typed S entries r" and "k = ''rate-limit'' @ CHR '':'' # s"
  shows "store_typed S entries (fst (lua_script S slidingWindow [k] [a, b, c, m, d] r))"
proof -
  have k: "k \<noteq> ORDER_STREAM_KEY" "\<And>v. value_typed S k v" using assms(2) by (simp_all add: other_keys_typed del: append.simps)
  have "store_typed S entries (EXPIRE S k t (ZADD S k x m (ZREMRANGEBYSCORE S k lo hi r)))" for t x lo hi
    by (rule store_typed_same [OF assms(1) same_redis_trans
          [OF same_redis_trans [OF zremrange_apart [OF k(1)] zadd_apart [OF k(1)]] expire_apart [OF k(1)]]])
       (simp add: k(2))
  with assms(1) show ?thesis by (auto simp: Let_def split: option.splits)
qed

text \<open>Lifted to commands over the network: not executed, or executed.\<close>

lemma typed_redis:
  assumes "\<And>r r' x. store_typed S entries r \<Longrightarrow> c r = (r', x) \<Longrightarrow> store_typed S entries r' \<and> (\<forall>a. x = Inr a \<longrightarrow> T a)"
  shows "fits T (redis_do c)"
  unfolding redis_do_def
  by (rule upholding.conforms_atomic) (use assms in \<open>auto simp: upholds_def world_typed_redis world_typed_def split: prod.splits\<close>)

lemma typed_delivers:
  assumes "\<And>r. delivers r (ex r) (c r)" and "\<And>r. store_typed S entries r \<Longrightarrow> store_typed S entries (fst (ex r))"
  shows "fits (\<lambda>_. True) (redis_do c)"
proof (rule typed_redis)
  fix r r' x
  assume "store_typed S entries r" "c r = (r', x)"
  then show "store_typed S entries r' \<and> (\<forall>a. x = Inr a \<longrightarrow> True)"
    using assms(2) [of r] delivers_state [of r "ex r" r' x] assms(1) [of r] by auto
qed

lemma typed_script:
  assumes "scriptFile svc nm = Inr src" and "d = sha1 src"
    and "\<And>r. store_typed S entries r \<Longrightarrow> store_typed S entries (fst (lua_script S nm keys args r))"
  shows "fits (\<lambda>_. True) (redis_do (c_evalsha (redis svc) d keys args))"
    and "fits (\<lambda>_. True) (redis_do (c_eval (redis svc) src keys args))"
proof -
  show "fits (\<lambda>_. True) (redis_do (c_evalsha (redis svc) d keys args))"
  proof (rule typed_redis)
    fix r r' x
    assume "store_typed S entries r" "c_evalsha (redis svc) d keys args r = (r', x)"
    then show "store_typed S entries r' \<and> (\<forall>a. x = Inr a \<longrightarrow> True)"
      using assms(3) [of r] evalsha_remote [OF assms(1), of r keys args] assms(2)
      by (auto simp: delivers_def) (metis fst_conv)
  qed
  show "fits (\<lambda>_. True) (redis_do (c_eval (redis svc) src keys args))"
    by (rule typed_delivers [OF eval_remote [OF assms(1)] assms(3)])
qed

lemma typed_digest:
  "fits (\<lambda>d. \<exists>src. scriptFile svc nm = Inr src \<and> d = sha1 src) (getLuaScriptDigest nm)"
  unfolding getLuaScriptDigest_def
proof (rule upholding.conforms_atomic)
  fix w w' :: "('r, 'd) world" and x
  assume w: "ok w" and run: "(w, case w_digests w nm of None \<Rightarrow> Inl (JsError (''Lua script has not been loaded: '' @ script_name nm)) | Some d \<Rightarrow> Inr d) = (w', x)"
  obtain src where "scriptFile svc nm = Inr src" "w_digests w nm = Some (sha1 src)"
    using w registeredE [of svc sha1 w nm] by (auto simp: world_typed_def)
  with w run show "upholds ok w w' \<and> (\<forall>d. x = Inr d \<longrightarrow> (\<exists>src. scriptFile svc nm = Inr src \<and> d = sha1 src))" by (auto simp: upholds_def)
qed

lemma typed_get: "fits (\<lambda>_. True) (redis_do (c_get (redis svc) k))"
  by (rule typed_delivers [OF get_remote]) simp

lemma typed_del: "k \<noteq> ORDER_STREAM_KEY \<Longrightarrow> fits (\<lambda>_. True) (redis_do (c_del (redis svc) k))"
  by (rule typed_delivers [OF del_remote]) (simp add: typed_DEL)

lemma typed_set_px_nx:
  "0 < t \<Longrightarrow> k \<noteq> ORDER_STREAM_KEY \<Longrightarrow> value_typed S k v \<Longrightarrow> fits (\<lambda>_. True) (redis_do (c_set_px_nx (redis svc) k v t))"
  by (rule typed_delivers [OF set_px_nx_remote]) (simp add: typed_SET_PX_NX)

lemma typed_set_ex:
  "0 < t \<Longrightarrow> k \<noteq> ORDER_STREAM_KEY \<Longrightarrow> value_typed S k v \<Longrightarrow> fits (\<lambda>_. True) (redis_do (c_set_ex (redis svc) k v t))"
  by (rule typed_delivers [OF set_ex_remote]) (simp add: typed_SET_EX)

lemma store_typed_views:
  "store_typed S entries r \<Longrightarrow> \<forall>k. GET S k r' = GET S k r \<Longrightarrow> entries r' = entries r \<Longrightarrow> store_typed S entries r'"
  by (simp add: store_typed_def)

lemma typed_stream_commands:
  "fits (\<lambda>_. True) (redis_do (c_xgroup_create (redis svc) ORDER_STREAM_KEY ORDER_CONSUMER_GROUP))"
  "fits (\<lambda>_. True) (redis_do (c_xreadgroup (redis svc) ORDER_STREAM_KEY ORDER_CONSUMER_GROUP c n b))"
  "fits (\<lambda>_. True) (redis_do (c_xautoclaim (redis svc) ORDER_STREAM_KEY ORDER_CONSUMER_GROUP c idle n))"
  "fits (\<lambda>_. True) (redis_do (c_xack (redis svc) ORDER_STREAM_KEY ORDER_CONSUMER_GROUP i))"
  by (rule typed_redis, simp add: store_typed_views xgroup_remote xreadgroup_remote xautoclaim_remote xack_remote)+

lemma typed_xadd:
  "fits (\<lambda>_. True) (redis_do (c_xadd (redis svc) ORDER_STREAM_KEY (order_fields a now p)))"
proof (rule typed_redis)
  fix r r' x
  assume t: "store_typed S entries r" and c: "c_xadd (redis svc) ORDER_STREAM_KEY (order_fields a now p) r = (r', x)"
  from xadd_remote [OF c] t show "store_typed S entries r' \<and> (\<forall>a. x = Inr a \<longrightarrow> True)"
    by (auto simp: store_typed_def order_entry_typed)
qed

lemma typed_query:
  assumes "\<And>r r' x. c r = (r', x) \<Longrightarrow> same_redis S pttl entries undelivered pending {} r r'"
  shows "fits (\<lambda>_. True) (redis_do c)"
  by (rule typed_redis, rule conjI, erule store_typed_same [OF _ assms]) simp_all

lemmas typed_queries = typed_query [OF geo_search_remote] typed_query [OF xpending_remote]

text \<open>The database, the clock, the flags.\<close>

lemma typed_db:
  "fits (\<lambda>_. True) (db_do c)" "fits (\<lambda>_. True) (db_read q)"
  "fits (\<lambda>_. True) Date_now" "fits (\<lambda>_. True) (sleep n)"
  by (auto simp: db_do_def db_read_def Date_now_def sleep_def
      intro!: upholding.conforms_atomic upholding.conforms_reads upholding.conforms_then upholding.conforms_modifies
      simp: upholds_def split: prod.splits)

lemma typed_adapter_publish: "fits (\<lambda>_. True) (adapter_publishSeatEvent svc event)"
  unfolding adapter_publishSeatEvent_def
proof (rule upholding.conforms_atomic, goal_cases)
  case (1 w w' x)
  obtain r p where p: "c_publish (redis svc) WS_SEAT_EVENTS_CHANNEL (stringify (seat_event_json event)) (w_redis w) = (r, p)" by force
  from publish_remote [OF p] 1(1) have "store_typed S entries r" by (auto simp: world_typed_def intro: store_typed_views)
  with 1 p show ?case
    by (cases p) (auto simp: upholds_def Let_def world_typed_redis simp del: stringify.simps split: if_splits)
qed

lemma typed_publish: "fits (\<lambda>_. True) (publishSeatEvent svc event)"
  unfolding publishSeatEvent_def
  by (rule upholding.conforms_catch [OF typed_adapter_publish upholding.conforms_Ret]) simp

text \<open>A script by its digest, with the fallback to its text.\<close>

lemma typed_digest_or_text:
  assumes "\<And>r. store_typed S entries r \<Longrightarrow> store_typed S entries (fst (lua_script S nm keys args r))"
    and "\<And>reply. fits T (k reply)"
  shows "fits T (catch
      (await (getLuaScriptDigest nm) (\<lambda>digest. await (redis_do (c_evalsha (redis svc) digest keys args)) k))
      (\<lambda>error. if \<not> isNoscriptError error then Throw error
        else await (getLuaScriptSource svc nm) (\<lambda>source. await (redis_do (c_eval (redis svc) source keys args)) k)))"
proof (rule upholding.conforms_catch)
  show "fits T (await (getLuaScriptDigest nm) (\<lambda>digest. await (redis_do (c_evalsha (redis svc) digest keys args)) k))"
  proof (rule upholding.conforms_await [OF typed_digest [of nm]])
    fix d
    assume "\<exists>src. scriptFile svc nm = Inr src \<and> d = sha1 src"
    then obtain src where src: "scriptFile svc nm = Inr src" "d = sha1 src" by blast
    show "fits T (await (redis_do (c_evalsha (redis svc) d keys args)) k)"
      by (rule upholding.conforms_await [OF typed_script(1) [OF src assms(1)] assms(2)])
  qed
next
  fix error
  have "fits T (await (getLuaScriptSource svc nm) (\<lambda>source. await (redis_do (c_eval (redis svc) source keys args)) k))"
    unfolding getLuaScriptSource_def
  proof (rule upholding.conforms_await [OF upholding.conforms_sync])
    fix src
    show "scriptFile svc nm = Inr src \<Longrightarrow> scriptFile svc nm = Inr src" .
  next
    fix src
    assume src: "scriptFile svc nm = Inr src"
    show "fits T (await (redis_do (c_eval (redis svc) src keys args)) k)"
      by (rule upholding.conforms_await [OF typed_script(2) [OF src refl assms(1)] assms(2)])
  qed
  then show "fits T (if \<not> isNoscriptError error then Throw error
      else await (getLuaScriptSource svc nm) (\<lambda>source. await (redis_do (c_eval (redis svc) source keys args)) k))"
    by (simp add: upholding.conforms_Throw)
qed

lemma typed_acquire: "fits (\<lambda>_. True) (acquireSeatHold svc u ev sid user ttl)"
  unfolding acquireSeatHold_def Let_def
  by (rule typed_digest_or_text [OF typed_seat_lock])
     (assumption, rule upholding.conforms_await [OF typed_db(3) upholding.conforms_return])

lemma typed_release: "fits (\<lambda>_. True) (releaseSeatHold svc ev sid user h)"
  unfolding releaseSeatHold_def Let_def
  by (rule typed_digest_or_text [OF typed_release_seat upholding.conforms_return]) simp_all

text \<open>An order whose entry the worker can read.\<close>

lemma typed_place_order: "fits (\<lambda>_. True) (place_order svc uuid rq ex)"
  unfolding place_order_def
  by (intro upholding.conforms_return upholding.conforms_await [OF typed_db(1)] upholding.conforms_await [OF typed_db(3)]
      upholding.conforms_await [OF typed_publish] upholding.conforms_await [OF typed_xadd])

text \<open>A cached map is a \<open>SeatingMap\<close>, so the cast of the source is right.\<close>

lemma typed_readCachedMap:
  "fits (\<lambda>found. \<forall>m. found = Some m \<longrightarrow> typed SeatingMap_type m) (readCachedMap svc (seatingMapCacheKey ev))"
  unfolding readCachedMap_def
proof (rule upholding.conforms_await)
  show "fits (\<lambda>value. \<forall>v. value = Some v \<longrightarrow> value_typed S (seatingMapCacheKey ev) v) (redis_do (c_get (redis svc) (seatingMapCacheKey ev)))"
  proof (rule typed_redis)
    fix r r' x
    assume t: "store_typed S entries r" and c: "c_get (redis svc) (seatingMapCacheKey ev) r = (r', x)"
    from get_remote [of r "seatingMapCacheKey ev"] c have "r' = r" "x = Inr (GET S (seatingMapCacheKey ev) r) \<or> (\<exists>e. x = Inl e)"
      by (auto simp: delivers_def)
    with t show "store_typed S entries r' \<and>
        (\<forall>value. x = Inr value \<longrightarrow> (\<forall>v. value = Some v \<longrightarrow> value_typed S (seatingMapCacheKey ev) v))"
      by (auto simp: store_typed_def)
  qed
next
  fix x
  assume v: "\<forall>v. x = Some v \<longrightarrow> value_typed S (seatingMapCacheKey ev) v"
  show "fits (\<lambda>found. \<forall>m. found = Some m \<longrightarrow> typed SeatingMap_type m)
      (case x of None \<Rightarrow> Ret None
       | Some v \<Rightarrow> await (sync (JSON_parse v)) (\<lambda>parsed. Ret (if parsed = JNull then None else Some parsed)))"
  proof (cases x)
    case None
    then show ?thesis by (simp add: upholding.conforms_Ret)
  next
    case (Some raw)
    with v obtain m where m: "JSON_parse raw = Inr m" "typed SeatingMap_type m" by (auto simp: value_typed_def)
    with Some show ?thesis by (simp add: sync_def rethrow_def upholding.conforms_Ret)
  qed
qed

lemma typed_mutex:
  "fits (\<lambda>_. True) (acquireMutex svc u (lockKey ev))" "fits (\<lambda>_. True) (releaseMutex svc (lockKey ev) u)"
proof -
  show "fits (\<lambda>_. True) (acquireMutex svc u (lockKey ev))"
    unfolding acquireMutex_def
    by (rule upholding.conforms_await [OF typed_set_px_nx upholding.conforms_return]) (simp_all add: LOCK_TTL_MS_def other_keys_typed)
  show "fits (\<lambda>_. True) (releaseMutex svc (lockKey ev) u)"
    unfolding releaseMutex_def
  proof (rule upholding.conforms_await [OF typed_digest])
    fix d
    assume "\<exists>src. scriptFile svc LuaScriptName.releaseMutex = Inr src \<and> d = sha1 src"
    then obtain src where "scriptFile svc LuaScriptName.releaseMutex = Inr src" "d = sha1 src" by blast
    then show "fits (\<lambda>_. True) (await (redis_do (c_evalsha (redis svc) d [lockKey ev] [u])) (\<lambda>_. Ret ()))"
      by (rule upholding.conforms_await [OF typed_script(1) [OF _ _ typed_release_mutex] upholding.conforms_return]) simp_all
  qed
qed

lemma typed_group: "fits (\<lambda>_. True) (initializeOrderConsumerGroup svc)"
  unfolding initializeOrderConsumerGroup_def
  by (rule upholding.conforms_catch [OF typed_stream_commands(1)]) (simp add: upholding.conforms_return upholding.conforms_Throw)

lemma typed_processMessage: "fits (\<lambda>_. True) (processMessage svc u msg)"
proof -
  have "fits (\<lambda>_. True) (publish_booked svc u payload)" for payload
    unfolding publish_booked_def
    by (intro upholding.conforms_catch upholding.conforms_return upholding.conforms_Throw upholding.conforms_await [OF typed_db(3)] typed_adapter_publish)
  then have "fits (\<lambda>_. True)
      (await (publish_booked svc u payload) (\<lambda>_.
       await (redis_do (c_xack (redis svc) ORDER_STREAM_KEY ORDER_CONSUMER_GROUP (msg_id msg))) (\<lambda>_. Ret ())))" for payload
    by (rule upholding.conforms_await) (rule upholding.conforms_await [OF typed_stream_commands(4) upholding.conforms_return])
  then show ?thesis
    unfolding processMessage_def settleOrder_def
    by (intro upholding.conforms_catch) (auto intro!: upholding.conforms_return upholding.conforms_Throw upholding.conforms_await [OF upholding.conforms_check] upholding.conforms_await [OF typed_db(1)])
qed

text \<open>Every message a poll delivers was written by \<open>createOrder\<close>: the worker can read it.\<close>

lemma batch_readable:
  "store_typed S entries r \<Longrightarrow> raw \<in> set (batch_of (entries r) ids) \<Longrightarrow> readable (toMessage raw)"
  by (auto simp: store_typed_def batch_of_def entry_typed_def)

lemma typed_claim: "fits (list_all readable) (claimPendingMessages svc consumer)"
  unfolding claimPendingMessages_def
proof (rule upholding.conforms_await [OF typed_redis [where T = "\<lambda>batch. list_all (readable \<circ> toMessage) batch"]])
  fix r r' x
  assume t: "store_typed S entries r"
    and c: "c_xautoclaim (redis svc) ORDER_STREAM_KEY ORDER_CONSUMER_GROUP consumer CLAIM_IDLE_MS BATCH_SIZE r = (r', x)"
  from xautoclaim_remote [OF c] t show "store_typed S entries r' \<and> (\<forall>batch. x = Inr batch \<longrightarrow> list_all (readable \<circ> toMessage) batch)"
    by (auto simp: list_all_iff intro!: store_typed_views [OF t] batch_readable [OF t])
qed (simp add: upholding.conforms_Ret list_all_iff)

lemma typed_read: "fits (list_all readable) (readMessages svc consumer ms)"
  unfolding readMessages_def
proof (rule upholding.conforms_await [OF typed_redis [where T = "\<lambda>found. \<forall>streams. found = Some streams \<longrightarrow>
    list_all (\<lambda>stream. list_all (readable \<circ> toMessage) (snd stream)) streams"]])
  fix r r' x
  assume t: "store_typed S entries r"
    and c: "c_xreadgroup (redis svc) ORDER_STREAM_KEY ORDER_CONSUMER_GROUP consumer BATCH_SIZE ms r = (r', x)"
  from xreadgroup_remote [OF c] t show "store_typed S entries r' \<and> (\<forall>found. x = Inr found \<longrightarrow> (\<forall>streams. found = Some streams \<longrightarrow>
      list_all (\<lambda>stream. list_all (readable \<circ> toMessage) (snd stream)) streams))"
    by (auto simp: list_all_iff intro!: store_typed_views [OF t] batch_readable [OF t])
qed (auto intro!: upholding.conforms_Ret simp: list_all_iff split: option.split)

lemma typed_poll: "fits (list_all readable) (poll svc consumer ms)"
  unfolding poll_def by (intro upholding.conforms_await [OF typed_claim] upholding.conforms_await [OF typed_read] upholding.conforms_Ret) simp

lemma typed_batch: "fits (\<lambda>_. True) (process_batch svc sched uuid messages)"
  unfolding process_batch_def by (rule upholding.conforms_all) (auto intro: typed_processMessage)

lemma typed_available: "fits (\<lambda>_. True) (processAvailableOrderMessages svc consumer sched uuid)"
  unfolding processAvailableOrderMessages_def
  by (intro upholding.conforms_await [OF typed_group] upholding.conforms_then [OF upholding.conforms_any [OF typed_poll]] upholding.conforms_await [OF typed_batch] upholding.conforms_return upholding.conforms_Throw)

lemma typed_loop: "fits (\<lambda>_. True) (consumer_loop svc consumer sched uuid bound)"
proof (induction bound)
  case (Suc bound)
  show ?case unfolding consumer_loop.simps
    by (rule upholding.conforms_await [OF upholding.conforms_reads [where T = "\<lambda>_. True"]])
       (auto simp: upholds_def intro!: upholding.conforms_return upholding.conforms_Throw
         upholding.conforms_then [OF upholding.conforms_any [OF typed_poll]] upholding.conforms_await [OF typed_batch] Suc)
qed (simp add: upholding.conforms_return upholding.conforms_Throw)

lemma typed_consumer: "fits (\<lambda>_. True) (startOrderConsumer svc consumer sched uuid bound)"
  unfolding startOrderConsumer_def
  by (rule upholding.conforms_await [OF upholding.conforms_atomic [where T = "\<lambda>_. True"]])
     (auto simp: upholds_def intro!: upholding.conforms_return upholding.conforms_Throw upholding.conforms_await [OF typed_group]
       upholding.conforms_finally [OF typed_loop upholding.conforms_modifies])

lemma typed_stop: "fits (\<lambda>_. True) stopOrderConsumer"
  unfolding stopOrderConsumer_def by (rule upholding.conforms_modifies) (simp add: upholds_def)

section \<open>The discipline of the typing\<close>

lemma typed_limit:
  "fits (\<lambda>_. True) (await (getLuaScriptDigest slidingWindow) (\<lambda>digest.
     redis_do (c_evalsha (redis svc) digest [''rate-limit'' @ CHR '':'' # client] [a, b, c, m, d])))"
proof (rule upholding.conforms_await [OF typed_digest])
  fix digest
  assume "\<exists>src. scriptFile svc slidingWindow = Inr src \<and> digest = sha1 src"
  then obtain src where src: "scriptFile svc slidingWindow = Inr src" "digest = sha1 src" by blast
  show "fits (\<lambda>_. True) (redis_do (c_evalsha (redis svc) digest [''rate-limit'' @ CHR '':'' # client] [a, b, c, m, d]))"
    by (rule typed_script(1) [OF src]) (rule typed_sliding_window [OF _ refl])
qed

end

sublocale redis_api \<subseteq> typing: discipline "upholds ok" ok svc G B "typed SeatingMap_type"
proof unfold_locales
  fix sm :: SeatingMap
  show "fits (\<lambda>_. True) (redis_do (c_set_ex (redis svc) (seatingMapCacheKey ev) (stringify (seating_map_value sm)) CACHE_TTL_SECONDS))" for ev
    by (rule typed_set_ex) (simp_all add: CACHE_TTL_SECONDS_def map_text_typed del: stringify.simps)
next
  fix client and a b c m d :: "string"
  show "fits (\<lambda>_. True) (await (getLuaScriptDigest slidingWindow) (\<lambda>digest.
     redis_do (c_evalsha (redis svc) digest [''rate-limit'' @ CHR '':'' # client] [a, b, c, m, d])))"
    by (rule typed_limit)
qed (simp_all add: upholds_def typed_acquire typed_release typed_del typed_db typed_publish typed_place_order typed_readCachedMap
      seating_map_typed typed_mutex typed_queries typed_group typed_available typed_consumer typed_stop)

section \<open>It holds of the reference store\<close>

definition ref_bench :: "(ref_redis, ref_db) bench_services" where
  "ref_bench = \<lparr>
     order_count = (\<lambda>ids st d. Inr (card {h. \<exists>row. ref_orders d h = Some row \<and> ord_id row \<in> set ids \<and> ord_status row = st})),
     xpending = (\<lambda>k g r. (r, Inr (Some (int (length (rs_pel r))))))\<rparr>"

interpretation ref_api:
  redis_api ref_server ref_pttl ref_elapse ref_services ref_sha1 ref_entries rs_undelivered "\<lambda>r. set (rs_pel r)" sample_geo ref_bench
proof (intro redis_api.intro redis_api_axioms.intro)
  show "redis_streams ref_server ref_pttl ref_elapse ref_services ref_sha1 ref_entries rs_undelivered (\<lambda>r. set (rs_pel r))"
    by (rule ref_engine.redis_streams_axioms)
qed (auto simp: same_redis_def ref_server_def ref_zset_def ref_get_def ref_pttl_def ref_set_def ref_entries_def sample_geo_def
      ref_bench_def split: if_splits)

text \<open>The application on it; a route matches its own text.\<close>

definition ref_app :: "(ref_redis, ref_db) app_setup" where
  "ref_app = \<lparr>st_svc = ref_services, st_geo = sample_geo, st_bench = ref_bench, st_env = Production, st_windowMs = 60000,
     st_maxRequests = 100, st_disable = None, st_zod = \<lparr>zm_string = \<lambda>_. ''Invalid input'', zm_object = \<lambda>_. ''Invalid input'',
       zm_number = \<lambda>_ _. [''Invalid input'']\<rparr>, st_consumer = ''c'', st_uptime = of_int, st_body = (\<lambda>request. Inr (req_body request)),
     st_match = (\<lambda>pattern path. if pattern = path then Some Map.empty else None)\<rparr>"

end
