(* ===== verification/Type_Soundness.thy ===== *)
theory Type_Soundness imports Store_Typing begin

text \<open>
  Type soundness of the whole API: the discipline of the store typing, carried by
  \<open>Engine_Logic\<close> to a running engine.  TypeScript checks none of this; its types are erased,
  and what comes back from Redis is cast.
\<close>

section \<open>The running engine\<close>

context redis_api begin

lemmas engine_typed = typing.engine_pool(1,3)

lemma poll_readable:
  "ok w \<Longrightarrow> run (poll svc consumer ms) w = (w', Inr messages) \<Longrightarrow> list_all readable messages"
  using upholding.conforms_run [OF typed_poll] by blast

end

text \<open>
  Claim C7.  Type soundness.  Started in a typed store and beside anything that keeps it typed,
  any number of HTTP requests and order workers, in any interleaving, keep it typed: under seat
  keys there are only hold records, under the keys of seating maps only texts of seating maps,
  and every message a worker polls is one it can read.  Every answer to a request has the type
  its route declares, or the type of an error with the status it is sent with.
\<close>

theorem type_soundness:
  assumes "redis_api S pttl elapse (st_svc A) sha1 entries undelivered pending (st_geo A) (st_bench A)"
    and "world_typed S (st_svc A) sha1 entries w"
    and "pool_steps (upholds (world_typed S (st_svc A) sha1 entries)) (w, map (party_proc A) parties) (w', ps')"
  shows "world_typed S (st_svc A) sha1 entries w' \<and> seat_keys_ok S w' \<and>
    (\<forall>i < length parties. \<forall>a. ps' ! i = Ret a \<longrightarrow> party_answer (typed SeatingMap_type) A (parties ! i) a) \<and>
    (\<forall>consumer ms w'' messages. run (poll (st_svc A) consumer ms) w' = (w'', Inr messages) \<longrightarrow> list_all readable messages)"
proof -
  note sound = redis_api.engine_typed [OF assms(1) refl refl refl assms(2,3)]
  from sound(1) have "seat_keys_ok S w'" by (rule world_typed_seat_keys)
  with sound redis_api.poll_readable [OF assms(1) sound(1)] show ?thesis by blast
qed

section \<open>A request for the root of the API\<close>

lemma ref_world_typed: "world_typed ref_server ref_services ref_sha1 ref_entries ref_world"
  using ref_registered by (simp add: world_typed_def store_typed_def ref_world_def ref_redis0_def ref_entries_def ref_server_def ref_get_def)

lemma ref_root_run:
  "\<exists>a. run (party_proc ref_app (Client sample_draws ref_http)) ref_world = (ref_world, Inr (Some a)) \<and> an_status a = 200"
  by (simp add: handle_run run_simps ref_app_def limiter_options_def rateLimiter_def configuration_def bypassed_def ref_http_def
      app_routes_def root_handler_def answer_def Let_def)

theorem type_soundness_witness:
  "\<exists>ps' a. pool_steps (upholds (world_typed ref_server ref_services ref_sha1 ref_entries))
      (ref_world, map (party_proc ref_app) [Client sample_draws ref_http]) (ref_world, ps') \<and>
    ps' ! 0 = Ret (Some a) \<and> an_status a = 200 \<and> answer_sound (typed SeatingMap_type) ref_app sample_draws ref_http a"
proof -
  obtain a where a: "run (party_proc ref_app (Client sample_draws ref_http)) ref_world = (ref_world, Inr (Some a))" "an_status a = 200"
    using ref_root_run by blast
  let ?ps = "map (party_proc ref_app) [Client sample_draws ref_http]"
  have s: "pool_steps (upholds (world_typed ref_server (st_svc ref_app) ref_sha1 ref_entries)) (ref_world, ?ps) (ref_world, ?ps[0 := Ret (Some a)])"
    by (rule pool_steps_run [OF a(1)]) simp_all
  have "redis_api ref_server ref_pttl ref_elapse (st_svc ref_app) ref_sha1 ref_entries rs_undelivered (\<lambda>r. set (rs_pel r))
      (st_geo ref_app) (st_bench ref_app)"
    using ref_api.redis_api_axioms by (simp add: ref_app_def)
  from type_soundness [OF this _ s] ref_world_typed have "party_answer (typed SeatingMap_type) ref_app (Client sample_draws ref_http) (Some a)"
    by (simp add: ref_app_def)
  with s a(2) show ?thesis
    by (intro exI [of _ "?ps[0 := Ret (Some a)]"] exI [of _ a]) (simp add: ref_app_def [THEN arg_cong [of _ _ st_svc]])
qed

end
