(* ===== verification/Booking_System.thy ===== *)
theory Booking_System imports Types begin

text \<open>
  What the engine promises, without Redis, streams, sockets and processes: a booking system
  with one state per seat and a table of orders, in which an order is placed, is booked, or its
  seat is opened again, each in one step.  \<open>Double_Booking\<close> and \<open>Engine_Refinement\<close> show that the
  running engine makes no other moves.
\<close>

section \<open>The abstract system\<close>

text \<open>The state of a seat; the seat of an order, and whether the order is booked.\<close>

record booking =
  bk_seat :: "string \<Rightarrow> SeatState option"
  bk_order :: "string \<Rightarrow> (string \<times> bool) option"

inductive booking_step :: "booking \<Rightarrow> booking \<Rightarrow> bool" where
  Place: "bk_seat b sid = Some AVAILABLE \<Longrightarrow> bk_order b h = None \<Longrightarrow>
    booking_step b (b\<lparr>bk_seat := (bk_seat b)(sid \<mapsto> HELD), bk_order := (bk_order b)(h \<mapsto> (sid, False))\<rparr>)"
| Book: "bk_seat b sid = Some HELD \<Longrightarrow> bk_order b h = Some (sid, False) \<Longrightarrow>
    booking_step b (b\<lparr>bk_seat := (bk_seat b)(sid \<mapsto> SOLD), bk_order := (bk_order b)(h \<mapsto> (sid, True))\<rparr>)"
| Reopen: "bk_seat b sid = Some HELD \<Longrightarrow>
    booking_step b (b\<lparr>bk_seat := (bk_seat b)(sid \<mapsto> AVAILABLE)\<rparr>)"

inductive_cases booking_stepE: "booking_step b b'"

text \<open>A booked order has its seat sold, and is the only booked one of that seat.\<close>

definition booking_safe :: "booking \<Rightarrow> bool" where
  "booking_safe b \<longleftrightarrow>
     (\<forall>h sid. bk_order b h = Some (sid, True) \<longrightarrow> bk_seat b sid = Some SOLD) \<and>
     (\<forall>h h' sid. bk_order b h = Some (sid, True) \<longrightarrow> bk_order b h' = Some (sid, True) \<longrightarrow> h = h')"

section \<open>It is safe\<close>

lemma booking_step_safe: "booking_step b b' \<Longrightarrow> booking_safe b \<Longrightarrow> booking_safe b'"
  by (induction rule: booking_step.induct) (auto simp: booking_safe_def split: if_splits)

lemma booking_run_safe: "booking_step\<^sup>*\<^sup>* b b' \<Longrightarrow> booking_safe b \<Longrightarrow> booking_safe b'"
  by (induction rule: rtranclp_induct) (auto intro: booking_step_safe)

text \<open>A sold seat and a booked order are so for good.\<close>

lemma booking_step_final:
  "booking_step b b' \<Longrightarrow> bk_seat b sid = Some SOLD \<Longrightarrow> bk_seat b' sid = Some SOLD"
  "booking_step b b' \<Longrightarrow> bk_order b h = Some (sid, True) \<Longrightarrow> bk_order b' h = Some (sid, True)"
  by (auto elim!: booking_stepE)

lemma booking_run_final:
  "booking_step\<^sup>*\<^sup>* b b' \<Longrightarrow> bk_seat b sid = Some SOLD \<Longrightarrow> bk_seat b' sid = Some SOLD"
  "booking_step\<^sup>*\<^sup>* b b' \<Longrightarrow> bk_order b h = Some (sid, True) \<Longrightarrow> bk_order b' h = Some (sid, True)"
  by (induction rule: rtranclp_induct) (auto dest: booking_step_final)

section \<open>The tables as a booking system\<close>

definition booking_of ::
  "('d \<Rightarrow> string \<Rightarrow> seat_row option) \<Rightarrow> ('d \<Rightarrow> string \<Rightarrow> order_row option) \<Rightarrow> 'd \<Rightarrow> booking" where
  "booking_of seats orders d =
     \<lparr>bk_seat = (\<lambda>sid. map_option seat_status (seats d sid)),
      bk_order = (\<lambda>h. map_option (\<lambda>row. (ord_seatId row, ord_status row = BOOKED)) (orders d h))\<rparr>"

lemma booking_of_simps [simp]:
  "bk_seat (booking_of seats orders d) sid = map_option seat_status (seats d sid)"
  "bk_order (booking_of seats orders d) h = map_option (\<lambda>row. (ord_seatId row, ord_status row = BOOKED)) (orders d h)"
  by (simp_all add: booking_of_def)

lemma booking_of_upd:
  "seats d' = (seats d)(sid \<mapsto> s) \<Longrightarrow> bk_seat (booking_of seats orders d') = (bk_seat (booking_of seats orders d))(sid \<mapsto> seat_status s)"
  "orders d' = (orders d)(h \<mapsto> row) \<Longrightarrow>
    bk_order (booking_of seats orders d') = (bk_order (booking_of seats orders d))(h \<mapsto> (ord_seatId row, ord_status row = BOOKED))"
  by (auto simp: booking_of_def)

lemma booking_of_same:
  "seats d' = seats d \<Longrightarrow> bk_seat (booking_of seats orders d') = bk_seat (booking_of seats orders d)"
  "orders d' = orders d \<Longrightarrow> bk_order (booking_of seats orders d') = bk_order (booking_of seats orders d)"
  by (auto simp: booking_of_def)

text \<open>The three moves of the tables.\<close>

lemma table_place:
  assumes "seats d sid = Some s" and "seat_status s = AVAILABLE" and "seats d' = (seats d)(sid \<mapsto> s\<lparr>seat_status := HELD\<rparr>)"
    and "orders d h = None" and "orders d' = (orders d)(h \<mapsto> row)" and "ord_seatId row = sid" and "ord_status row \<noteq> BOOKED"
  shows "booking_step (booking_of seats orders d) (booking_of seats orders d')"
proof -
  let ?b = "booking_of seats orders d"
  have "booking_of seats orders d' = ?b\<lparr>bk_seat := (bk_seat ?b)(sid \<mapsto> HELD), bk_order := (bk_order ?b)(h \<mapsto> (sid, False))\<rparr>"
    using booking_of_upd(1) [of seats, OF assms(3)] booking_of_upd(2) [of orders, OF assms(5)] assms(6,7)
    by (intro booking.equality) simp_all
  with Place [of ?b sid h] assms(1,2,4) show ?thesis by simp
qed

lemma table_book:
  assumes "seats d sid = Some s" and "seat_status s = HELD" and "seats d' = (seats d)(sid \<mapsto> s\<lparr>seat_status := SOLD\<rparr>)"
    and "orders d h = Some row" and "ord_seatId row = sid" and "ord_status row \<noteq> BOOKED"
    and "orders d' = (orders d)(h \<mapsto> row\<lparr>ord_status := BOOKED\<rparr>)"
  shows "booking_step (booking_of seats orders d) (booking_of seats orders d')"
proof -
  let ?b = "booking_of seats orders d"
  have "booking_of seats orders d' = ?b\<lparr>bk_seat := (bk_seat ?b)(sid \<mapsto> SOLD), bk_order := (bk_order ?b)(h \<mapsto> (sid, True))\<rparr>"
    using booking_of_upd(1) [of seats, OF assms(3)] booking_of_upd(2) [of orders, OF assms(7)] assms(5)
    by (intro booking.equality) simp_all
  with Book [of ?b sid h] assms(1,2,4-6) show ?thesis by simp
qed

lemma table_reopen:
  assumes "seats d sid = Some s" and "seat_status s = HELD" and "seats d' = (seats d)(sid \<mapsto> s\<lparr>seat_status := AVAILABLE\<rparr>)"
    and "orders d' = orders d"
  shows "booking_step (booking_of seats orders d) (booking_of seats orders d')"
proof -
  let ?b = "booking_of seats orders d"
  have "booking_of seats orders d' = ?b\<lparr>bk_seat := (bk_seat ?b)(sid \<mapsto> AVAILABLE)\<rparr>"
    using booking_of_upd(1) [of seats, OF assms(3)] booking_of_same(2) [of orders, OF assms(4)]
    by (intro booking.equality) simp_all
  with Reopen [of ?b sid] assms(1,2) show ?thesis by simp
qed

end
