(* ===== verification/Double_Booking.thy ===== *)
theory Double_Booking imports Order_Worker Booking_System begin

text \<open>
  The claim of the engine as a whole: whatever the buyers and the workers do at the same
  time, no seat is booked twice, a sold seat stays sold, and no order is lost.  All
  operations run together, interleaved at every \<open>await\<close>, each command possibly failing;
  the rest of the world may do anything that leaves orders, seats and the order stream
  alone (keys expire, caches are filled, clocks advance).
\<close>

section \<open>Consistency of the system state\<close>

text \<open>The payload the worker will see in a stream entry, if it is a supported one.\<close>

definition entry_payload :: "stream_entry \<Rightarrow> OrderCreatedEventPayload option" where
  "entry_payload e =
     (let m = toMessage (flat_entry e)
      in if supported m then (case parsePayload m of Inr p \<Rightarrow> Some p | Inl _ \<Rightarrow> None) else None)"

definition booked_sold ::
  "('d \<Rightarrow> string \<Rightarrow> seat_row option) \<Rightarrow> ('d \<Rightarrow> string \<Rightarrow> order_row option) \<Rightarrow> 'd \<Rightarrow> bool" where
  "booked_sold seats orders d \<longleftrightarrow>
     (\<forall>h row. orders d h = Some row \<longrightarrow> ord_status row = BOOKED \<longrightarrow>
        (\<exists>s. seats d (ord_seatId row) = Some s \<and> seat_eventId s = ord_eventId row \<and> seat_status s = SOLD))"

definition booked_once :: "('d \<Rightarrow> string \<Rightarrow> order_row option) \<Rightarrow> 'd \<Rightarrow> bool" where
  "booked_once orders d \<longleftrightarrow>
     (\<forall>h h' row row'. orders d h = Some row \<longrightarrow> orders d h' = Some row' \<longrightarrow> ord_status row = BOOKED \<longrightarrow>
        ord_status row' = BOOKED \<longrightarrow> ord_seatId row = ord_seatId row' \<longrightarrow> h = h')"

definition entries_match :: "('d \<Rightarrow> string \<Rightarrow> order_row option) \<Rightarrow> stream_entry list \<Rightarrow> 'd \<Rightarrow> bool" where
  "entries_match orders es d \<longleftrightarrow>
     (\<forall>e \<in> set es. \<forall>p. entry_payload e = Some p \<longrightarrow>
        (\<exists>row. orders d (oc_holdId p) = Some row \<and> ord_seatId row = oc_seatId p \<and> ord_eventId row = oc_eventId p))"

definition entry_settled :: "('d \<Rightarrow> string \<Rightarrow> order_row option) \<Rightarrow> 'd \<Rightarrow> stream_entry \<Rightarrow> bool" where
  "entry_settled orders d e \<longleftrightarrow> (\<exists>p. entry_payload e = Some p \<and> booked orders (oc_holdId p) d)"

text \<open>Every entry is still to be delivered, or is delivered and pending, or is settled.\<close>

definition none_lost ::
  "('d \<Rightarrow> string \<Rightarrow> order_row option) \<Rightarrow> stream_entry list \<Rightarrow> string list option \<Rightarrow> string set \<Rightarrow> 'd \<Rightarrow> bool" where
  "none_lost orders es undel pend d \<longleftrightarrow>
     distinct (map fst es) \<and>
     (\<exists>u. undel = Some u \<and>
        (\<forall>e \<in> set es. fst e \<in> set u \<or> fst e \<in> pend \<or> entry_settled orders d e))"

definition consistent ::
  "('d \<Rightarrow> string \<Rightarrow> seat_row option) \<Rightarrow> ('d \<Rightarrow> string \<Rightarrow> order_row option) \<Rightarrow> ('r \<Rightarrow> stream_entry list) \<Rightarrow>
   ('r \<Rightarrow> string list option) \<Rightarrow> ('r \<Rightarrow> string set) \<Rightarrow> ('r, 'd) world \<Rightarrow> bool" where
  "consistent seats orders entries undelivered pending w \<longleftrightarrow>
     booked_sold seats orders (w_db w) \<and> booked_once orders (w_db w) \<and>
     entries_match orders (entries (w_redis w)) (w_db w) \<and>
     none_lost orders (entries (w_redis w)) (undelivered (w_redis w)) (pending (w_redis w)) (w_db w)"

section \<open>Progress\<close>

definition seats_progress :: "('d \<Rightarrow> string \<Rightarrow> seat_row option) \<Rightarrow> 'd \<Rightarrow> 'd \<Rightarrow> bool" where
  "seats_progress seats d d' \<longleftrightarrow>
     (\<forall>sid s. seats d sid = Some s \<longrightarrow>
        (\<exists>s'. seats d' sid = Some s' \<and> seat_eventId s' = seat_eventId s \<and>
           (seat_status s = SOLD \<longrightarrow> seat_status s' = SOLD)))"

definition orders_progress :: "('d \<Rightarrow> string \<Rightarrow> order_row option) \<Rightarrow> 'd \<Rightarrow> 'd \<Rightarrow> bool" where
  "orders_progress orders d d' \<longleftrightarrow>
     (\<forall>h row. orders d h = Some row \<longrightarrow>
        (\<exists>row'. orders d' h = Some row' \<and> ord_id row' = ord_id row \<and> ord_eventId row' = ord_eventId row \<and>
           ord_seatId row' = ord_seatId row \<and> ord_userId row' = ord_userId row \<and>
           (ord_status row = BOOKED \<longrightarrow> ord_status row' = BOOKED)))"

text \<open>The moves every operation keeps to; from a consistent state, moves of the booking system or none of them.\<close>

definition progress ::
  "('d \<Rightarrow> string \<Rightarrow> seat_row option) \<Rightarrow> ('d \<Rightarrow> string \<Rightarrow> order_row option) \<Rightarrow> ('r \<Rightarrow> stream_entry list) \<Rightarrow>
   ('r \<Rightarrow> string list option) \<Rightarrow> ('r \<Rightarrow> string set) \<Rightarrow> ('r, 'd) world \<Rightarrow> ('r, 'd) world \<Rightarrow> bool" where
  "progress seats orders entries undelivered pending w w' \<longleftrightarrow>
     seats_progress seats (w_db w) (w_db w') \<and> orders_progress orders (w_db w) (w_db w') \<and>
     (\<exists>es. entries (w_redis w') = entries (w_redis w) @ es) \<and> w_digests w' = w_digests w \<and>
     (consistent seats orders entries undelivered pending w \<longrightarrow>
      consistent seats orders entries undelivered pending w' \<and>
      booking_step\<^sup>=\<^sup>= (booking_of seats orders (w_db w)) (booking_of seats orders (w_db w')))"

text \<open>The moves of the rest of the world.\<close>

definition elsewhere ::
  "('r \<Rightarrow> stream_entry list) \<Rightarrow> ('r \<Rightarrow> string list option) \<Rightarrow> ('r \<Rightarrow> string set) \<Rightarrow>
   ('r, 'd) world \<Rightarrow> ('r, 'd) world \<Rightarrow> bool" where
  "elsewhere entries undelivered pending w w' \<longleftrightarrow>
     w_db w' = w_db w \<and> entries (w_redis w') = entries (w_redis w) \<and>
     undelivered (w_redis w') = undelivered (w_redis w) \<and> pending (w_redis w') = pending (w_redis w) \<and>
     w_digests w' = w_digests w"

lemma seats_progress_refl [simp]: "seats_progress seats d d"
  by (simp add: seats_progress_def)

lemma orders_progress_refl [simp]: "orders_progress orders d d"
  by (simp add: orders_progress_def)

lemma elsewhere_progress:
  "elsewhere entries undelivered pending w w' \<Longrightarrow> progress seats orders entries undelivered pending w w'"
  by (simp add: elsewhere_def progress_def consistent_def)

lemma seats_progress_trans:
  assumes "seats_progress seats d d'" and "seats_progress seats d' d''"
  shows "seats_progress seats d d''"
  unfolding seats_progress_def
proof (intro allI impI)
  fix sid s
  assume "seats d sid = Some s"
  with assms(1) obtain s' where s': "seats d' sid = Some s'" "seat_eventId s' = seat_eventId s"
    "seat_status s = SOLD \<longrightarrow> seat_status s' = SOLD" unfolding seats_progress_def by blast
  with assms(2) obtain s'' where "seats d'' sid = Some s''" "seat_eventId s'' = seat_eventId s'"
    "seat_status s' = SOLD \<longrightarrow> seat_status s'' = SOLD" unfolding seats_progress_def by blast
  with s' show "\<exists>s'. seats d'' sid = Some s' \<and> seat_eventId s' = seat_eventId s \<and>
      (seat_status s = SOLD \<longrightarrow> seat_status s' = SOLD)" by auto
qed

lemma orders_progressE:
  assumes "orders_progress orders d d'" and "orders d h = Some row"
  obtains row' where "orders d' h = Some row'" "ord_eventId row' = ord_eventId row"
    "ord_seatId row' = ord_seatId row" "ord_status row = BOOKED \<Longrightarrow> ord_status row' = BOOKED"
  using assms unfolding orders_progress_def by fast

lemma orders_progress_booked:
  assumes "orders_progress orders d d'" and "booked orders h d"
  shows "booked orders h d'"
proof -
  from assms(2) obtain row where row: "orders d h = Some row" "ord_status row = BOOKED"
    by (auto simp: booked_def)
  from orders_progressE [OF assms(1) row(1)] row(2) show ?thesis by (metis booked_def)
qed

lemma entries_match_progress:
  assumes "orders_progress orders d d'" and "entries_match orders es d"
  shows "entries_match orders es d'"
  unfolding entries_match_def
proof (intro ballI allI impI)
  fix e p
  assume "e \<in> set es" and "entry_payload e = Some p"
  with assms(2) obtain row where row: "orders d (oc_holdId p) = Some row" "ord_seatId row = oc_seatId p"
    "ord_eventId row = oc_eventId p" unfolding entries_match_def by blast
  from orders_progressE [OF assms(1) row(1)] obtain row' where "orders d' (oc_holdId p) = Some row'"
    "ord_eventId row' = ord_eventId row" "ord_seatId row' = ord_seatId row" by blast
  with row show "\<exists>row. orders d' (oc_holdId p) = Some row \<and> ord_seatId row = oc_seatId p \<and> ord_eventId row = oc_eventId p"
    by auto
qed

lemma entry_settled_progress:
  assumes "orders_progress orders d d'" and "entry_settled orders d e"
  shows "entry_settled orders d' e"
proof -
  from assms(2) obtain p where "entry_payload e = Some p" "booked orders (oc_holdId p) d"
    by (auto simp: entry_settled_def)
  with orders_progress_booked [OF assms(1)] show ?thesis by (auto simp: entry_settled_def)
qed

lemma none_lost_progress:
  assumes "orders_progress orders d d'" and "none_lost orders es undel pend d"
  shows "none_lost orders es undel pend d'"
proof -
  from assms(2) obtain u where u: "distinct (map fst es)" "undel = Some u"
    "\<forall>e \<in> set es. fst e \<in> set u \<or> fst e \<in> pend \<or> entry_settled orders d e" by (auto simp: none_lost_def)
  have "\<forall>e \<in> set es. fst e \<in> set u \<or> fst e \<in> pend \<or> entry_settled orders d' e"
    using u(3) entry_settled_progress [OF assms(1)] by blast
  with u(1,2) show ?thesis by (simp add: none_lost_def)
qed

text \<open>A change of the database alone keeps the stream side consistent.\<close>

lemma progress_database:
  assumes "seats_progress seats (w_db w) d'" and "orders_progress orders (w_db w) d'"
    and "booked_sold seats orders (w_db w) \<Longrightarrow> booked_once orders (w_db w) \<Longrightarrow>
      entries_match orders (entries (w_redis w)) (w_db w) \<Longrightarrow>
      booked_sold seats orders d' \<and> booked_once orders d'"
    and "booking_step\<^sup>=\<^sup>= (booking_of seats orders (w_db w)) (booking_of seats orders d')"
  shows "progress seats orders entries undelivered pending w (w\<lparr>w_db := d'\<rparr>)"
  using assms entries_match_progress [OF assms(2)] none_lost_progress [OF assms(2)]
  by (auto simp: progress_def consistent_def)

section \<open>The moves of the operations\<close>

text \<open>A seat that is not sold may be moved to any state; orders stay.\<close>

lemma seat_move_progress:
  assumes "seats d sid = Some s" and "seat_status s \<noteq> SOLD"
    and "seats d' = (seats d)(sid \<mapsto> s\<lparr>seat_status := st\<rparr>)"
  shows "seats_progress seats d d'"
  using assms by (auto simp: seats_progress_def)

lemma seat_move_booked_sold:
  assumes "booked_sold seats orders d" and "seats d sid = Some s" and "seat_status s \<noteq> SOLD"
    and "seats d' = (seats d)(sid \<mapsto> s\<lparr>seat_status := st\<rparr>)" and "orders d' = orders d"
  shows "booked_sold seats orders d'"
  unfolding booked_sold_def
proof (intro allI impI)
  fix h row
  assume "orders d' h = Some row" and "ord_status row = BOOKED"
  with assms(1,5) obtain s0 where "seats d (ord_seatId row) = Some s0" "seat_eventId s0 = ord_eventId row"
    "seat_status s0 = SOLD" unfolding booked_sold_def by metis
  with assms(2-4) show "\<exists>s. seats d' (ord_seatId row) = Some s \<and> seat_eventId s = ord_eventId row \<and> seat_status s = SOLD"
    by (cases "ord_seatId row = sid") auto
qed

lemma seat_reopened_progress:
  assumes "seat_reopened seats orders rq (w_db w) d'"
  shows "progress seats orders entries undelivered pending w (w\<lparr>w_db := d'\<rparr>)"
proof (rule progress_database)
  have o: "orders d' = orders (w_db w)" using assms by (simp add: seat_reopened_def)
  then show "orders_progress orders (w_db w) d'" by (simp add: orders_progress_def)
  have c: "seats d' = seats (w_db w) \<or> (\<exists>s. seats (w_db w) (rq_seatId rq) = Some s \<and> seat_status s = HELD \<and>
      seats d' = (seats (w_db w))(rq_seatId rq \<mapsto> s\<lparr>seat_status := AVAILABLE\<rparr>))"
    using assms by (auto simp: seat_reopened_def split: option.splits if_splits)
  then show "booking_step\<^sup>=\<^sup>= (booking_of seats orders (w_db w)) (booking_of seats orders d')"
    using o table_reopen [of seats "w_db w" "rq_seatId rq" _ d' orders] by (auto simp: booking_of_def)
  from c show "seats_progress seats (w_db w) d'"
    using seat_move_progress by (auto simp: seats_progress_def)
  assume b: "booked_sold seats orders (w_db w)" "booked_once orders (w_db w)"
  from c have "booked_sold seats orders d'"
    using b(1) o seat_move_booked_sold [OF b(1), of "rq_seatId rq" _ d' AVAILABLE] by (auto simp: booked_sold_def)
  with b(2) o show "booked_sold seats orders d' \<and> booked_once orders d'" by (simp add: booked_once_def)
qed

lemma order_placed_progress:
  assumes "order_placed seats orders events rq hold expires row (w_db w) d'"
  shows "progress seats orders entries undelivered pending w (w\<lparr>w_db := d'\<rparr>)"
proof (rule progress_database)
  from assms obtain s where s: "seats (w_db w) (rq_seatId rq) = Some s" "seat_status s = AVAILABLE"
    "seats d' = (seats (w_db w))(rq_seatId rq \<mapsto> s\<lparr>seat_status := HELD\<rparr>)"
    and o: "orders (w_db w) hold = None" "orders d' = (orders (w_db w))(hold \<mapsto> row)" "ord_status row = PROCESSING"
      "ord_seatId row = rq_seatId rq"
    by (auto simp: order_placed_def order_data.truncate_def)
  show "booking_step\<^sup>=\<^sup>= (booking_of seats orders (w_db w)) (booking_of seats orders d')"
    using table_place [of seats "w_db w" _ s d' orders, OF s o(1,2,4)] o(3) by simp
  show "seats_progress seats (w_db w) d'" using seat_move_progress [OF s(1) _ s(3)] s(2) by simp
  show "orders_progress orders (w_db w) d'" using o by (auto simp: orders_progress_def)
  assume b: "booked_sold seats orders (w_db w)" "booked_once orders (w_db w)"
  have old: "orders (w_db w) h = Some r" if "orders d' h = Some r" "ord_status r = BOOKED" for h r
    using that o by (auto split: if_splits)
  have "booked_sold seats orders d'"
    unfolding booked_sold_def
  proof (intro allI impI)
    fix h r
    assume r: "orders d' h = Some r" "ord_status r = BOOKED"
    then obtain s0 where "seats (w_db w) (ord_seatId r) = Some s0" "seat_eventId s0 = ord_eventId r" "seat_status s0 = SOLD"
      using b(1) old unfolding booked_sold_def by metis
    with s show "\<exists>s. seats d' (ord_seatId r) = Some s \<and> seat_eventId s = ord_eventId r \<and> seat_status s = SOLD"
      by (cases "ord_seatId r = rq_seatId rq") auto
  qed
  moreover have "booked_once orders d'" using b(2) old unfolding booked_once_def by metis
  ultimately show "booked_sold seats orders d' \<and> booked_once orders d'" by blast
qed

text \<open>
  A settlement seen in the tables: the seat of the order moves to SOLD, the order to BOOKED.  The seat
  was HELD, so by consistency no order of it was booked; it is sold with the one order that is
  booked now.
\<close>

definition settles ::
  "('d \<Rightarrow> string \<Rightarrow> seat_row option) \<Rightarrow> ('d \<Rightarrow> string \<Rightarrow> order_row option) \<Rightarrow> OrderCreatedEventPayload \<Rightarrow>
   seat_row \<Rightarrow> order_row \<Rightarrow> 'd \<Rightarrow> 'd \<Rightarrow> bool" where
  "settles seats orders p s row d d' \<longleftrightarrow>
     seats d (oc_seatId p) = Some s \<and> seat_eventId s = oc_eventId p \<and> seat_status s = HELD \<and>
     seats d' = (seats d)(oc_seatId p \<mapsto> s\<lparr>seat_status := SOLD\<rparr>) \<and>
     orders d (oc_holdId p) = Some row \<and> ord_seatId row = oc_seatId p \<and> ord_eventId row = oc_eventId p \<and>
     ord_status row \<noteq> BOOKED \<and> orders d' = (orders d)(oc_holdId p \<mapsto> row\<lparr>ord_status := BOOKED\<rparr>)"

lemma order_settled_settles:
  assumes "order_settled seats orders p d d'"
    and "\<exists>row. orders d (oc_holdId p) = Some row \<and> ord_seatId row = oc_seatId p \<and> ord_eventId row = oc_eventId p"
  shows "\<exists>s row. settles seats orders p s row d d'"
  using assms by (fastforce simp: order_settled_def settles_def)

lemma settles_others:
  assumes "settles seats orders p s row d d'" and "booked_sold seats orders d"
    and "orders d' h = Some r" and "ord_status r = BOOKED" and "h \<noteq> oc_holdId p"
  shows "orders d h = Some r \<and> ord_seatId r \<noteq> oc_seatId p"
proof -
  have h: "orders d h = Some r" using assms by (simp add: settles_def)
  with assms(2,4) obtain s0 where "seats d (ord_seatId r) = Some s0" "seat_status s0 = SOLD"
    unfolding booked_sold_def by blast
  with assms(1) h show ?thesis by (auto simp: settles_def)
qed

lemma settles_sold:
  assumes s: "settles seats orders p s row d d'" and b: "booked_sold seats orders d"
  shows "booked_sold seats orders d'"
  unfolding booked_sold_def
proof (intro allI impI)
  fix h r
  assume r: "orders d' h = Some r" "ord_status r = BOOKED"
  show "\<exists>s. seats d' (ord_seatId r) = Some s \<and> seat_eventId s = ord_eventId r \<and> seat_status s = SOLD"
  proof (cases "h = oc_holdId p")
    case True
    with r(1) s have "r = row\<lparr>ord_status := BOOKED\<rparr>" by (simp add: settles_def)
    with s show ?thesis by (simp add: settles_def)
  next
    case False
    from settles_others [OF s b r False] obtain s0 where "seats d (ord_seatId r) = Some s0" "seat_eventId s0 = ord_eventId r"
      "seat_status s0 = SOLD" using b r(2) unfolding booked_sold_def by metis
    with settles_others [OF s b r False] s show ?thesis by (simp add: settles_def)
  qed
qed

lemma settles_once:
  assumes s: "settles seats orders p s row d d'" and b: "booked_sold seats orders d" "booked_once orders d"
  shows "booked_once orders d'"
  unfolding booked_once_def
proof (intro allI impI)
  fix h h' r r'
  assume r: "orders d' h = Some r" "orders d' h' = Some r'" "ord_status r = BOOKED" "ord_status r' = BOOKED"
    and same: "ord_seatId r = ord_seatId r'"
  note old = settles_others [OF s b(1)]
  have new: "ord_seatId q = oc_seatId p" if "orders d' (oc_holdId p) = Some q" for q
    using that s by (auto simp: settles_def)
  show "h = h'"
  proof (cases "h = oc_holdId p \<or> h' = oc_holdId p")
    case True
    then show ?thesis using old new r same by metis
  next
    case False
    then have "orders d h = Some r" "orders d h' = Some r'" using old r by auto
    with b(2) r same show ?thesis unfolding booked_once_def by blast
  qed
qed

lemma order_settled_progress:
  assumes settled: "order_settled seats orders p (w_db w) d'"
    and match: "\<exists>row. orders (w_db w) (oc_holdId p) = Some row \<and> ord_seatId row = oc_seatId p \<and> ord_eventId row = oc_eventId p"
  shows "progress seats orders entries undelivered pending w (w\<lparr>w_db := d'\<rparr>)"
proof (rule progress_database)
  obtain s row where t: "settles seats orders p s row (w_db w) d'" using order_settled_settles [OF assms] by blast
  note f = t [unfolded settles_def]
  show "booking_step\<^sup>=\<^sup>= (booking_of seats orders (w_db w)) (booking_of seats orders d')"
    using table_book [of seats "w_db w" "oc_seatId p" s d' orders "oc_holdId p" row] f by simp
  show "seats_progress seats (w_db w) d'" using seat_move_progress [of seats "w_db w" "oc_seatId p" s d'] f by simp
  show "orders_progress orders (w_db w) d'" using f by (auto simp: orders_progress_def)
  show "booked_sold seats orders d' \<and> booked_once orders d'"
    if "booked_sold seats orders (w_db w)" "booked_once orders (w_db w)"
    using settles_sold [OF t] settles_once [OF t] that by blast
qed

section \<open>Every operation keeps to progress\<close>

text \<open>A message that was read from the stream.\<close>

definition from_stream :: "('r \<Rightarrow> stream_entry list) \<Rightarrow> RedisStreamMessage \<Rightarrow> ('r, 'd) world \<Rightarrow> bool" where
  "from_stream entries m w \<longleftrightarrow> (\<exists>e \<in> set (entries (w_redis w)). m = toMessage (flat_entry e))"

definition all_from_stream :: "('r \<Rightarrow> stream_entry list) \<Rightarrow> RedisStreamMessage list \<Rightarrow> ('r, 'd) world \<Rightarrow> bool" where
  "all_from_stream es ms w \<longleftrightarrow> (\<forall>i < length ms. from_stream es (ms ! i) w)"

lemma all_from_streamI: "(\<And>m. m \<in> set ms \<Longrightarrow> from_stream es m w) \<Longrightarrow> all_from_stream es ms w"
  by (simp add: all_from_stream_def)

lemma all_from_stream_append:
  "all_from_stream es ms w \<Longrightarrow> all_from_stream es ns w \<Longrightarrow> all_from_stream es (ms @ ns) w"
  by (auto simp: all_from_stream_def nth_append)

lemma messages_from_stream:
  assumes "set batch \<subseteq> flat_entry ` set (es (w_redis w))"
  shows "all_from_stream es (map toMessage batch) w"
proof (rule all_from_streamI)
  fix m
  assume "m \<in> set (map toMessage batch)"
  then obtain b where "b \<in> set batch" and m: "m = toMessage b" by auto
  with assms obtain e where "e \<in> set (es (w_redis w))" "b = flat_entry e" by blast
  with m show "from_stream es m w" by (auto simp: from_stream_def)
qed

text \<open>The order a stream entry is about exists, for that seat.\<close>

definition order_of :: "('d \<Rightarrow> string \<Rightarrow> order_row option) \<Rightarrow> string \<Rightarrow> string \<Rightarrow> string \<Rightarrow> ('r, 'd) world \<Rightarrow> bool" where
  "order_of orders hold sid ev w \<longleftrightarrow>
     (\<exists>row. orders (w_db w) hold = Some row \<and> ord_seatId row = sid \<and> ord_eventId row = ev)"

lemma batch_of_entries: "set (batch_of es ids) \<subseteq> flat_entry ` set es"
  by (auto simp: batch_of_def)

context engine begin

abbreviation prog :: "('r, 'd) world \<Rightarrow> ('r, 'd) world \<Rightarrow> bool" where
  "prog \<equiv> progress seats orders entries undelivered pending"

abbreviation cons :: "('r, 'd) world \<Rightarrow> bool" where
  "cons \<equiv> consistent seats orders entries undelivered pending"

abbreviation away :: "('r, 'd) world \<Rightarrow> ('r, 'd) world \<Rightarrow> bool" where
  "away \<equiv> elsewhere entries undelivered pending"

lemma same_views_progress:
  "w_db w' = w_db w \<Longrightarrow> entries (w_redis w') = entries (w_redis w) \<Longrightarrow> undelivered (w_redis w') = undelivered (w_redis w) \<Longrightarrow>
    pending (w_redis w') = pending (w_redis w) \<Longrightarrow> w_digests w' = w_digests w \<Longrightarrow> prog w w'"
  by (rule elsewhere_progress) (simp add: elsewhere_def)

lemma away_refl [simp]: "away w w"
  by (simp add: elsewhere_def)

lemma prog_refl [simp]: "prog w w"
  by (simp add: same_views_progress)

lemma same_back_end_progress: "same_back_end S pttl entries undelivered pending w w' \<Longrightarrow> prog w w'"
  by (rule same_views_progress) (auto simp: same_back_end_def)

text \<open>What only touches the rest of the world.\<close>

lemma away_redis_do:
  assumes "\<And>r r' x. c r = (r', x) \<Longrightarrow> entries r' = entries r \<and> undelivered r' = undelivered r \<and> pending r' = pending r"
  shows "moves away (redis_do c)"
  unfolding redis_do_def
proof (rule moves_atomic)
  fix w :: "('r, 'd) world"
  obtain r' x where "c (w_redis w) = (r', x)" by force
  with assms [OF this] show "away w (fst (case c (w_redis w) of (r, x) \<Rightarrow> (w\<lparr>w_redis := r\<rparr>, x)))"
    by (simp add: elsewhere_def)
qed

lemma away_db_read: "moves away (db_read c)"
  unfolding db_read_def by (rule moves_atomic) simp

lemma away_Date_now: "moves away Date_now"
  unfolding Date_now_def by (rule moves_reads) simp

lemma away_adapter_publish: "moves away (adapter_publishSeatEvent svc event)"
  unfolding adapter_publishSeatEvent_def
proof (rule moves_atomic)
  fix w
  show "away w (fst (if \<not> w_adapter_connected w then (w, Inl not_connected)
       else (let message = stringify (seat_event_json event)
          in case c_publish (redis svc) WS_SEAT_EVENTS_CHANNEL message (w_redis w) of
               (r, Inl e) \<Rightarrow> (w\<lparr>w_redis := r\<rparr>, Inl e)
             | (r, Inr _) \<Rightarrow>
                 (w\<lparr>w_redis := r, w_sent := w_sent w @ [(WS_SEAT_EVENTS_CHANNEL, message)]\<rparr>, Inr ()))))"
    using publish_remote
    by (auto simp: Let_def elsewhere_def split: prod.split sum.split simp del: stringify.simps)
qed

lemma away_publish: "moves away (publishSeatEvent svc event)"
  unfolding publishSeatEvent_def by (intro moves_intros away_adapter_publish)

lemma away_open_seat: "moves away (open_seat svc rq)"
  unfolding open_seat_def
  by (rule moves_await [OF away_db_read]) (auto intro: moves_intros split: option.split prod.split list.split)

lemma away_answer_hold: "moves away (answer_hold svc i rq ex)"
  unfolding answer_hold_def Let_def by (auto intro!: moves_intros away_Date_now away_publish)

lemma moves_away: "moves away p \<Longrightarrow> moves prog p"
  by (erule moves_mono) (rule elsewhere_progress)

lemmas moves_redis_do = away_redis_do [THEN moves_away]
  and moves_db_read = away_db_read [THEN moves_away]
  and moves_Date_now = away_Date_now [THEN moves_away]
  and moves_adapter_publish = away_adapter_publish [THEN moves_away]
  and moves_publish = away_publish [THEN moves_away]
  and moves_open_seat = away_open_seat [THEN moves_away]
  and moves_answer_hold = away_answer_hold [THEN moves_away]

lemma moves_reopen:
  fixes rq :: HoldSeatRequest
  shows "moves prog (db_do (pc_seat_updateMany (prisma svc) (rq_seatId rq) (rq_eventId rq) HELD AVAILABLE))"
  unfolding db_do_def
proof (rule moves_atomic)
  fix w :: "('r, 'd) world"
  obtain d x where u: "pc_seat_updateMany (prisma svc) (rq_seatId rq) (rq_eventId rq) HELD AVAILABLE (w_db w) = (d, x)"
    by force
  show "prog w (fst (case pc_seat_updateMany (prisma svc) (rq_seatId rq) (rq_eventId rq) HELD AVAILABLE (w_db w) of
      (d, x) \<Rightarrow> (w\<lparr>w_db := d\<rparr>, x)))"
  proof (cases x)
    case (Inl e)
    with seat_update_fail [OF u [unfolded Inl]] u show ?thesis by (simp add: same_views_progress)
  next
    case (Inr n)
    have "seat_reopened seats orders rq (w_db w) d"
      using seat_update [OF u [unfolded Inr]] by (auto simp: seat_reopened_def split: option.splits if_splits)
    with u seat_reopened_progress show ?thesis by simp
  qed
qed

text \<open>The scripts on a seat key leave stream and database alone.\<close>

lemma stable_registered: "stable prog (registered svc sha1)"
  by (rule stableI) (simp add: registered_def progress_def)

lemma script_frame:
  assumes "nm = atomicSeatLock \<or> nm = releaseSeatScript"
  shows "entries (fst (lua_script S nm [seatLockKey ev sid] args r)) = entries r \<and>
    undelivered (fst (lua_script S nm [seatLockKey ev sid] args r)) = undelivered r \<and>
    pending (fst (lua_script S nm [seatLockKey ev sid] args r)) = pending r"
proof -
  let ?k = "seatLockKey ev sid"
  have a: "fst (atomic_seat_lock S [?k] args r) = r \<or> (\<exists>v t. fst (atomic_seat_lock S [?k] args r) = SET_EX S ?k v t r)"
    by (cases "(S, [?k], args, r)" rule: atomic_seat_lock.cases) (auto simp: Let_def split: option.split sum.split)
  have b: "fst (release_seat S [?k] args r) = r \<or> fst (release_seat S [?k] args r) = fst (DEL S ?k r)"
    by (cases "(S, [?k], args, r)" rule: release_seat.cases) (auto split: option.split sum.split prod.split)
  have "\<exists>r1. fst (lua_script S nm [?k] args r) = r1 \<and>
      (r1 = r \<or> (\<exists>v t. r1 = SET_EX S ?k v t r) \<or> r1 = fst (DEL S ?k r))"
    using assms
  proof
    assume "nm = atomicSeatLock"
    with a show ?thesis unfolding \<open>nm = _\<close> lua_script.simps by blast
  next
    assume "nm = releaseSeatScript"
    with b show ?thesis unfolding \<open>nm = _\<close> lua_script.simps by blast
  qed
  then obtain r1 where r1: "fst (lua_script S nm [?k] args r) = r1"
    and c: "r1 = r \<or> (\<exists>v t. r1 = SET_EX S ?k v t r) \<or> r1 = fst (DEL S ?k r)" by blast
  obtain r2 n where d: "DEL S ?k r = (r2, n)" by force
  from c show ?thesis
    unfolding r1
    using set_ex_streams [OF seatLockKey_not_stream] del_streams [OF seatLockKey_not_stream d] d by auto
qed

abbreviation ok :: "(('r, 'd) world \<Rightarrow> bool) \<Rightarrow> (('r, 'd) world, 'a) proc \<Rightarrow> bool" where
  "ok A p \<equiv> rg prog prog (\<lambda>_ _. True) (\<lambda>_ _. True) A p"

lemma ok_moves: "moves prog p \<Longrightarrow> stable prog A \<Longrightarrow> ok A p"
  by (rule rg_weaken [OF moves_rg]) auto

lemma ok_await: "rg prog prog (\<lambda>_. A) (\<lambda>_ _. True) A p \<Longrightarrow> (\<And>x. ok A (k x)) \<Longrightarrow> ok A (await p k)"
  by (rule rg_await)

lemma ok_await_moves: "moves prog p \<Longrightarrow> stable prog A \<Longrightarrow> (\<And>x. ok A (k x)) \<Longrightarrow> ok A (await p k)"
  by (rule ok_await, rule rg_weaken [OF moves_rg]) auto

text \<open>What holds before a function that is fine still holds after it.\<close>

lemma ok_keeps: "ok A p \<Longrightarrow> rg prog prog (\<lambda>_. A) (\<lambda>_. A) A p"
proof -
  assume p: "ok A p"
  from rg_frame [OF p rg_stable [OF p]] show ?thesis by simp
qed

lemma ok_Ret: "stable prog A \<Longrightarrow> ok A (Ret a)"
  by (rule rg.rg_Ret) auto

lemma ok_Throw: "stable prog A \<Longrightarrow> ok A (Throw e)"
  by (rule rg.rg_Throw) auto

text \<open>One script on a seat key, by digest or by text, only touches that key.\<close>

abbreviation quietly :: "(('r, 'd) world \<Rightarrow> bool) \<Rightarrow> (('r, 'd) world, 'a) proc \<Rightarrow> bool" where
  "quietly A p \<equiv> rg prog away (\<lambda>_ _. True) (\<lambda>_ _. True) A p"

lemma ok_quietly: "quietly A p \<Longrightarrow> ok A p"
  by (erule rg_weaken) (auto intro: elsewhere_progress)

lemma quietly_moves: "moves away p \<Longrightarrow> stable prog A \<Longrightarrow> quietly A p"
  by (rule rg_weaken [OF moves_keep [where H = away and G = away and A = A and R = prog]])
     (auto simp: stable_def intro: elsewhere_progress)

lemma script_digest:
  "rg prog away (\<lambda>d w. registered svc sha1 w \<and> (\<exists>src. scriptFile svc nm = Inr src \<and> d = sha1 src)) (\<lambda>_. registered svc sha1)
     (registered svc sha1) (getLuaScriptDigest nm)"
  unfolding getLuaScriptDigest_def
proof (rule rg_atomic, goal_cases)
  case (2 w w' d)
  then show ?case by (auto simp: registered_def split: option.splits)
      (metis option.inject option.distinct(1))
next
  case (3 w w' e)
  then show ?case by (auto split: option.splits)
qed (auto intro!: stable_intros stable_registered)

lemma script_evalsha:
  assumes "nm = atomicSeatLock \<or> nm = releaseSeatScript" and "scriptFile svc nm = Inr src"
  shows "moves away (redis_do (c_evalsha (redis svc) (sha1 src) [seatLockKey ev sid] args))"
proof (rule away_redis_do)
  fix r r' x
  assume c: "c_evalsha (redis svc) (sha1 src) [seatLockKey ev sid] args r = (r', x)"
  have "r' = r \<or> r' = fst (lua_script S nm [seatLockKey ev sid] args r)"
    using evalsha_remote [OF assms(2), of r "[seatLockKey ev sid]" args] c delivers_state by fastforce
  with script_frame [OF assms(1)] show "entries r' = entries r \<and> undelivered r' = undelivered r \<and> pending r' = pending r"
    by auto
qed

lemma script_eval:
  assumes "nm = atomicSeatLock \<or> nm = releaseSeatScript" and "scriptFile svc nm = Inr src"
  shows "moves away (redis_do (c_eval (redis svc) src [seatLockKey ev sid] args))"
proof (rule away_redis_do)
  fix r r' x
  assume c: "c_eval (redis svc) src [seatLockKey ev sid] args r = (r', x)"
  have "r' = r \<or> r' = fst (lua_script S nm [seatLockKey ev sid] args r)"
    using eval_remote [OF assms(2), of r "[seatLockKey ev sid]" args] c delivers_state by fastforce
  with script_frame [OF assms(1)] show "entries r' = entries r \<and> undelivered r' = undelivered r \<and> pending r' = pending r"
    by auto
qed

lemma script_by_digest:
  assumes "nm = atomicSeatLock \<or> nm = releaseSeatScript" and "\<And>x. moves away (k x)"
  shows "rg prog away (\<lambda>_ _. True) (\<lambda>_. registered svc sha1) (registered svc sha1)
    (await (getLuaScriptDigest nm) (\<lambda>d. await (redis_do (c_evalsha (redis svc) d [seatLockKey ev sid] args)) k))"
proof (rule rg_await [OF script_digest])
  fix d
  let ?A = "\<lambda>w. registered svc sha1 w \<and> (\<exists>src. scriptFile svc nm = Inr src \<and> d = sha1 src)"
  let ?p = "await (redis_do (c_evalsha (redis svc) d [seatLockKey ev sid] args)) k"
  show "rg prog away (\<lambda>_ _. True) (\<lambda>_. registered svc sha1) ?A ?p"
  proof (cases "\<exists>src. scriptFile svc nm = Inr src \<and> d = sha1 src")
    case True
    then obtain src where src: "scriptFile svc nm = Inr src" "d = sha1 src" by blast
    have "moves away ?p" unfolding src(2) by (intro moves_await script_evalsha [OF assms(1) src(1)] assms(2))
    from moves_keep [OF this stable_registered stable_antimono [OF stable_registered elsewhere_progress]] show ?thesis
      by (rule rg_conseq [OF rg_weaken]) (auto intro!: stable_intros stable_registered)
  next
    case False
    have "rg prog away (\<lambda>_ _. True) (\<lambda>_. registered svc sha1) (\<lambda>_. False) ?p" by (rule rg_False)
    then show ?thesis by (rule rg_conseq) (use False in \<open>auto intro!: stable_intros stable_registered\<close>)
  qed
qed

lemma script_quietly:
  assumes nm: "nm = atomicSeatLock \<or> nm = releaseSeatScript" and k: "\<And>x. moves away (k x)"
  shows "quietly (registered svc sha1)
    (catch (await (getLuaScriptDigest nm) (\<lambda>d. await (redis_do (c_evalsha (redis svc) d [seatLockKey ev sid] args)) k))
       (\<lambda>error. if \<not> isNoscriptError error then Throw error
          else await (getLuaScriptSource svc nm) (\<lambda>source.
               await (redis_do (c_eval (redis svc) source [seatLockKey ev sid] args)) k)))"
proof (rule rg_catch [OF script_by_digest [OF nm k]])
  fix e
  have "moves away (await (getLuaScriptSource svc nm) (\<lambda>source.
      await (redis_do (c_eval (redis svc) source [seatLockKey ev sid] args)) k))"
    using script_eval [OF nm] k
    by (cases "scriptFile svc nm") (auto simp: getLuaScriptSource_def sync_def rethrow_def intro!: moves_intros)
  then show "quietly (registered svc sha1) (if \<not> isNoscriptError e then Throw e
          else await (getLuaScriptSource svc nm) (\<lambda>source.
               await (redis_do (c_eval (redis svc) source [seatLockKey ev sid] args)) k))"
    by (auto intro: quietly_moves rg.rg_Throw stable_registered)
qed

lemma acquire_quietly: "quietly (registered svc sha1) (acquireSeatHold svc h ev sid user ttl)"
  unfolding acquireSeatHold_def Let_def
  by (rule script_quietly) (auto intro!: moves_intros away_Date_now)

lemma release_quietly: "quietly (registered svc sha1) (releaseSeatHold svc ev sid user h)"
  unfolding releaseSeatHold_def Let_def
  by (rule script_quietly) (auto intro!: moves_intros)

lemmas ok_acquire = acquire_quietly [THEN ok_quietly]
  and ok_release = release_quietly [THEN ok_quietly]

lemma ok_after_acquire:
  "(\<And>x. ok (registered svc sha1) (k x)) \<Longrightarrow> ok (registered svc sha1) (await (acquireSeatHold svc h ev sid user ttl) k)"
  by (rule ok_await [OF rg_weaken [OF ok_keeps [OF ok_acquire]]]) auto

lemma ok_after_release:
  "(\<And>x. ok (registered svc sha1) (k x)) \<Longrightarrow> ok (registered svc sha1) (await (releaseSeatHold svc ev sid user h) k)"
  by (rule ok_await [OF rg_weaken [OF ok_keeps [OF ok_release]]]) auto

lemma ok_after_sync: "stable prog A \<Longrightarrow> (\<And>x. ok A (k x)) \<Longrightarrow> ok A (await (sync r) k)"
  by (rule ok_await_moves [OF moves_sync])

lemma ok_after_open_seat: "stable prog A \<Longrightarrow> (\<And>x. ok A (k x)) \<Longrightarrow> ok A (await (open_seat svc rq) k)"
  by (rule ok_await_moves [OF moves_open_seat])

lemma ok_holdSeat: "ok (registered svc sha1) (holdSeat svc uuid payload)"
  unfolding holdSeat_def
  by (intro ok_after_sync ok_after_open_seat ok_after_acquire stable_registered ok_moves [OF moves_answer_hold])

section \<open>Orders\<close>

lemma stable_order_of: "stable prog (order_of orders h sid ev)"
proof (rule stableI)
  fix w w'
  assume "order_of orders h sid ev w" and p: "prog w w'"
  then obtain row where row: "orders (w_db w) h = Some row" "ord_seatId row = sid" "ord_eventId row = ev"
    by (auto simp: order_of_def)
  from p have "orders_progress orders (w_db w) (w_db w')" by (simp add: progress_def)
  from orders_progressE [OF this row(1)] row(2,3) show "order_of orders h sid ev w'"
    by (auto simp: order_of_def)
qed

lemma rg_transaction:
  "rg prog prog (\<lambda>row. order_of orders (se_holdId ex) (rq_seatId rq) (rq_eventId rq)) (\<lambda>_ _. True) (\<lambda>_. True)
    (db_do (pc_transaction_order (prisma svc) (create_order_transaction (prisma svc) rq ex)))"
  unfolding db_do_def
proof (rule rg_atomic, goal_cases)
  case (2 w w' row)
  then obtain d where tx: "pc_transaction_order (prisma svc) (create_order_transaction (prisma svc) rq ex) (w_db w) = (d, Inr row)"
    and w': "w' = w\<lparr>w_db := d\<rparr>" by (auto split: prod.splits)
  note placed = create_order_committed [OF tx]
  then have "order_of orders (se_holdId ex) (rq_seatId rq) (rq_eventId rq) w'"
    unfolding w' by (auto simp: order_of_def order_placed_def order_data.truncate_def)
  with order_placed_progress [OF placed] w' show ?case by simp
next
  case (3 w w' e)
  then obtain d where tx: "pc_transaction_order (prisma svc) (create_order_transaction (prisma svc) rq ex) (w_db w) = (d, Inl e)"
    and w': "w' = w\<lparr>w_db := d\<rparr>" by (auto split: prod.splits)
  with create_order_rejected [OF tx] show ?case by simp
qed (auto intro: stable_order_of)

lemma entry_payload_order: "entry_payload (i, order_fields a now p) = Some p"
  by (simp add: entry_payload_def order_message_supported order_message_parses)

lemma stream_appended_progress:
  assumes app: "stream_appended entries undelivered (order_fields a now p) (w_redis w) r'"
    and pend: "pending r' = pending (w_redis w)" and ord: "order_of orders (oc_holdId p) (oc_seatId p) (oc_eventId p) w"
  shows "prog w (w\<lparr>w_redis := r'\<rparr>)"
proof -
  from app obtain i where i: "i \<notin> fst ` set (entries (w_redis w))"
    and es: "entries r' = entries (w_redis w) @ [(i, order_fields a now p)]"
    and u: "undelivered r' = map_option (\<lambda>u. u @ [i]) (undelivered (w_redis w))"
    by (auto simp: stream_appended_def)
  have "entries_match orders (entries r') (w_db w)" if "entries_match orders (entries (w_redis w)) (w_db w)"
    using that ord unfolding es by (auto simp: entries_match_def entry_payload_order order_of_def)
  moreover have "none_lost orders (entries r') (undelivered r') (pending r') (w_db w)"
    if "none_lost orders (entries (w_redis w)) (undelivered (w_redis w)) (pending (w_redis w)) (w_db w)"
    using that i unfolding es u pend by (auto simp: none_lost_def)
  ultimately show ?thesis by (simp add: progress_def consistent_def es)
qed

lemma rg_xadd:
  "ok (order_of orders (oc_holdId p) (oc_seatId p) (oc_eventId p))
    (redis_do (c_xadd (redis svc) ORDER_STREAM_KEY (order_fields a now p)))"
  unfolding redis_do_def
proof (rule rg_atomic, goal_cases)
  case (2 w w' j)
  then obtain r where x: "c_xadd (redis svc) ORDER_STREAM_KEY (order_fields a now p) (w_redis w) = (r, Inr j)"
    and w': "w' = w\<lparr>w_redis := r\<rparr>" by (auto split: prod.splits)
  from xadd_remote [OF x] stream_appended_progress [OF _ _ 2(1)] show ?case
    unfolding w' by (auto simp: stream_appended_def)
next
  case (3 w w' e)
  then obtain r where x: "c_xadd (redis svc) ORDER_STREAM_KEY (order_fields a now p) (w_redis w) = (r, Inl e)"
    and w': "w' = w\<lparr>w_redis := r\<rparr>" by (auto split: prod.splits)
  note xr = xadd_remote [OF x]
  show ?case
  proof (cases "entries r = entries (w_redis w) \<and> undelivered r = undelivered (w_redis w)")
    case True
    with xr show ?thesis unfolding w' by (auto intro: same_views_progress)
  next
    case False
    with xr have "stream_appended entries undelivered (order_fields a now p) (w_redis w) r"
      by (auto simp: stream_appended_def)
    with xr stream_appended_progress [OF _ _ 3(1)] show ?thesis unfolding w' by auto
  qed
qed (auto intro: stable_order_of)

lemma ok_place_order: "ok (\<lambda>_. True) (place_order svc uuid rq ex)"
  unfolding place_order_def
proof (rule rg_await [OF rg_transaction])
  fix row
  let ?O = "order_of orders (se_holdId ex) (rq_seatId rq) (rq_eventId rq)"
  show "ok ?O
    (await Date_now (\<lambda>now1.
     await (publishSeatEvent svc (seat_event (uuid 1) now1 (se_holdId ex)
              (Held (rq_eventId rq) (rq_seatId rq) (se_holdId ex) (toISOString (se_expiresAt ex))))) (\<lambda>_.
     await Date_now (\<lambda>now2.
     await (redis_do (c_xadd (redis svc) ORDER_STREAM_KEY
              (order_fields (uuid 2) now2 (order_payload rq ex row)))) (\<lambda>_.
     Ret \<lparr>co_orderId = ord_id row\<rparr>)))))"
  proof (rule ok_await_moves [OF moves_Date_now stable_order_of], rule ok_await_moves [OF moves_publish stable_order_of],
      rule ok_await_moves [OF moves_Date_now stable_order_of])
    fix now2
    have "ok ?O (redis_do (c_xadd (redis svc) ORDER_STREAM_KEY (order_fields (uuid 2) now2 (order_payload rq ex row))))"
      using rg_xadd [of "order_payload rq ex row"] by (simp add: order_payload_def)
    from rg_weaken [OF ok_keeps [OF this]]
    show "ok ?O (await (redis_do (c_xadd (redis svc) ORDER_STREAM_KEY
              (order_fields (uuid 2) now2 (order_payload rq ex row)))) (\<lambda>_. Ret \<lparr>co_orderId = ord_id row\<rparr>))"
      by (rule ok_await) (auto intro: ok_Ret stable_order_of)
  qed
qed

lemma ok_createOrder: "ok (registered svc sha1) (createOrder svc uuid payload)"
  unfolding createOrder_def
proof (intro ok_after_sync ok_after_open_seat ok_after_acquire stable_registered)
  fix rq ex
  show "ok (registered svc sha1) (if se_result ex \<noteq> RInt 1
      then Throw (ConflictError ''Seat is currently unavailable or already held'') else place_order svc uuid rq ex)"
    using rg_conseq [OF ok_place_order stable_registered] by (auto intro: ok_Throw stable_registered)
qed

lemma ok_releaseSeat: "ok (registered svc sha1) (releaseSeat svc uuid payload)"
proof -
  have tail: "moves prog
      (await (db_do (pc_seat_updateMany (prisma svc) (rq_seatId rq) (rq_eventId rq) HELD AVAILABLE)) (\<lambda>_.
       await Date_now (\<lambda>now.
       await (publishSeatEvent svc (seat_event (uuid 0) now (pl_holdId payload)
                (Released (rq_eventId rq) (rq_seatId rq) (pl_holdId payload) ''released''))) (\<lambda>_.
       Ret \<lparr>rel_eventId = rq_eventId rq, rel_seatId = rq_seatId rq, rel_holdId = pl_holdId payload\<rparr>))))" for rq :: HoldSeatRequest
    by (intro moves_await moves_reopen moves_Date_now moves_publish moves_Ret)
  have read: "\<And>k f. (\<And>x. ok (registered svc sha1) (k x)) \<Longrightarrow> ok (registered svc sha1) (await (db_read f) k)"
    by (rule ok_await_moves [OF moves_db_read stable_registered])
  show ?thesis
    unfolding releaseSeat_def
    by (intro ok_after_sync stable_registered)
       (auto intro!: read ok_after_release ok_Throw stable_registered ok_moves [OF tail])
qed

section \<open>The worker\<close>

lemma stable_from_stream: "stable prog (from_stream entries m)"
  by (rule stableI) (auto simp: from_stream_def progress_def)

lemma stable_booked: "stable prog (\<lambda>w. booked orders h (w_db w))"
  by (rule stableI) (auto simp: progress_def intro: orders_progress_booked)

lemma from_stream_match:
  assumes "cons w" and "from_stream entries m w" and "supported m" and "parsePayload m = Inr p"
  shows "\<exists>row. orders (w_db w) (oc_holdId p) = Some row \<and> ord_seatId row = oc_seatId p \<and> ord_eventId row = oc_eventId p"
proof -
  from assms(2) obtain e where e: "e \<in> set (entries (w_redis w))" "m = toMessage (flat_entry e)"
    by (auto simp: from_stream_def)
  with assms(3,4) have "entry_payload e = Some p" by (simp add: entry_payload_def)
  with e(1) assms(1) show ?thesis by (auto simp: consistent_def entries_match_def)
qed

lemma seats_order_settled_progress:
  "order_settled seats orders p d d' \<Longrightarrow> seats_progress seats d d' \<and> orders_progress orders d d'"
  by (auto simp: order_settled_def orders_progress_def intro: seat_move_progress)

lemma rg_settleOrder:
  assumes "supported m" and "parsePayload m = Inr p"
  shows "rg prog prog (\<lambda>_ w. booked orders (oc_holdId p) (w_db w)) (\<lambda>_ _. True) (from_stream entries m) (settleOrder svc p)"
  unfolding settleOrder_def db_do_def
proof (rule rg_atomic, goal_cases)
  case (2 w w' u)
  then obtain d where tx: "pc_transaction_void (prisma svc) (settle_transaction (prisma svc) p) (w_db w) = (d, Inr ())"
    and w': "w' = w\<lparr>w_db := d\<rparr>" by (auto split: prod.splits)
  from settle_transaction_commits [OF tx] show ?case
  proof
    assume "booked orders (oc_holdId p) (w_db w) \<and> d = w_db w"
    with w' show ?thesis by simp
  next
    assume s: "order_settled seats orders p (w_db w) d"
    have "prog w w'"
    proof (cases "cons w")
      case True
      from order_settled_progress [OF s from_stream_match [OF True 2(1) assms]] w' show ?thesis by simp
    next
      case False
      with seats_order_settled_progress [OF s] w' show ?thesis by (simp add: progress_def)
    qed
    with order_settled_booked [OF s] w' show ?thesis by simp
  qed
next
  case (3 w w' e)
  then obtain d where tx: "pc_transaction_void (prisma svc) (settle_transaction (prisma svc) p) (w_db w) = (d, Inl e)"
    and w': "w' = w\<lparr>w_db := d\<rparr>" by (auto split: prod.splits)
  with settle_transaction_rejects [OF tx] show ?case by simp
qed (auto intro: stable_from_stream stable_booked)

lemma moves_publish_booked: "moves prog (publish_booked svc i p)"
  unfolding publish_booked_def by (intro moves_intros moves_Date_now moves_adapter_publish)

text \<open>An acknowledgement removes from the pending list an id whose entry is settled.\<close>

lemma acked_progress:
  assumes m: "from_stream entries m w" "supported m" "parsePayload m = Inr p" and b: "booked orders (oc_holdId p) (w_db w)"
    and r: "entries r = entries (w_redis w)" "undelivered r = undelivered (w_redis w)"
      "pending r = pending (w_redis w) - {msg_id m} \<or> pending r = pending (w_redis w)"
  shows "prog w (w\<lparr>w_redis := r\<rparr>)"
proof -
  from m(1) obtain e where e: "e \<in> set (entries (w_redis w))" "m = toMessage (flat_entry e)"
    by (auto simp: from_stream_def)
  then have settled: "entry_settled orders (w_db w) e" using m b by (auto simp: entry_settled_def entry_payload_def)
  have "none_lost orders (entries r) (undelivered r) (pending r) (w_db w)"
    if n: "none_lost orders (entries (w_redis w)) (undelivered (w_redis w)) (pending (w_redis w)) (w_db w)"
  proof -
    from n obtain u where u: "undelivered (w_redis w) = Some u" and d: "distinct (map fst (entries (w_redis w)))"
      and all: "\<forall>e \<in> set (entries (w_redis w)). fst e \<in> set u \<or> fst e \<in> pending (w_redis w) \<or> entry_settled orders (w_db w) e"
      by (auto simp: none_lost_def)
    have same: "e' = e" if "e' \<in> set (entries (w_redis w))" "fst e' = fst e" for e'
      using that e(1) d by (metis inj_on_def distinct_map)
    have "fst e' \<in> set u \<or> fst e' \<in> pending r \<or> entry_settled orders (w_db w) e'"
      if "e' \<in> set (entries (w_redis w))" for e'
    proof (cases "fst e' = fst e")
      case True
      with same [OF that True] settled show ?thesis by simp
    next
      case False
      with all that r(3) e(2) show ?thesis by auto
    qed
    with u d r show ?thesis by (auto simp: none_lost_def)
  qed
  with r show ?thesis by (simp add: progress_def consistent_def)
qed

lemma rg_xack:
  assumes "supported m" and "parsePayload m = Inr p"
  shows "ok (\<lambda>w. booked orders (oc_holdId p) (w_db w) \<and> from_stream entries m w)
    (redis_do (c_xack (redis svc) ORDER_STREAM_KEY ORDER_CONSUMER_GROUP (msg_id m)))"
  unfolding redis_do_def
proof (rule rg_atomic, goal_cases)
  case (2 w w' n)
  then obtain r where x: "c_xack (redis svc) ORDER_STREAM_KEY ORDER_CONSUMER_GROUP (msg_id m) (w_redis w) = (r, Inr n)"
    and w': "w' = w\<lparr>w_redis := r\<rparr>" by (auto split: prod.splits)
  from xack_remote [OF x] acked_progress [OF _ assms, of w r] 2(1) w' show ?case by auto
next
  case (3 w w' e)
  then obtain r where x: "c_xack (redis svc) ORDER_STREAM_KEY ORDER_CONSUMER_GROUP (msg_id m) (w_redis w) = (r, Inl e)"
    and w': "w' = w\<lparr>w_redis := r\<rparr>" by (auto split: prod.splits)
  from xack_remote [OF x] acked_progress [OF _ assms, of w r] 3(1) w' show ?case by auto
qed (auto intro!: stable_conj stable_from_stream stable_booked)

lemma ok_processMessage: "ok (from_stream entries m) (processMessage svc i m)"
  unfolding processMessage_def
proof (rule rg_catch)
  fix e
  show "rg prog prog (\<lambda>_ _. True) (\<lambda>_ _. True) (\<lambda>_. True) (Ret ())" by (rule rg.rg_Ret) auto
next
  let ?T = "\<lambda>_ _. True"
  show "rg prog prog ?T ?T (from_stream entries m)
     (if \<not> supported m then Throw (JsError (''Unsupported order event: '' @ msg_id m))
      else await (sync (parsePayload m)) (\<lambda>payload.
           await (settleOrder svc payload) (\<lambda>_.
           await (publish_booked svc i payload) (\<lambda>_.
           await (redis_do (c_xack (redis svc) ORDER_STREAM_KEY ORDER_CONSUMER_GROUP (msg_id m))) (\<lambda>_.
           Ret ())))))"
  proof (cases "supported m")
    case False
    then show ?thesis by (simp add: ok_Throw stable_from_stream)
  next
    case sup: True
    show ?thesis
    proof (cases "parsePayload m")
      case (Inl e)
      with sup show ?thesis by (simp add: sync_def rethrow_def ok_Throw stable_from_stream)
    next
      case (Inr p)
      let ?B = "\<lambda>w. booked orders (oc_holdId p) (w_db w) \<and> from_stream entries m w"
      have B: "stable prog ?B" by (intro stable_conj stable_booked stable_from_stream)
      have settle: "rg prog prog (\<lambda>_. ?B) (\<lambda>_ _. True) (from_stream entries m) (settleOrder svc p)"
        using rg_weaken [OF rg_frame [OF rg_settleOrder [OF sup Inr] stable_from_stream [of m]]] by auto
      have "ok ?B (await (publish_booked svc i p) (\<lambda>_.
           await (redis_do (c_xack (redis svc) ORDER_STREAM_KEY ORDER_CONSUMER_GROUP (msg_id m))) (\<lambda>_. Ret ())))"
      proof (rule ok_await_moves [OF moves_publish_booked B], rule ok_await)
        show "rg prog prog (\<lambda>_. ?B) (\<lambda>_ _. True) ?B
            (redis_do (c_xack (redis svc) ORDER_STREAM_KEY ORDER_CONSUMER_GROUP (msg_id m)))"
          by (rule rg_weaken [OF ok_keeps [OF rg_xack [OF sup Inr]]]) auto
      qed (rule ok_Ret [OF B])
      with settle have "rg prog prog ?T ?T (from_stream entries m) (await (settleOrder svc p) (\<lambda>_.
           await (publish_booked svc i p) (\<lambda>_.
           await (redis_do (c_xack (redis svc) ORDER_STREAM_KEY ORDER_CONSUMER_GROUP (msg_id m))) (\<lambda>_. Ret ()))))"
        by (rule rg_await)
      with sup Inr show ?thesis by (simp add: sync_def rethrow_def)
    qed
  qed
qed

text \<open>One poll: whatever is handed out comes from the stream.\<close>

lemma stable_all_from_stream: "stable prog (all_from_stream entries ms)"
  unfolding all_from_stream_def by (rule stable_all_members) (rule stable_from_stream)

lemma read_progress:
  assumes "entries r = entries (w_redis w)" and "undelivered (w_redis w) = Some u" and "undelivered r = Some (drop m u)"
    and "pending r = pending (w_redis w) \<union> set (take m u)"
  shows "prog w (w\<lparr>w_redis := r\<rparr>)"
proof -
  have "none_lost orders (entries r) (undelivered r) (pending r) (w_db w)"
    if n: "none_lost orders (entries (w_redis w)) (undelivered (w_redis w)) (pending (w_redis w)) (w_db w)"
  proof -
    have "x \<in> set (drop m u) \<or> x \<in> set (take m u)" if "x \<in> set u" for x
      using that by (metis Un_iff append_take_drop_id set_append)
    with n assms show ?thesis by (fastforce simp: none_lost_def)
  qed
  with assms(1) show ?thesis by (simp add: progress_def consistent_def)
qed

lemma rg_claim:
  "rg prog prog (all_from_stream entries) (\<lambda>_ _. True) (\<lambda>_. True) (claimPendingMessages svc consumer)"
  unfolding claimPendingMessages_def
proof (rule rg_await)
  show "rg prog prog (\<lambda>batch. all_from_stream entries (map toMessage batch)) (\<lambda>_ _. True) (\<lambda>_. True)
    (redis_do (c_xautoclaim (redis svc) ORDER_STREAM_KEY ORDER_CONSUMER_GROUP consumer CLAIM_IDLE_MS BATCH_SIZE))"
    unfolding redis_do_def
  proof (rule rg_atomic, goal_cases)
    case (2 w w' batch)
    then obtain r where x: "c_xautoclaim (redis svc) ORDER_STREAM_KEY ORDER_CONSUMER_GROUP consumer CLAIM_IDLE_MS BATCH_SIZE
        (w_redis w) = (r, Inr batch)" and w': "w' = w\<lparr>w_redis := r\<rparr>" by (auto split: prod.splits)
    note c = xautoclaim_remote [OF x]
    then have "set batch \<subseteq> flat_entry ` set (entries (w_redis w'))"
      using batch_of_entries [of "entries (w_redis w)" "pending (w_redis w)"] w' by auto
    then have "all_from_stream entries (map toMessage batch) w'" by (rule messages_from_stream)
    moreover have "prog w w'" using c w' by (auto intro: same_views_progress)
    ultimately show ?case by simp
  next
    case (3 w w' e)
    then obtain r where x: "c_xautoclaim (redis svc) ORDER_STREAM_KEY ORDER_CONSUMER_GROUP consumer CLAIM_IDLE_MS BATCH_SIZE
        (w_redis w) = (r, Inl e)" and w': "w' = w\<lparr>w_redis := r\<rparr>" by (auto split: prod.splits)
    from xautoclaim_remote [OF x] w' show ?case by (auto intro: same_views_progress)
  qed (auto intro: stable_all_from_stream)
qed (auto intro!: rg.rg_Ret stable_all_from_stream)

lemma rg_read:
  "rg prog prog (all_from_stream entries) (\<lambda>_ _. True) (\<lambda>_. True) (readMessages svc consumer blockMs)"
  unfolding readMessages_def
proof (rule rg_await)
  let ?ms = "\<lambda>result. case result of None \<Rightarrow> [] | Some streams \<Rightarrow> concat (map (\<lambda>stream. map toMessage (snd stream)) streams)"
  show "rg prog prog (\<lambda>result. all_from_stream entries (?ms result)) (\<lambda>_ _. True) (\<lambda>_. True)
    (redis_do (c_xreadgroup (redis svc) ORDER_STREAM_KEY ORDER_CONSUMER_GROUP consumer BATCH_SIZE blockMs))"
    unfolding redis_do_def
  proof (rule rg_atomic, goal_cases)
    case (2 w w' result)
    then obtain r where x: "c_xreadgroup (redis svc) ORDER_STREAM_KEY ORDER_CONSUMER_GROUP consumer BATCH_SIZE blockMs
        (w_redis w) = (r, Inr result)" and w': "w' = w\<lparr>w_redis := r\<rparr>" by (auto split: prod.splits)
    show ?case
    proof (cases "result = None \<and> undelivered r = undelivered (w_redis w) \<and> pending r = pending (w_redis w)")
      case True
      with xreadgroup_remote [OF x] w' show ?thesis by (auto intro: same_views_progress simp: all_from_stream_def)
    next
      case False
      with xreadgroup_remote [OF x] obtain u m where e: "entries r = entries (w_redis w)"
        and u: "undelivered (w_redis w) = Some u" "undelivered r = Some (drop m u)"
          "pending r = pending (w_redis w) \<union> set (take m u)"
        and res: "result = Some [(ORDER_STREAM_KEY, batch_of (entries (w_redis w)) (set (take m u)))]" by auto
      have "set (batch_of (entries (w_redis w)) (set (take m u))) \<subseteq> flat_entry ` set (entries (w_redis w'))"
        using batch_of_entries w' e by simp
      then have "all_from_stream entries (?ms result) w'" using messages_from_stream res by simp
      moreover have "prog w w'" using read_progress [OF e u] w' by simp
      ultimately show ?thesis by simp
    qed
  next
    case (3 w w' e)
    then obtain r where x: "c_xreadgroup (redis svc) ORDER_STREAM_KEY ORDER_CONSUMER_GROUP consumer BATCH_SIZE blockMs
        (w_redis w) = (r, Inl e)" and w': "w' = w\<lparr>w_redis := r\<rparr>" by (auto split: prod.splits)
    from xreadgroup_remote [OF x] read_progress [of r w] w' show ?case by (auto intro: same_views_progress)
  qed (auto intro: stable_all_from_stream)
qed (auto intro!: rg.rg_Ret stable_all_from_stream split: option.split)

lemma rg_poll: "rg prog prog (all_from_stream entries) (\<lambda>_ _. True) (\<lambda>_. True) (poll svc consumer blockMs)"
  unfolding poll_def
proof (rule rg_await [OF rg_claim])
  fix claimed
  have "rg prog prog (\<lambda>fresh w. all_from_stream entries fresh w \<and> all_from_stream entries claimed w) (\<lambda>_ _. True)
      (all_from_stream entries claimed) (readMessages svc consumer blockMs)"
    using rg_weaken [OF rg_frame [OF rg_read stable_all_from_stream [of claimed]]] by simp
  then show "rg prog prog (all_from_stream entries) (\<lambda>_ _. True) (all_from_stream entries claimed)
      (await (readMessages svc consumer blockMs) (\<lambda>fresh. Ret (claimed @ fresh)))"
    by (rule rg_await)
       (auto intro!: rg.rg_Ret stable_conj stable_all_from_stream all_from_stream_append)
qed

lemma ok_batch: "ok (all_from_stream entries ms) (process_batch svc sched uuid ms)"
proof -
  let ?ps = "map (\<lambda>i. processMessage svc (uuid i) (ms ! i)) [0..<length ms]"
  have "\<forall>i < length ?ps. ok (from_stream entries (ms ! i)) (?ps ! i)" by (simp add: ok_processMessage)
  from rg_par_moves [OF this] have "ok (all_from_stream entries ms) (par sched ?ps)"
    by (simp add: all_from_stream_def [abs_def])
  then have "ok (all_from_stream entries ms) (Promise_all sched ?ps)"
    unfolding Promise_all_def
    by (rule rg_await) (auto split: option.split sum.split intro!: rg.rg_Ret rg.rg_Throw)
  then show ?thesis by (simp add: process_batch_def)
qed

lemma ok_initialize: "ok (\<lambda>_. True) (initializeOrderConsumerGroup svc)"
  unfolding initializeOrderConsumerGroup_def
proof (rule rg_catch)
  show "ok (\<lambda>_. True) (redis_do (c_xgroup_create (redis svc) ORDER_STREAM_KEY ORDER_CONSUMER_GROUP))"
  proof -
    have "prog w (w\<lparr>w_redis := r\<rparr>)"
      if x: "c_xgroup_create (redis svc) ORDER_STREAM_KEY ORDER_CONSUMER_GROUP (w_redis w) = (r, c)" for w :: "('r, 'd) world" and r c
    proof -
      have e: "entries r = entries (w_redis w)" "pending r = pending (w_redis w)"
        and u: "undelivered r = undelivered (w_redis w) \<or> undelivered (w_redis w) = None"
        using xgroup_remote [OF x] by (auto split: sum.splits if_splits)
      from u show ?thesis
      proof
        assume "undelivered r = undelivered (w_redis w)"
        with e show ?thesis by (auto intro: same_views_progress)
      next
        assume "undelivered (w_redis w) = None"
        with e show ?thesis by (simp add: progress_def consistent_def none_lost_def)
      qed
    qed
    then show ?thesis unfolding redis_do_def by (intro rg_atomic) (auto split: prod.splits)
  qed
qed (auto intro!: rg.rg_Ret rg.rg_Throw)

lemma ok_drain: "ok (\<lambda>_. True) (processAvailableOrderMessages svc consumer sched uuid)"
  unfolding processAvailableOrderMessages_def
proof (rule rg_await [OF ok_initialize], rule rg_await [OF rg_poll])
  fix ms
  show "ok (all_from_stream entries ms) (await (process_batch svc sched uuid ms) (\<lambda>_. Ret (length ms)))"
    by (rule rg_await [OF ok_batch]) (auto intro!: rg.rg_Ret)
qed

lemma ok_loop: "ok (\<lambda>_. True) (consumer_loop svc consumer sched uuid bound)"
proof (induction bound)
  case 0
  show ?case by (auto intro!: rg.rg_Ret)
next
  case (Suc bound)
  have flag: "rg prog prog (\<lambda>_ _. True) (\<lambda>_ _. True) (\<lambda>_. True) (reads w_consumer_running)"
    by (rule rg_reads) auto
  have batch: "ok (all_from_stream entries ms)
      (if length ms = 0 then consumer_loop svc consumer sched uuid bound
       else await (process_batch svc (sched bound) (uuid bound) ms) (\<lambda>_. consumer_loop svc consumer sched uuid bound))" for ms
    using rg_conseq [OF Suc stable_all_from_stream] rg_await [OF ok_batch Suc] by auto
  show ?case
    unfolding consumer_loop.simps
  proof (rule rg_await [OF flag])
    fix running
    show "ok (\<lambda>_. True) (if \<not> running then Ret (Some ())
      else await (poll svc consumer POLL_BLOCK_MS) (\<lambda>messages.
        if length messages = 0 then consumer_loop svc consumer sched uuid bound
        else await (process_batch svc (sched bound) (uuid bound) messages) (\<lambda>_. consumer_loop svc consumer sched uuid bound)))"
      using rg_await [OF rg_poll batch] by (auto intro: ok_Ret)
  qed
qed

lemma moves_flag: "moves prog (modifies (\<lambda>w. w\<lparr>w_consumer_running := b\<rparr>))"
  by (rule moves_modifies) (simp add: same_views_progress)

lemma ok_start: "ok (\<lambda>_. True) (startOrderConsumer svc consumer sched uuid bound)"
proof -
  have "moves prog (atomic (\<lambda>w. (w\<lparr>w_consumer_running := True\<rparr>, Inr (w_consumer_running w))))"
    by (rule moves_atomic) (simp add: same_views_progress)
  moreover have "ok (\<lambda>_. True) (finally_do (consumer_loop svc consumer sched uuid bound)
      (modifies (\<lambda>w. w\<lparr>w_consumer_running := False\<rparr>)))"
  proof -
    have "rg prog prog (\<lambda>_ _. True) (\<lambda>_ _. True) (\<lambda>_. True) (settled (consumer_loop svc consumer sched uuid bound))"
      by (rule rg_settled [OF ok_loop]) auto
    then show ?thesis unfolding finally_do_def
      by (rule rg_await) (intro ok_await_moves [OF moves_flag] ok_moves [OF moves_rethrow] stable_const)
  qed
  ultimately show ?thesis
    unfolding startOrderConsumer_def
    by (auto intro!: ok_await_moves ok_Ret rg_await [OF ok_initialize])
qed

end

section \<open>All operations together\<close>

text \<open>What buyers, workers and the diagnostics drain can call, with the draws and schedules they use.\<close>

datatype operation =
    OpHold HoldSeatPayload "nat \<Rightarrow> string"
  | OpOrder HoldSeatPayload "nat \<Rightarrow> string"
  | OpRelease ReleaseSeatRequest "nat \<Rightarrow> string"
  | OpDrain string "nat list" "nat \<Rightarrow> string"
  | OpConsume string "nat \<Rightarrow> nat list" "nat \<Rightarrow> nat \<Rightarrow> string" nat
  | OpStop

fun perform :: "('r, 'd) services \<Rightarrow> operation \<Rightarrow> (('r, 'd) world, unit) proc" where
  "perform svc (OpHold payload uuid) = await (holdSeat svc uuid payload) (\<lambda>_. Ret ())"
| "perform svc (OpOrder payload uuid) = await (createOrder svc uuid payload) (\<lambda>_. Ret ())"
| "perform svc (OpRelease payload uuid) = await (releaseSeat svc uuid payload) (\<lambda>_. Ret ())"
| "perform svc (OpDrain consumer sched uuid) = await (processAvailableOrderMessages svc consumer sched uuid) (\<lambda>_. Ret ())"
| "perform svc (OpConsume consumer sched uuid bound) = await (startOrderConsumer svc consumer sched uuid bound) (\<lambda>_. Ret ())"
| "perform svc OpStop = stopOrderConsumer"

interpretation everyone: compatible
  "\<lambda>_. progress seats orders entries undelivered pending" "\<lambda>_. progress seats orders entries undelivered pending"
  "elsewhere entries undelivered pending"
  for seats orders entries undelivered pending
  by unfold_locales (auto intro: elsewhere_progress)

context engine begin

lemma ok_then_done: "ok A p \<Longrightarrow> ok A (await p (\<lambda>_. Ret ()))"
  by (erule rg_await) (auto intro!: rg.rg_Ret)

lemma ok_perform: "ok (registered svc sha1) (perform svc operation)"
proof -
  have reg: "ok (registered svc sha1) p" if "ok (\<lambda>_. True) p" for p :: "(('r, 'd) world, unit) proc"
    using that stable_registered by (rule rg_conseq) simp
  show ?thesis
    by (cases operation)
       (auto intro: ok_then_done ok_holdSeat ok_createOrder ok_releaseSeat reg [OF ok_then_done [OF ok_drain]]
          reg [OF ok_then_done [OF ok_start]] ok_moves moves_flag stable_registered simp: stopOrderConsumer_def)
qed

lemma operations_holding:
  assumes "registered svc sha1 w"
  shows "everyone.holding seats orders entries undelivered pending (\<lambda>_ _ _. True) (\<lambda>_ _ _. True)
    (w, map (perform svc) ops)"
  unfolding everyone.holding_def using assms ok_perform by auto

lemma operations_invariant:
  assumes "registered svc sha1 w"
    and "pool_steps (elsewhere entries undelivered pending) (w, map (perform svc) ops) (w', ps')"
    and "I w" and "\<And>v v'. I v \<Longrightarrow> prog v v' \<Longrightarrow> I v'"
  shows "I w'"
proof -
  have env: "I v'" if "I v" "elsewhere entries undelivered pending v v'" for v v'
    using assms(4) [OF that(1) elsewhere_progress [OF that(2)]] .
  have "I (fst (w', ps'))"
  proof (rule everyone.steps_invariant [OF assms(2) operations_holding [OF assms(1)]])
    show "I (fst (w, map (perform svc) ops))" using assms(3) by simp
  qed (rule assms(4), assumption+, rule env)
  then show ?thesis by simp
qed

lemma operations_consistent:
  assumes "registered svc sha1 w" and "cons w"
    and "pool_steps (elsewhere entries undelivered pending) (w, map (perform svc) ops) (w', ps')"
  shows "cons w'"
  by (rule operations_invariant [OF assms(1,3), where I = cons]) (use assms(2) in \<open>auto simp: progress_def\<close>)

lemma operations_progress:
  assumes "registered svc sha1 w"
    and "pool_steps (elsewhere entries undelivered pending) (w, map (perform svc) ops) (w', ps')"
  shows "seats_progress seats (w_db w) (w_db w')" and "booked orders h (w_db w) \<Longrightarrow> booked orders h (w_db w')"
    and "\<exists>es. entries (w_redis w') = entries (w_redis w) @ es"
proof -
  show "seats_progress seats (w_db w) (w_db w')"
    by (rule operations_invariant [OF assms, where I = "\<lambda>v. seats_progress seats (w_db w) (w_db v)"])
       (auto simp: progress_def intro: seats_progress_trans)
  show "booked orders h (w_db w')" if "booked orders h (w_db w)"
    by (rule operations_invariant [OF assms, where I = "\<lambda>v. booked orders h (w_db v)"])
       (use that in \<open>auto simp: progress_def intro: orders_progress_booked\<close>)
  show "\<exists>es. entries (w_redis w') = entries (w_redis w) @ es"
    by (rule operations_invariant [OF assms, where I = "\<lambda>v. \<exists>es. entries (w_redis v) = entries (w_redis w) @ es"])
       (auto simp: progress_def)
qed

end

section \<open>An order and its settlement on the reference store\<close>

abbreviation ref_consistent :: "(ref_redis, ref_db) world \<Rightarrow> bool" where
  "ref_consistent \<equiv> consistent ref_seats ref_orders ref_entries rs_undelivered (\<lambda>r. set (rs_pel r))"

lemma ref_world_consistent: "ref_consistent ref_world"
  by (simp add: consistent_def booked_sold_def booked_once_def entries_match_def none_lost_def ref_orders_def
      ref_db0_def ref_entries_def ref_redis0_def)

definition ref_ops :: "operation list" where
  "ref_ops = [OpOrder (ref_payload ''ev'' ''s1'' ''u1'') (\<lambda>n. ''h1''), OpDrain ''c'' [] (\<lambda>n. ''m1'')]"

lemma ref_ordered_stream:
  "\<exists>e. ref_entries (w_redis ref_ordered) = [e] \<and> rs_undelivered (w_redis ref_ordered) = Some [fst e] \<and>
    rs_pel (w_redis ref_ordered) = []"
proof -
  obtain answer where r: "run (createOrder ref_services (\<lambda>n. ''h1'') (ref_payload ''ev'' ''s1'' ''u1'')) ref_world
    = (ref_ordered, Inr answer)" using ref_ordered_run by blast
  have e: "ref_entries ref_redis0 = []" "rs_undelivered ref_redis0 = Some []" "rs_pel ref_redis0 = []"
    by (simp_all add: ref_entries_def ref_redis0_def)
  have "set (rs_pel (w_redis ref_ordered)) = set (rs_pel ref_redis0)"
    using ref_engine.createOrder_pending [OF ref_registered ref_seat_keys_ok r] by simp
  with ref_engine.createOrder_returns [OF ref_registered ref_seat_keys_ok r] e show ?thesis
    by (auto simp: stream_appended_def)
qed

lemma ref_message_batch:
  assumes "ref_entries (w_redis ref_ordered) = [e]"
  shows "map toMessage (ref_batch [fst e] (w_redis ref_ordered)) = [ref_message]"
  using assms by (simp add: ref_batch_of batch_of_def ref_message_def)

text \<open>The round that finds the order: one message, settled and acknowledged.\<close>

lemma ref_round:
  assumes "w_redis w = w_redis ref_ordered" and "w_db w = w_db ref_ordered"
  shows "\<exists>w1 w'. run (initializeOrderConsumerGroup ref_services) w = (w, Inr ()) \<and>
    run (poll ref_services ''c'' ms) w = (w1, Inr [ref_message]) \<and>
    run (process_batch ref_services [] (\<lambda>n. ''m1'') [ref_message]) w1 = (w', Inr [()]) \<and> booked ref_orders ''h1'' (w_db w')"
proof -
  obtain e where e: "ref_entries (w_redis ref_ordered) = [e]" and u: "rs_undelivered (w_redis ref_ordered) = Some [fst e]"
    and pel: "rs_pel (w_redis ref_ordered) = []" using ref_ordered_stream by blast
  let ?w1 = "w\<lparr>w_redis := (w_redis ref_ordered)\<lparr>rs_undelivered := Some [], rs_pel := [fst e]\<rparr>\<rparr>"
  have busy: "js_includes ''BUSYGROUP Consumer Group name already exists'' ''BUSYGROUP''" by code_simp
  have init: "run (initializeOrderConsumerGroup ref_services) w = (w, Inr ())"
    using u busy assms by (simp add: initializeOrderConsumerGroup_def run_catch run_redis_do ref_client_def)
  have poll: "run (poll ref_services ''c'' ms) w = (?w1, Inr [ref_message])"
    using u pel ref_message_batch [OF e] assms
    by (simp add: poll_def claimPendingMessages_def readMessages_def run_await run_redis_do ref_client_def ref_batch_def
        BATCH_SIZE_def)
  from ref_delivered_facts obtain p row s where f: "supported ref_message" "parsePayload ref_message = Inr p"
    "oc_holdId p = ''h1''" "oc_seatId p = ''s1''" "ref_orders (w_db ref_delivered) ''h1'' = Some row"
    "ord_status row = PROCESSING" "ref_seats (w_db ref_delivered) ''s1'' = Some s" "seat_eventId s = oc_eventId p"
    "seat_status s = HELD" by blast
  have db: "w_db ?w1 = w_db ref_delivered" by (simp add: ref_delivered_def assms)
  obtain w' where proc: "run (processMessage ref_services ''m1'' ref_message) ?w1 = (w', Inr ())"
    and pel': "rs_pel (w_redis w') = filter (\<lambda>j. j \<noteq> msg_id ref_message) (rs_pel (w_redis ?w1))"
    using ref_process [OF f(1,2), of ?w1 row s "''m1''"] f db by auto
  have "msg_id ref_message = fst e" using e by (simp add: ref_message_def)
  with pel' have "set (rs_pel (w_redis w')) \<noteq> set (rs_pel (w_redis ?w1))" by auto
  from ref_engine.processMessage_acked [OF proc this] f have b: "booked ref_orders ''h1'' (w_db w')" by auto
  have "run (process_batch ref_services [] (\<lambda>n. ''m1'') [ref_message]) ?w1 = (w', Inr [()])"
    using proc by (simp add: process_batch_def Promise_all_def run_await run_settled)
  with init poll b show ?thesis by blast
qed

lemma ref_drain:
  "\<exists>w'. run (processAvailableOrderMessages ref_services ''c'' [] (\<lambda>n. ''m1'')) ref_ordered = (w', Inr 1) \<and>
    booked ref_orders ''h1'' (w_db w')"
proof -
  obtain w1 w' where "run (initializeOrderConsumerGroup ref_services) ref_ordered = (ref_ordered, Inr ())"
    "run (poll ref_services ''c'' 1) ref_ordered = (w1, Inr [ref_message])"
    "run (process_batch ref_services [] (\<lambda>n. ''m1'') [ref_message]) w1 = (w', Inr [()])"
    and b: "booked ref_orders ''h1'' (w_db w')" using ref_round [of ref_ordered 1] by blast
  with b show ?thesis by (simp add: processAvailableOrderMessages_def run_await)
qed

lemma ref_ops_run:
  "\<exists>w'. pool_steps (elsewhere ref_entries rs_undelivered (\<lambda>r. set (rs_pel r)))
      (ref_world, map (perform ref_services) ref_ops) (w', [Ret (), Ret ()]) \<and> booked ref_orders ''h1'' (w_db w')"
proof -
  let ?env = "elsewhere ref_entries rs_undelivered (\<lambda>r. set (rs_pel r)) :: (ref_redis, ref_db) world \<Rightarrow> _"
  let ?ps = "map (perform ref_services) ref_ops"
  obtain answer where r1: "run (createOrder ref_services (\<lambda>n. ''h1'') (ref_payload ''ev'' ''s1'' ''u1'')) ref_world
    = (ref_ordered, Inr answer)" using ref_ordered_run by blast
  obtain w' where r2: "run (processAvailableOrderMessages ref_services ''c'' [] (\<lambda>n. ''m1'')) ref_ordered = (w', Inr 1)"
    and b: "booked ref_orders ''h1'' (w_db w')" using ref_drain by blast
  have "run (?ps ! 0) ref_world = (ref_ordered, Inr ())" using r1 by (simp add: ref_ops_def run_await)
  then have "pool_steps ?env (ref_world, ?ps) (ref_ordered, ?ps[0 := Ret ()])"
    by (rule pool_steps_run) (simp_all add: ref_ops_def)
  moreover have "run (?ps[0 := Ret ()] ! 1) ref_ordered = (w', Inr ())"
    using r2 by (simp add: ref_ops_def run_await)
  then have "pool_steps ?env (ref_ordered, ?ps[0 := Ret ()]) (w', ?ps[0 := Ret (), 1 := Ret ()])"
    by (rule pool_steps_run) (simp_all add: ref_ops_def)
  ultimately have "pool_steps ?env (ref_world, ?ps) (w', ?ps[0 := Ret (), 1 := Ret ()])"
    unfolding pool_steps_def by (rule rtranclp_trans)
  moreover have "?ps[0 := Ret (), 1 := Ret ()] = [Ret (), Ret ()]" by (simp add: ref_ops_def)
  ultimately show ?thesis using b by auto
qed

section \<open>Properties\<close>

text \<open>
  No double booking.  Started in a consistent state, any number of holds, orders,
  releases, drains and consumers, interleaved in any way and with any command failing,
  leave the system consistent: every booked order has its seat sold, and no two booked
  orders are for the same seat.
\<close>

theorem no_double_booking:
  assumes "engine S pttl elapse svc sha1 entries undelivered pending seats orders events"
    and "registered svc sha1 w" and "consistent seats orders entries undelivered pending w"
    and "pool_steps (elsewhere entries undelivered pending) (w, map (perform svc) ops) (w', ps')"
  shows "consistent seats orders entries undelivered pending w' \<and>
    (\<forall>h row. orders (w_db w') h = Some row \<longrightarrow> ord_status row = BOOKED \<longrightarrow>
       (\<exists>s. seats (w_db w') (ord_seatId row) = Some s \<and> seat_status s = SOLD)) \<and>
    (\<forall>h h' row row'. orders (w_db w') h = Some row \<longrightarrow> orders (w_db w') h' = Some row' \<longrightarrow>
       ord_status row = BOOKED \<longrightarrow> ord_status row' = BOOKED \<longrightarrow> ord_seatId row = ord_seatId row' \<longrightarrow> h = h')"
proof -
  have c: "consistent seats orders entries undelivered pending w'"
    by (rule engine.operations_consistent [OF assms])
  then have "booked_sold seats orders (w_db w')" "booked_once orders (w_db w')" by (simp_all add: consistent_def)
  with c show ?thesis unfolding booked_sold_def booked_once_def by blast
qed

theorem no_double_booking_witness:
  "\<exists>w'. pool_steps (elsewhere ref_entries rs_undelivered (\<lambda>r. set (rs_pel r)))
      (ref_world, map (perform ref_services) ref_ops) (w', [Ret (), Ret ()]) \<and>
    booked ref_orders ''h1'' (w_db w') \<and> ref_consistent w'"
proof -
  obtain w' where s: "pool_steps (elsewhere ref_entries rs_undelivered (\<lambda>r. set (rs_pel r)))
      (ref_world, map (perform ref_services) ref_ops) (w', [Ret (), Ret ()])"
    and b: "booked ref_orders ''h1'' (w_db w')" using ref_ops_run by blast
  from no_double_booking [OF ref_engine.engine_axioms ref_registered ref_world_consistent s] s b show ?thesis by blast
qed

text \<open>
  A sold seat is sold for good: no operation, in any interleaving, moves a seat
  out of SOLD, and a booked order stays booked.
\<close>

theorem sold_is_final:
  assumes "engine S pttl elapse svc sha1 entries undelivered pending seats orders events"
    and "registered svc sha1 w"
    and "pool_steps (elsewhere entries undelivered pending) (w, map (perform svc) ops) (w', ps')"
  shows "(\<forall>sid s. seats (w_db w) sid = Some s \<longrightarrow> seat_status s = SOLD \<longrightarrow>
       (\<exists>s'. seats (w_db w') sid = Some s' \<and> seat_status s' = SOLD)) \<and>
    (\<forall>h. booked orders h (w_db w) \<longrightarrow> booked orders h (w_db w'))"
proof -
  have "seats_progress seats (w_db w) (w_db w')" by (rule engine.operations_progress(1) [OF assms])
  moreover have "booked orders h (w_db w) \<Longrightarrow> booked orders h (w_db w')" for h
    by (rule engine.operations_progress(2) [OF assms])
  ultimately show ?thesis unfolding seats_progress_def by blast
qed

theorem sold_is_final_witness:
  "\<exists>w' s'. pool_steps (elsewhere ref_entries rs_undelivered (\<lambda>r. set (rs_pel r)))
      (ref_world, map (perform ref_services) ref_ops) (w', [Ret (), Ret ()]) \<and>
    ref_seats (w_db w') ''s2'' = Some s' \<and> seat_status s' = SOLD"
proof -
  obtain w' where s: "pool_steps (elsewhere ref_entries rs_undelivered (\<lambda>r. set (rs_pel r)))
      (ref_world, map (perform ref_services) ref_ops) (w', [Ret (), Ret ()])" using ref_ops_run by blast
  have "\<exists>s2. ref_seats (w_db ref_world) ''s2'' = Some s2 \<and> seat_status s2 = SOLD"
    by (simp add: ref_db0_def ref_seats_def ref_seat_def)
  with sold_is_final [OF ref_engine.engine_axioms ref_registered s] s show ?thesis by blast
qed

text \<open>
  No order is lost.  Once the consumer group exists, every entry of the order
  stream, old or appended meanwhile, is still to be handed out, or is on the pending
  list, or its order is booked.  No entry is ever removed from the stream.
\<close>

theorem no_order_lost:
  assumes "engine S pttl elapse svc sha1 entries undelivered pending seats orders events"
    and "registered svc sha1 w" and "consistent seats orders entries undelivered pending w"
    and "pool_steps (elsewhere entries undelivered pending) (w, map (perform svc) ops) (w', ps')"
  shows "(\<exists>es. entries (w_redis w') = entries (w_redis w) @ es) \<and>
    (\<exists>u. undelivered (w_redis w') = Some u \<and>
      (\<forall>e \<in> set (entries (w_redis w')). fst e \<in> set u \<or> fst e \<in> pending (w_redis w') \<or>
         (\<exists>p. entry_payload e = Some p \<and> booked orders (oc_holdId p) (w_db w'))))"
proof -
  have "consistent seats orders entries undelivered pending w'"
    by (rule engine.operations_consistent [OF assms])
  moreover have "\<exists>es. entries (w_redis w') = entries (w_redis w) @ es"
    by (rule engine.operations_progress(3) [OF assms(1,2,4)])
  ultimately show ?thesis
    unfolding consistent_def none_lost_def entry_settled_def by blast
qed

theorem no_order_lost_witness:
  "\<exists>w' u. pool_steps (elsewhere ref_entries rs_undelivered (\<lambda>r. set (rs_pel r)))
      (ref_world, map (perform ref_services) ref_ops) (w', [Ret (), Ret ()]) \<and>
    rs_undelivered (w_redis w') = Some u"
proof -
  obtain w' where s: "pool_steps (elsewhere ref_entries rs_undelivered (\<lambda>r. set (rs_pel r)))
      (ref_world, map (perform ref_services) ref_ops) (w', [Ret (), Ret ()])" using ref_ops_run by blast
  from no_order_lost [OF ref_engine.engine_axioms ref_registered ref_world_consistent s] s show ?thesis by blast
qed

end
