(* ===== verification/Engine_Safety.thy ===== *)
theory Engine_Safety imports Double_Booking Store_Typing begin

text \<open>
  The safety of the orders, for the whole running engine: every HTTP request of the API, the
  benchmarks and the rate limiter included, and every order worker, in any number and any
  interleaving.  The moves are those of \<open>Double_Booking\<close>; the discipline of \<open>Engine_Logic\<close>
  carries them from the commands to the requests.
\<close>

section \<open>The contract\<close>

text \<open>Redis as the whole API uses it, and the database.\<close>

locale engine_api =
  engine S pttl elapse svc sha1 entries undelivered pending seats orders events +
  api: redis_api S pttl elapse svc sha1 entries undelivered pending G B
  for S :: "'r redis_server" and pttl and elapse and svc :: "('r, 'd) services" and sha1
    and entries and undelivered and pending and seats and orders and events
    and G :: "('r, 'd) geo_services" and B :: "('r, 'd) bench_services"

sublocale engine_api \<subseteq> safe: keeping "progress seats orders entries undelivered pending" "registered svc sha1"
  by unfold_locales (rule stable_registered)

section \<open>Every command makes only such moves\<close>

definition same_stream ::
  "('r \<Rightarrow> stream_entry list) \<Rightarrow> ('r \<Rightarrow> string list option) \<Rightarrow> ('r \<Rightarrow> string set) \<Rightarrow> 'r \<Rightarrow> 'r \<Rightarrow> bool" where
  "same_stream entries undelivered pending r r' \<longleftrightarrow>
     entries r' = entries r \<and> undelivered r' = undelivered r \<and> pending r' = pending r"

lemma same_stream_refl [simp]: "same_stream entries undelivered pending r r"
  by (simp add: same_stream_def)

lemma same_redis_stream:
  "same_redis S pttl entries undelivered pending ks r r' \<Longrightarrow> same_stream entries undelivered pending r r'"
  by (simp add: same_redis_def same_stream_def)

context engine_api begin

abbreviation fits :: "('a \<Rightarrow> bool) \<Rightarrow> (('r, 'd) world, 'a) proc \<Rightarrow> bool" where
  "fits \<equiv> conforms prog (registered svc sha1)"

lemma fits_redis:
  "(\<And>r r' x. c r = (r', x) \<Longrightarrow> same_stream entries undelivered pending r r') \<Longrightarrow> fits (\<lambda>_. True) (redis_do c)"
  by (rule safe.moves_conforms [OF moves_redis_do]) (simp add: same_stream_def)

lemma fits_delivers:
  assumes "\<And>r. delivers r (ex r) (c r)" and "\<And>r. same_stream entries undelivered pending r (fst (ex r))"
  shows "fits (\<lambda>_. True) (redis_do c)"
proof (rule fits_redis)
  fix r r' x
  assume "c r = (r', x)"
  then show "same_stream entries undelivered pending r r'"
    using assms(2) [of r] delivers_state [of r "ex r" r' x] assms(1) [of r] by auto
qed

lemma del_frame: "k \<noteq> ORDER_STREAM_KEY \<Longrightarrow> same_stream entries undelivered pending r (fst (DEL S k r))"
  using del_streams [of k r] by (cases "DEL S k r") (simp add: same_stream_def)

lemma fits_del: "k \<noteq> ORDER_STREAM_KEY \<Longrightarrow> fits (\<lambda>_. True) (redis_do (c_del (redis svc) k))"
  by (rule fits_delivers [OF del_remote]) (simp add: del_frame)

lemma fits_set_ex: "k \<noteq> ORDER_STREAM_KEY \<Longrightarrow> fits (\<lambda>_. True) (redis_do (c_set_ex (redis svc) k v t))"
  by (rule fits_delivers [OF set_ex_remote]) (simp add: same_stream_def set_ex_streams)

lemma set_px_nx_frame: "k \<noteq> ORDER_STREAM_KEY \<Longrightarrow> same_stream entries undelivered pending r (fst (SET_PX_NX S k v t r))"
  using api.set_px_nx_streams [of k v t r] by (cases "SET_PX_NX S k v t r") (simp add: same_stream_def)

lemma fits_set_px_nx: "k \<noteq> ORDER_STREAM_KEY \<Longrightarrow> fits (\<lambda>_. True) (redis_do (c_set_px_nx (redis svc) k v t))"
  by (rule fits_delivers [OF set_px_nx_remote]) (simp add: set_px_nx_frame)

lemma fits_get: "fits (\<lambda>_. True) (redis_do (c_get (redis svc) k))"
  by (rule fits_delivers [OF get_remote]) simp

text \<open>The two scripts off the seat keys.\<close>

lemma mutex_frame:
  "k \<noteq> ORDER_STREAM_KEY \<Longrightarrow> same_stream entries undelivered pending r (fst (lua_script S LuaScriptName.releaseMutex [k] [t] r))"
  using del_frame [of k r] by (auto split: prod.splits)

lemma window_frame:
  assumes "k \<noteq> ORDER_STREAM_KEY"
  shows "same_stream entries undelivered pending r (fst (lua_script S slidingWindow [k] [a, b, c, m, d] r))"
proof -
  have "same_stream entries undelivered pending r (EXPIRE S k t (ZADD S k x m (ZREMRANGEBYSCORE S k lo hi r)))" for t x lo hi
    by (rule same_redis_stream [OF same_redis_trans
          [OF same_redis_trans [OF api.zremrange_apart [OF assms] api.zadd_apart [OF assms]] api.expire_apart [OF assms]]])
  then show ?thesis by (auto simp: Let_def split: option.splits)
qed

lemma fits_by_digest:
  assumes "\<And>r. same_stream entries undelivered pending r (fst (lua_script S nm keys args r))"
  shows "fits (\<lambda>_. True) (await (getLuaScriptDigest nm) (\<lambda>digest. redis_do (c_evalsha (redis svc) digest keys args)))"
proof (rule safe.conforms_await)
  show "fits (\<lambda>d. \<exists>src. scriptFile svc nm = Inr src \<and> d = sha1 src) (getLuaScriptDigest nm)"
    unfolding getLuaScriptDigest_def
    by (rule safe.conforms_atomic) (auto simp: registered_def split: option.splits; metis option.inject option.distinct(1))
next
  fix d
  assume "\<exists>src. scriptFile svc nm = Inr src \<and> d = sha1 src"
  then obtain src where src: "scriptFile svc nm = Inr src" "d = sha1 src" by blast
  show "fits (\<lambda>_. True) (redis_do (c_evalsha (redis svc) d keys args))"
  proof (rule fits_redis)
    fix r r' x
    assume "c_evalsha (redis svc) d keys args r = (r', x)"
    then have "r' = r \<or> r' = fst (lua_script S nm keys args r)"
      using evalsha_remote [OF src(1), of r keys args] delivers_state unfolding src(2) by fastforce
    with assms show "same_stream entries undelivered pending r r'" by auto
  qed
qed

lemma fits_read_map: "fits (\<lambda>_. True) (readCachedMap svc k)"
  unfolding readCachedMap_def
  by (rule safe.conforms_then [OF fits_get])
     (auto intro: safe.conforms_return safe.conforms_then [OF safe.conforms_check] split: option.split)

lemma fits_mutex: "fits (\<lambda>_. True) (acquireMutex svc u (lockKey ev))" "fits (\<lambda>_. True) (releaseMutex svc (lockKey ev) u)"
  unfolding acquireMutex_def releaseMutex_def await_assoc [symmetric]
  by (auto intro!: safe.conforms_return safe.conforms_then [OF fits_set_px_nx] safe.conforms_then [OF fits_by_digest]
      simp del: lua_script.simps simp: mutex_frame)

lemma fits_stop: "fits (\<lambda>_. True) stopOrderConsumer"
  unfolding stopOrderConsumer_def by (rule safe.moves_conforms [OF moves_flag])

lemma fits_reopen: "fits (\<lambda>_. True) (db_do (pc_seat_updateMany (prisma svc) sid ev HELD AVAILABLE))"
  using safe.moves_conforms [OF moves_reopen [of "\<lparr>rq_eventId = ev, rq_seatId = sid, rq_userId = u\<rparr>"]] by simp

end

sublocale engine_api \<subseteq> safe: discipline
  "progress seats orders entries undelivered pending" "registered svc sha1" svc G B "\<lambda>_. True"
proof unfold_locales
  fix client and a b c m d :: "string"
  show "fits (\<lambda>_. True) (await (getLuaScriptDigest slidingWindow) (\<lambda>digest.
     redis_do (c_evalsha (redis svc) digest [''rate-limit'' @ CHR '':'' # client] [a, b, c, m, d])))"
    by (rule fits_by_digest) (rule window_frame, rule keys_not_stream)
next
  show "fits (\<lambda>_. True) (redis_do (geo_search G k lng lat radius n))" for k lng lat radius n
    by (rule fits_redis) (rule same_redis_stream [OF api.geo_search_remote])
next
  show "fits (\<lambda>_. True) (redis_do (xpending B k g))" for k g
    by (rule fits_redis) (rule same_redis_stream [OF api.xpending_remote])
qed (simp_all add: same_views_progress fits_del fits_set_ex fits_reopen fits_read_map fits_mutex fits_stop
      safe.rg_conforms [OF ok_acquire] safe.rg_conforms [OF ok_release] safe.moves_conforms [OF moves_publish]
      safe.rg_conforms [OF ok_place_order] safe.rg_conforms [OF ok_initialize] safe.rg_conforms [OF ok_drain]
      safe.rg_conforms [OF ok_start])

section \<open>The running engine\<close>

text \<open>The moves add up.\<close>

lemma progress_chain:
  assumes "(progress seats orders entries undelivered pending)\<^sup>*\<^sup>* w w'"
  shows "seats_progress seats (w_db w) (w_db w')" and "booked orders h (w_db w) \<Longrightarrow> booked orders h (w_db w')"
    and "\<exists>es. entries (w_redis w') = entries (w_redis w) @ es"
    and "consistent seats orders entries undelivered pending w \<Longrightarrow> consistent seats orders entries undelivered pending w'"
  using assms
  by (induction rule: rtranclp_induct) (auto simp: progress_def intro: seats_progress_trans orders_progress_booked)

context engine_api begin

lemma engine_chain:
  assumes "st_svc A = svc" and "st_geo A = G" and "st_bench A = B" and "registered svc sha1 w"
    and "pool_steps (elsewhere entries undelivered pending) (w, map (party_proc A) parties) (w', ps')"
  shows "prog\<^sup>*\<^sup>* w w'"
  by (rule safe.engine_pool(2) [OF assms(1-4) pool_steps_mono [OF assms(5) elsewhere_progress]])

end

section \<open>It holds of the reference store\<close>

interpretation ref_whole: engine_api ref_server ref_pttl ref_elapse ref_services ref_sha1 ref_entries rs_undelivered
  "\<lambda>r. set (rs_pel r)" ref_seats ref_orders rd_events sample_geo ref_bench
  by (intro engine_api.intro ref_engine.engine_axioms ref_api.redis_api_axioms)

lemma ref_app_api:
  "engine_api ref_server ref_pttl ref_elapse (st_svc ref_app) ref_sha1 ref_entries rs_undelivered
    (\<lambda>r. set (rs_pel r)) ref_seats ref_orders rd_events (st_geo ref_app) (st_bench ref_app)"
  using ref_whole.engine_api_axioms by (simp add: ref_app_def)

text \<open>An order over HTTP, a shutdown of the workers, and a worker that starts after it and settles the order.\<close>

definition ref_order_http :: http_request where
  "ref_order_http = \<lparr>req_method = ''POST'', req_path = ''/api/v1/tickets/orders'', req_header = [''x-benchmark-bypass'' \<mapsto> ''1''],
     req_ip = Some ''::1'', req_remoteAddress = None, req_query = Map.empty, req_params = Map.empty,
     req_body = Some (JObj [(''eventId'', JStr ''ev''), (''seatId'', JStr ''s1''), (''userId'', JStr ''u1'')])\<rparr>"

definition ref_parties :: "party list" where
  "ref_parties = [Client (sample_draws\<lparr>dw_uuid := \<lambda>_. ''h1''\<rparr>) ref_order_http, Stop, Worker ''c'' (\<lambda>_. []) (\<lambda>_ _. ''m1'') 1]"

lemma ref_order_payload:
  "createOrderRequestSchema (st_zod ref_app) (req_body ref_order_http) =
     Inr \<lparr>rq_eventId = ''ev'', rq_seatId = ''s1'', rq_userId = ''u1''\<rparr>"
  "hold_payload \<lparr>rq_eventId = ''ev'', rq_seatId = ''s1'', rq_userId = ''u1''\<rparr> = ref_payload ''ev'' ''s1'' ''u1''"
  by (simp_all add: createOrderRequestSchema_def holdSeatRequestSchema_def ref_order_http_def member_def required_def
      hold_payload_def ref_payload_def)

lemma ref_order_request_run:
  "\<exists>a j. run (party_proc ref_app (ref_parties ! 0)) ref_world = (ref_ordered, Inr (Some a)) \<and> an_status a = 202 \<and>
    an_body a = JsonBody (JObj [(''orderId'', JStr j), (''status'', JStr ''PROCESSING'')])"
proof -
  let ?D = "sample_draws\<lparr>dw_uuid := \<lambda>_. ''h1''\<rparr>"
  obtain res where r: "run (createOrder ref_services (\<lambda>n. ''h1'') (ref_payload ''ev'' ''s1'' ''u1'')) ref_world = (ref_ordered, Inr res)"
    using ref_ordered_run by blast
  let ?request = "ref_order_http\<lparr>req_params := Map.empty\<rparr>"
  have "run (createOrderHandler ref_services (st_zod ref_app) (\<lambda>_. ''h1'') ?request) ref_world = (ref_ordered,
      Inr \<lparr>an_status = 202, an_headers = [], an_body = JsonBody (JObj [(''orderId'', JStr (co_orderId res)), (''status'', JStr ''PROCESSING'')])\<rparr>)"
    using r by (simp add: createOrderHandler_def ref_order_payload answer_def run_simps)
  moreover have "dispatch (st_match ref_app) (app_routes ref_app ?D) ref_order_http =
      createOrderHandler ref_services (st_zod ref_app) (\<lambda>_. ''h1'') ?request"
    by (simp add: app_routes_def apiRouter_def mount_def ticketRouter_def eventRouter_def diagnosticsRouter_def ref_app_def ref_order_http_def)
  moreover have "rateLimiter (st_svc ref_app) (st_disable ref_app) u (limiter_options ref_app) ref_order_http = Ret (Next [])" for u
    by (simp add: rateLimiter_def bypassed_def ref_order_http_def Let_def)
  moreover have "st_body ref_app ref_order_http = Inr (req_body ref_order_http)" by (simp add: ref_app_def)
  ultimately show ?thesis by (simp add: ref_parties_def handle_run run_await)
qed

lemma ref_worker_run:
  "\<exists>w'. run (party_proc ref_app (ref_parties ! 2)) (ref_ordered\<lparr>w_consumer_running := False\<rparr>) = (w', Inr None) \<and>
    booked ref_orders ''h1'' (w_db w')"
proof -
  let ?w = "ref_ordered\<lparr>w_consumer_running := True\<rparr>"
  obtain w1 w' where round: "run (initializeOrderConsumerGroup ref_services) ?w = (?w, Inr ())"
    "run (poll ref_services ''c'' POLL_BLOCK_MS) ?w = (w1, Inr [ref_message])"
    "run (process_batch ref_services [] (\<lambda>n. ''m1'') [ref_message]) w1 = (w', Inr [()])"
    and b: "booked ref_orders ''h1'' (w_db w')" using ref_round [of ?w POLL_BLOCK_MS] by auto
  then have "run (startOrderConsumer ref_services ''c'' (\<lambda>_. []) (\<lambda>_ _. ''m1'') 1) (ref_ordered\<lparr>w_consumer_running := False\<rparr>) =
      (w'\<lparr>w_consumer_running := False\<rparr>, Inr None)"
    by (simp add: startOrderConsumer_def run_simps finally_do_def)
  with b show ?thesis by (simp add: ref_parties_def run_await ref_app_def)
qed

lemma ref_parties_run:
  "\<exists>w' a j. pool_steps (elsewhere ref_entries rs_undelivered (\<lambda>r. set (rs_pel r)))
      (ref_world, map (party_proc ref_app) ref_parties) (w', [Ret (Some a), Ret None, Ret None]) \<and>
    an_status a = 202 \<and> an_body a = JsonBody (JObj [(''orderId'', JStr j), (''status'', JStr ''PROCESSING'')]) \<and>
    booked ref_orders ''h1'' (w_db w')"
proof -
  let ?env = "elsewhere ref_entries rs_undelivered (\<lambda>r. set (rs_pel r)) :: (ref_redis, ref_db) world \<Rightarrow> _"
  let ?ps = "map (party_proc ref_app) ref_parties"
  let ?w1 = "ref_ordered\<lparr>w_consumer_running := False\<rparr>"
  obtain a j where r0: "run (party_proc ref_app (ref_parties ! 0)) ref_world = (ref_ordered, Inr (Some a))" and a: "an_status a = 202"
    "an_body a = JsonBody (JObj [(''orderId'', JStr j), (''status'', JStr ''PROCESSING'')])" using ref_order_request_run by blast
  obtain w' where r2: "run (party_proc ref_app (ref_parties ! 2)) ?w1 = (w', Inr None)" and b: "booked ref_orders ''h1'' (w_db w')"
    using ref_worker_run by blast
  have r1: "run (party_proc ref_app (ref_parties ! 1)) ref_ordered = (?w1, Inr None)"
    by (simp add: ref_parties_def stopOrderConsumer_def run_simps)
  have "pool_steps ?env (ref_world, ?ps) (ref_ordered, ?ps[0 := Ret (Some a)])"
    by (rule pool_steps_run) (use r0 in \<open>simp_all add: ref_parties_def\<close>)
  moreover have "pool_steps ?env (ref_ordered, ?ps[0 := Ret (Some a)]) (?w1, ?ps[0 := Ret (Some a), 1 := Ret None])"
    by (rule pool_steps_run) (use r1 in \<open>simp_all add: ref_parties_def\<close>)
  moreover have "pool_steps ?env (?w1, ?ps[0 := Ret (Some a), 1 := Ret None]) (w', ?ps[0 := Ret (Some a), 1 := Ret None, 2 := Ret None])"
    by (rule pool_steps_run) (use r2 in \<open>simp_all add: ref_parties_def\<close>)
  ultimately have "pool_steps ?env (ref_world, ?ps) (w', ?ps[0 := Ret (Some a), 1 := Ret None, 2 := Ret None])"
    unfolding pool_steps_def by (meson rtranclp_trans)
  moreover have "?ps[0 := Ret (Some a), 1 := Ret None, 2 := Ret None] = [Ret (Some a), Ret None, Ret None]"
    by (simp add: ref_parties_def)
  ultimately show ?thesis using a b by auto
qed

section \<open>Properties\<close>

text \<open>
  Claim C1.  No double booking, over HTTP.  Started in a consistent state, any number of
  requests of any kind to the API, order workers and shutdowns, interleaved in any way and
  with any command failing, leave the system consistent: every booked order has its seat
  sold, and no two booked orders are for the same seat.
\<close>

theorem http_no_double_booking:
  assumes "engine_api S pttl elapse (st_svc A) sha1 entries undelivered pending seats orders events (st_geo A) (st_bench A)"
    and "registered (st_svc A) sha1 w" and "consistent seats orders entries undelivered pending w"
    and "pool_steps (elsewhere entries undelivered pending) (w, map (party_proc A) parties) (w', ps')"
  shows "consistent seats orders entries undelivered pending w' \<and>
    (\<forall>h row. orders (w_db w') h = Some row \<longrightarrow> ord_status row = BOOKED \<longrightarrow>
       (\<exists>s. seats (w_db w') (ord_seatId row) = Some s \<and> seat_status s = SOLD)) \<and>
    (\<forall>h h' row row'. orders (w_db w') h = Some row \<longrightarrow> orders (w_db w') h' = Some row' \<longrightarrow>
       ord_status row = BOOKED \<longrightarrow> ord_status row' = BOOKED \<longrightarrow> ord_seatId row = ord_seatId row' \<longrightarrow> h = h')"
proof -
  have c: "consistent seats orders entries undelivered pending w'"
    by (rule progress_chain(4) [OF engine_api.engine_chain [OF assms(1) refl refl refl assms(2,4)] assms(3)])
  then have "booked_sold seats orders (w_db w')" "booked_once orders (w_db w')" by (simp_all add: consistent_def)
  with c show ?thesis unfolding booked_sold_def booked_once_def by blast
qed

theorem http_no_double_booking_witness:
  "\<exists>w' a. pool_steps (elsewhere ref_entries rs_undelivered (\<lambda>r. set (rs_pel r)))
      (ref_world, map (party_proc ref_app) ref_parties) (w', [Ret (Some a), Ret None, Ret None]) \<and>
    an_status a = 202 \<and> booked ref_orders ''h1'' (w_db w') \<and> ref_consistent w'"
proof -
  obtain w' a where s: "pool_steps (elsewhere ref_entries rs_undelivered (\<lambda>r. set (rs_pel r)))
      (ref_world, map (party_proc ref_app) ref_parties) (w', [Ret (Some a), Ret None, Ret None])"
    and b: "an_status a = 202" "booked ref_orders ''h1'' (w_db w')" using ref_parties_run by blast
  have "registered (st_svc ref_app) ref_sha1 ref_world" by (simp add: ref_app_def ref_registered)
  from http_no_double_booking [OF ref_app_api this ref_world_consistent s] s b show ?thesis by blast
qed

text \<open>
  A sold seat is sold for good: no request, worker or shutdown, in any
  interleaving, moves a seat out of SOLD, and a booked order stays booked.
\<close>

theorem http_sold_is_final:
  assumes "engine_api S pttl elapse (st_svc A) sha1 entries undelivered pending seats orders events (st_geo A) (st_bench A)"
    and "registered (st_svc A) sha1 w"
    and "pool_steps (elsewhere entries undelivered pending) (w, map (party_proc A) parties) (w', ps')"
  shows "(\<forall>sid s. seats (w_db w) sid = Some s \<longrightarrow> seat_status s = SOLD \<longrightarrow>
       (\<exists>s'. seats (w_db w') sid = Some s' \<and> seat_status s' = SOLD)) \<and>
    (\<forall>h. booked orders h (w_db w) \<longrightarrow> booked orders h (w_db w'))"
proof -
  note chain = engine_api.engine_chain [OF assms(1) refl refl refl assms(2,3)]
  have "seats_progress seats (w_db w) (w_db w')" by (rule progress_chain(1) [OF chain])
  moreover have "booked orders h (w_db w) \<Longrightarrow> booked orders h (w_db w')" for h by (rule progress_chain(2) [OF chain])
  ultimately show ?thesis unfolding seats_progress_def by blast
qed

theorem http_sold_is_final_witness:
  "\<exists>w' a s'. pool_steps (elsewhere ref_entries rs_undelivered (\<lambda>r. set (rs_pel r)))
      (ref_world, map (party_proc ref_app) ref_parties) (w', [Ret (Some a), Ret None, Ret None]) \<and>
    ref_seats (w_db w') ''s2'' = Some s' \<and> seat_status s' = SOLD"
proof -
  obtain w' a where s: "pool_steps (elsewhere ref_entries rs_undelivered (\<lambda>r. set (rs_pel r)))
      (ref_world, map (party_proc ref_app) ref_parties) (w', [Ret (Some a), Ret None, Ret None])" using ref_parties_run by blast
  have "\<exists>s2. ref_seats (w_db ref_world) ''s2'' = Some s2 \<and> seat_status s2 = SOLD"
    by (simp add: ref_db0_def ref_seats_def ref_seat_def)
  moreover have "registered (st_svc ref_app) ref_sha1 ref_world" by (simp add: ref_app_def ref_registered)
  ultimately show ?thesis using http_sold_is_final [OF ref_app_api _ s] s by blast
qed

text \<open>
  No order is lost.  Once the consumer group exists, and whatever requests,
  workers and shutdowns do, every entry of the order stream, old or appended meanwhile, is
  still to be handed out, or is on the pending list, or its order is booked.  No entry is
  ever removed from the stream.
\<close>

theorem http_no_order_lost:
  assumes "engine_api S pttl elapse (st_svc A) sha1 entries undelivered pending seats orders events (st_geo A) (st_bench A)"
    and "registered (st_svc A) sha1 w" and "consistent seats orders entries undelivered pending w"
    and "pool_steps (elsewhere entries undelivered pending) (w, map (party_proc A) parties) (w', ps')"
  shows "(\<exists>es. entries (w_redis w') = entries (w_redis w) @ es) \<and>
    (\<exists>u. undelivered (w_redis w') = Some u \<and>
      (\<forall>e \<in> set (entries (w_redis w')). fst e \<in> set u \<or> fst e \<in> pending (w_redis w') \<or>
         (\<exists>p. entry_payload e = Some p \<and> booked orders (oc_holdId p) (w_db w'))))"
proof -
  note chain = engine_api.engine_chain [OF assms(1) refl refl refl assms(2,4)]
  have "consistent seats orders entries undelivered pending w'" by (rule progress_chain(4) [OF chain assms(3)])
  moreover have "\<exists>es. entries (w_redis w') = entries (w_redis w) @ es" by (rule progress_chain(3) [OF chain])
  ultimately show ?thesis
    unfolding consistent_def none_lost_def entry_settled_def by blast
qed

theorem http_no_order_lost_witness:
  "\<exists>w' a u. pool_steps (elsewhere ref_entries rs_undelivered (\<lambda>r. set (rs_pel r)))
      (ref_world, map (party_proc ref_app) ref_parties) (w', [Ret (Some a), Ret None, Ret None]) \<and>
    rs_undelivered (w_redis w') = Some u"
proof -
  obtain w' a where s: "pool_steps (elsewhere ref_entries rs_undelivered (\<lambda>r. set (rs_pel r)))
      (ref_world, map (party_proc ref_app) ref_parties) (w', [Ret (Some a), Ret None, Ret None])" using ref_parties_run by blast
  have "registered (st_svc ref_app) ref_sha1 ref_world" by (simp add: ref_app_def ref_registered)
  from http_no_order_lost [OF ref_app_api this ref_world_consistent s] s show ?thesis by blast
qed

end
