(* ===== verification/Order_Promise.thy ===== *)
theory Order_Promise imports Engine_Safety begin

text \<open>
  What an answer \<open>202\<close> promises.  The route \<open>POST /api/v1/tickets/orders\<close> answers with the id
  of an order that is in the database and in the order stream, as it was requested, and that
  stays so whatever the rest of the engine does.
\<close>

section \<open>The promise\<close>

definition order_recorded ::
  "('d \<Rightarrow> string \<Rightarrow> order_row option) \<Rightarrow> HoldSeatRequest \<Rightarrow> string \<Rightarrow> string \<Rightarrow> ('r, 'd) world \<Rightarrow> bool" where
  "order_recorded orders rq hold j w \<longleftrightarrow>
     (\<exists>row. orders (w_db w) hold = Some row \<and> ord_id row = j \<and> ord_eventId row = rq_eventId rq \<and>
        ord_seatId row = rq_seatId rq \<and> ord_userId row = rq_userId rq)"

definition order_accepted ::
  "('d \<Rightarrow> string \<Rightarrow> order_row option) \<Rightarrow> ('r \<Rightarrow> stream_entry list) \<Rightarrow> HoldSeatRequest \<Rightarrow> string \<Rightarrow> ('r, 'd) world \<Rightarrow> bool" where
  "order_accepted orders entries rq j w \<longleftrightarrow>
     (\<exists>e p. e \<in> set (entries (w_redis w)) \<and> entry_payload e = Some p \<and> oc_orderId p = j \<and>
        order_recorded orders rq (oc_holdId p) j w)"

text \<open>The answer of the route, and the order its request asks for.\<close>

definition order_answer :: "string \<Rightarrow> http_answer \<Rightarrow> bool" where
  "order_answer j a \<longleftrightarrow>
     an_status a = 202 \<and> an_body a = JsonBody (JObj [(''orderId'', JStr j), (''status'', JStr ''PROCESSING'')])"

definition order_request :: "('r, 'd) app_setup \<Rightarrow> http_request \<Rightarrow> HoldSeatRequest \<Rightarrow> bool" where
  "order_request A request rq \<longleftrightarrow>
     (\<exists>body parsed. st_body A request = Inr body \<and> createOrderRequestSchema (st_zod A) body = Inr parsed \<and>
        normalizeHoldRequest (hold_payload parsed) = Inr rq)"

definition promise_kept ::
  "('d \<Rightarrow> string \<Rightarrow> order_row option) \<Rightarrow> ('r \<Rightarrow> stream_entry list) \<Rightarrow> (HoldSeatRequest \<Rightarrow> bool) \<Rightarrow> http_answer \<Rightarrow>
   ('r, 'd) world \<Rightarrow> bool" where
  "promise_kept orders entries asked a w \<longleftrightarrow>
     (\<forall>j. order_answer j a \<longrightarrow> (\<exists>rq. asked rq \<and> order_accepted orders entries rq j w))"

text \<open>Only that route gives such an answer.\<close>

lemma other_routes_silent:
  "replies V pattern a \<Longrightarrow> pattern \<noteq> ''/api/v1/tickets/orders'' \<Longrightarrow> \<not> order_answer j a"
  by (auto simp: replies_def declared_def api_contract_def order_answer_def split: if_splits)

lemma errors_silent: "error_typed a \<Longrightarrow> \<not> order_answer j a"
  by (auto simp: error_typed_def order_answer_def error_type_def member_def)

lemma error_silent [simp]: "\<not> order_answer j (error_answer env hs e)"
  by (rule errors_silent [OF error_answer_typed])

lemma promise_headers [simp]:
  "promise_kept orders entries asked (a\<lparr>an_headers := hs\<rparr>) = promise_kept orders entries asked a"
  by (simp add: promise_kept_def order_answer_def fun_eq_iff)

context engine_api begin

lemma stable_recorded: "stable prog (order_recorded orders rq hold j)"
proof (rule stableI)
  fix w w'
  assume "order_recorded orders rq hold j w" and "prog w w'"
  then show "order_recorded orders rq hold j w'"
    unfolding order_recorded_def progress_def orders_progress_def by fastforce
qed

lemma stable_accepted: "stable prog (order_accepted orders entries rq j)"
proof (rule stableI)
  fix w w'
  assume a: "order_accepted orders entries rq j w" and p: "prog w w'"
  then obtain e p where e: "e \<in> set (entries (w_redis w))" "entry_payload e = Some p" "oc_orderId p = j"
    and r: "order_recorded orders rq (oc_holdId p) j w" unfolding order_accepted_def by blast
  from p e(1) have "e \<in> set (entries (w_redis w'))" by (auto simp: progress_def)
  with e(2,3) stableD [OF stable_recorded r p] show "order_accepted orders entries rq j w'"
    unfolding order_accepted_def by blast
qed

lemma recorded_order_of: "order_recorded orders rq h j w \<Longrightarrow> order_of orders h (rq_seatId rq) (rq_eventId rq) w"
  by (auto simp: order_recorded_def order_of_def)

lemma stable_kept: "stable prog (promise_kept orders entries asked a)"
  unfolding promise_kept_def stable_def using stableD [OF stable_accepted] by blast

text \<open>The transaction records the order, the command \<open>XADD\<close> announces it.\<close>

lemma transaction_records:
  "rg prog prog (\<lambda>row. order_recorded orders rq (se_holdId ex) (ord_id row)) (\<lambda>_ _. True) (\<lambda>_. True)
    (db_do (pc_transaction_order (prisma svc) (create_order_transaction (prisma svc) rq ex)))"
  unfolding db_do_def
proof (rule rg_atomic, goal_cases)
  case (2 w w' row)
  then obtain d where tx: "pc_transaction_order (prisma svc) (create_order_transaction (prisma svc) rq ex) (w_db w) = (d, Inr row)"
    and w': "w' = w\<lparr>w_db := d\<rparr>" by (auto split: prod.splits)
  from create_order_committed [OF tx] have "order_recorded orders rq (se_holdId ex) (ord_id row) w'"
    unfolding w' by (auto simp: order_recorded_def order_placed_def order_data.truncate_def)
  with rg_atomic_move [OF rg_transaction [unfolded db_do_def] _ 2(2)] show ?case by simp
next
  case (3 w w' e)
  with rg_atomic_move [OF rg_transaction [unfolded db_do_def] _ 3(2)] show ?case by simp
qed (auto intro: stable_recorded)

lemma xadd_announces:
  fixes p :: OrderCreatedEventPayload
  assumes "oc_seatId p = rq_seatId rq" and "oc_eventId p = rq_eventId rq"
  shows "rg prog prog (\<lambda>_. order_accepted orders entries rq (oc_orderId p)) (\<lambda>_ _. True)
    (order_recorded orders rq (oc_holdId p) (oc_orderId p))
    (redis_do (c_xadd (redis svc) ORDER_STREAM_KEY (order_fields a now p)))"
  unfolding redis_do_def
proof (rule rg_atomic, goal_cases)
  case (2 w w' j)
  have "order_of orders (oc_holdId p) (oc_seatId p) (oc_eventId p) w" using recorded_order_of [OF 2(1)] assms by simp
  from rg_atomic_move [OF rg_xadd [unfolded redis_do_def] this 2(2)] have m: "prog w w'" .
  from 2 obtain r where x: "c_xadd (redis svc) ORDER_STREAM_KEY (order_fields a now p) (w_redis w) = (r, Inr j)"
    and w': "w' = w\<lparr>w_redis := r\<rparr>" by (auto split: prod.splits)
  from xadd_remote [OF x] have "(j, order_fields a now p) \<in> set (entries (w_redis w'))" unfolding w' by auto
  with stableD [OF stable_recorded 2(1) m] entry_payload_order have "order_accepted orders entries rq (oc_orderId p) w'"
    unfolding order_accepted_def by blast
  with m show ?case by blast
next
  case (3 w w' e)
  have "order_of orders (oc_holdId p) (oc_seatId p) (oc_eventId p) w" using recorded_order_of [OF 3(1)] assms by simp
  from rg_atomic_move [OF rg_xadd [unfolded redis_do_def] this 3(2)] show ?case by simp
qed (auto intro: stable_recorded stable_accepted)

lemma place_order_accepted:
  "rg prog prog (\<lambda>res. order_accepted orders entries rq (co_orderId res)) (\<lambda>_ _. True) (\<lambda>_. True) (place_order svc uuid rq ex)"
  unfolding place_order_def
proof (rule rg_await [OF transaction_records])
  fix row :: order_row
  let ?O = "order_recorded orders rq (se_holdId ex) (ord_id row)"
  have last: "rg prog prog (\<lambda>res. order_accepted orders entries rq (co_orderId res)) (\<lambda>_ _. True) ?O
     (await (redis_do (c_xadd (redis svc) ORDER_STREAM_KEY (order_fields (uuid 2) now2 (order_payload rq ex row))))
        (\<lambda>_. Ret \<lparr>co_orderId = ord_id row\<rparr>))" for now2
  proof (rule rg_await)
    show "rg prog prog (\<lambda>_. order_accepted orders entries rq (ord_id row)) (\<lambda>_ _. True) ?O
       (redis_do (c_xadd (redis svc) ORDER_STREAM_KEY (order_fields (uuid 2) now2 (order_payload rq ex row))))"
      using xadd_announces [of "order_payload rq ex row" rq] by (simp add: order_payload_def)
  qed (rule rg.rg_Ret, rule stable_accepted, simp)
  show "rg prog prog (\<lambda>res. order_accepted orders entries rq (co_orderId res)) (\<lambda>_ _. True) ?O
    (await Date_now (\<lambda>now1.
     await (publishSeatEvent svc (seat_event (uuid 1) now1 (se_holdId ex)
              (Held (rq_eventId rq) (rq_seatId rq) (se_holdId ex) (toISOString (se_expiresAt ex))))) (\<lambda>_.
     await Date_now (\<lambda>now2.
     await (redis_do (c_xadd (redis svc) ORDER_STREAM_KEY (order_fields (uuid 2) now2 (order_payload rq ex row)))) (\<lambda>_.
     Ret \<lparr>co_orderId = ord_id row\<rparr>)))))"
    by (intro rg_await_moves [OF moves_Date_now stable_recorded stable_recorded]
        rg_await_moves [OF moves_publish stable_recorded stable_recorded] last)
qed

lemma createOrder_accepted:
  "rg prog prog (\<lambda>res w. \<exists>rq. normalizeHoldRequest payload = Inr rq \<and> order_accepted orders entries rq (co_orderId res) w)
     (\<lambda>_ _. True) (registered svc sha1) (createOrder svc uuid payload)"
proof (cases "normalizeHoldRequest payload")
  case (Inl e)
  then show ?thesis by (simp add: createOrder_def sync_def rethrow_def ok_Throw rg.rg_Throw stable_registered)
next
  case (Inr rq)
  let ?post = "\<lambda>res w. \<exists>rq. normalizeHoldRequest payload = Inr rq \<and> order_accepted orders entries rq (co_orderId res) w"
  have placed: "rg prog prog ?post (\<lambda>_ _. True) (registered svc sha1) (place_order svc uuid rq ex)" for ex
    using rg_weaken [OF rg_conseq [OF place_order_accepted stable_registered]] Inr by force
  have held: "rg prog prog ?post (\<lambda>_ _. True) (registered svc sha1)
     (await (acquireSeatHold svc (uuid 0) (rq_eventId rq) (rq_seatId rq) (rq_userId rq) (Finite DEFAULT_HOLD_TTL_SECONDS)) (\<lambda>ex.
        if se_result ex \<noteq> RInt 1 then Throw (ConflictError ''Seat is currently unavailable or already held'')
        else place_order svc uuid rq ex))"
  proof (rule rg_await)
    show "rg prog prog (\<lambda>_. registered svc sha1) (\<lambda>_ _. True) (registered svc sha1)
       (acquireSeatHold svc (uuid 0) (rq_eventId rq) (rq_seatId rq) (rq_userId rq) (Finite DEFAULT_HOLD_TTL_SECONDS))"
      by (rule rg_weaken [OF ok_keeps [OF ok_acquire]]) auto
  qed (use placed in \<open>auto intro: rg.rg_Throw stable_registered\<close>)
  have "rg prog prog ?post (\<lambda>_ _. True) (registered svc sha1)
     (await (open_seat svc rq) (\<lambda>seat.
      await (acquireSeatHold svc (uuid 0) (rq_eventId rq) (rq_seatId rq) (rq_userId rq) (Finite DEFAULT_HOLD_TTL_SECONDS)) (\<lambda>ex.
        if se_result ex \<noteq> RInt 1 then Throw (ConflictError ''Seat is currently unavailable or already held'')
        else place_order svc uuid rq ex)))"
    by (rule rg_await_moves [OF moves_open_seat stable_registered stable_registered _ held]) simp
  with Inr show ?thesis by (simp add: createOrder_def sync_def rethrow_def)
qed

lemma orders_route_promises:
  "rg prog prog (promise_kept orders entries (\<lambda>rq. \<exists>parsed. createOrderRequestSchema Z (req_body request) = Inr parsed \<and>
      normalizeHoldRequest (hold_payload parsed) = Inr rq)) (\<lambda>_ _. True) (registered svc sha1)
    (createOrderHandler svc Z uuid request)"
proof (cases "createOrderRequestSchema Z (req_body request)")
  case (Inl message)
  then show ?thesis by (simp add: createOrderHandler_def rg.rg_Throw stable_registered)
next
  case (Inr parsed)
  show ?thesis
    unfolding createOrderHandler_def Inr sum.case answer_def
  proof (rule rg_await [OF createOrder_accepted])
    fix res
    have "order_answer j \<lparr>an_status = 202, an_headers = [], an_body = JsonBody (JObj [(''orderId'', JStr (co_orderId res)), (''status'', JStr ''PROCESSING'')])\<rparr>
      \<longleftrightarrow> j = co_orderId res" for j by (auto simp: order_answer_def)
    then show "rg prog prog (promise_kept orders entries (\<lambda>rq. \<exists>parsed'. Inr parsed = (Inr parsed' :: string + HoldSeatRequest) \<and>
        normalizeHoldRequest (hold_payload parsed') = Inr rq)) (\<lambda>_ _. True)
      (\<lambda>w. \<exists>rq. normalizeHoldRequest (hold_payload parsed) = Inr rq \<and> order_accepted orders entries rq (co_orderId res) w)
      (Ret \<lparr>an_status = 202, an_headers = [], an_body = JsonBody (JObj [(''orderId'', JStr (co_orderId res)), (''status'', JStr ''PROCESSING'')])\<rparr>)"
      by (intro rg.rg_Ret) (auto simp: promise_kept_def intro!: stable_intros stable_accepted)
  qed
qed

text \<open>What the request meets: the body parser, the limiter, and one handler or none.\<close>

lemma dispatch_cases:
  "dispatch matches routes request = Throw (NotFoundError ''Requested endpoint does not exist'') \<or>
   (\<exists>verb pattern handler params. (verb, pattern, handler) \<in> set routes \<and>
      dispatch matches routes request = handler (request\<lparr>req_params := params\<rparr>))"
proof (induction matches routes request rule: dispatch.induct)
  case (2 matches verb pattern handler routes request)
  show ?case
  proof (cases "matches pattern (req_path request)")
    case None
    with 2(1) show ?thesis by simp blast
  next
    case (Some params)
    show ?thesis
    proof (cases "req_method request = verb \<or> req_method request = ''HEAD'' \<and> verb = ''GET''")
      case False
      with Some 2(2) show ?thesis by simp blast
    qed (use Some in \<open>simp; blast\<close>)
  qed
qed simp

lemma route_promises:
  assumes "st_svc A = svc" and "st_geo A = G" and "st_bench A = B" and "(verb, pattern, handler) \<in> set (app_routes A D)"
    and "st_body A original = Inr (req_body request)"
  shows "rg prog prog (promise_kept orders entries (order_request A original)) (\<lambda>_ _. True) (registered svc sha1) (handler request)"
proof (cases "pattern = ''/api/v1/tickets/orders''")
  case True
  with assms(4) have "handler = createOrderHandler svc (st_zod A) (dw_uuid D)"
    by (auto simp: app_routes_def apiRouter_def mount_def ticketRouter_def eventRouter_def diagnosticsRouter_def assms(1))
  moreover have "order_request A original = (\<lambda>rq. \<exists>parsed. createOrderRequestSchema (st_zod A) (req_body request) = Inr parsed \<and>
      normalizeHoldRequest (hold_payload parsed) = Inr rq)" by (simp add: order_request_def fun_eq_iff assms(5))
  ultimately show ?thesis by (simp add: orders_route_promises)
next
  case False
  have "fits (replies (\<lambda>_. True) pattern) (handler request)" by (rule safe.fits_routes [OF assms(1-4)])
  then show ?thesis
    unfolding conforms_def
    by (rule rg_weaken) (use other_routes_silent [OF _ False] in \<open>auto simp: promise_kept_def\<close>)
qed

lemma request_promises:
  assumes "st_svc A = svc" and "st_geo A = G" and "st_bench A = B"
  shows "rg prog prog (promise_kept orders entries (order_request A request)) (\<lambda>_ _. True) (registered svc sha1)
    (handle_request A D request)"
proof (cases "st_body A request")
  case (Inl e)
  then show ?thesis
    by (auto simp: handle_request_def promise_kept_def intro!: rg.rg_Ret stable_registered)
next
  case (Inr body)
  let ?request = "request\<lparr>req_body := body\<rparr>"
  let ?kept = "promise_kept orders entries (order_request A request)"
  have error: "?kept (error_answer (st_env A) hs e) w" for hs e w
    by (simp add: promise_kept_def)
  have route: "rg prog prog ?kept (\<lambda>_ _. True) (registered svc sha1) (dispatch (st_match A) (app_routes A D) ?request)"
    using dispatch_cases [of "st_match A" "app_routes A D" ?request]
  proof (elim disjE exE conjE)
    fix verb pattern handler params
    assume m: "(verb, pattern, handler) \<in> set (app_routes A D)"
      and d: "dispatch (st_match A) (app_routes A D) ?request = handler (?request\<lparr>req_params := params\<rparr>)"
    show ?thesis unfolding d by (rule route_promises [OF assms m]) (simp add: Inr)
  next
    assume d: "dispatch (st_match A) (app_routes A D) ?request = Throw (NotFoundError ''Requested endpoint does not exist'')"
    show ?thesis unfolding d by (rule rg.rg_Throw [OF stable_registered]) simp
  qed
  have rest: "rg prog prog ?kept (\<lambda>_ _. True) (registered svc sha1)
     (await (settled (dispatch (st_match A) (app_routes A D) ?request)) (\<lambda>outcome.
        case outcome of Inl error \<Rightarrow> Ret (error_answer (st_env A) hs error)
        | Inr result \<Rightarrow> Ret (result\<lparr>an_headers := hs @ an_headers result\<rparr>)))" for hs
  proof (rule rg_await)
    show "rg prog prog (\<lambda>r w. \<forall>a. r = Inr a \<longrightarrow> ?kept a w) (\<lambda>_ _. True) (registered svc sha1)
       (settled (dispatch (st_match A) (app_routes A D) ?request))"
      by (rule rg_settled [OF route]) auto
  qed (auto simp: error split: sum.split intro!: rg.rg_Ret stable_const stable_kept)
  have "keyPrefix (limiter_options A) = None" by (simp add: limiter_options_def)
  note limiter = safe.conforms_settled [OF safe.fits_limiter [OF this], unfolded conforms_def]
  have gate: "rg prog prog (\<lambda>gate w. registered svc sha1 w \<and> (\<forall>a. gate = Inr a \<longrightarrow> refusal_typed a)) (\<lambda>_ _. True)
      (registered svc sha1) (settled (rateLimiter svc (st_disable A) (dw_limit D) (limiter_options A) ?request))"
    by (rule rg_weaken [OF limiter]) auto
  show ?thesis
    unfolding handle_request_def Inr sum.case Let_def assms(1)
  proof (rule rg_await [OF gate])
    fix gate
    show "rg prog prog ?kept (\<lambda>_ _. True) (\<lambda>w. registered svc sha1 w \<and> (\<forall>a. gate = Inr a \<longrightarrow> refusal_typed a))
       (case gate of
          Inl error \<Rightarrow> Ret (error_answer (st_env A) [] error)
        | Inr (Respond r) \<Rightarrow> Ret \<lparr>an_status = res_status r, an_headers = res_headers r, an_body = JsonBody (res_json r)\<rparr>
        | Inr (Next hs) \<Rightarrow>
            await (settled (dispatch (st_match A) (app_routes A D) ?request)) (\<lambda>outcome.
              case outcome of Inl error \<Rightarrow> Ret (error_answer (st_env A) hs error)
              | Inr result \<Rightarrow> Ret (result\<lparr>an_headers := hs @ an_headers result\<rparr>)))"
      using errors_silent
      by (auto simp: error promise_kept_def refusal_typed_def split: sum.split outcome.split
          intro!: rg.rg_Ret stable_intros stable_registered rg_conseq [OF rest])
  qed
qed

text \<open>The promise in the whole engine.\<close>

lemma party_promises:
  assumes "st_svc A = svc" and "st_geo A = G" and "st_bench A = B"
  shows "rg prog prog (\<lambda>r w. \<forall>D request a. p = Client D request \<longrightarrow> r = Some a \<longrightarrow>
      promise_kept orders entries (order_request A request) a w) (\<lambda>_ _. True) (registered svc sha1) (party_proc A p)"
proof (cases p)
  case (Client D request)
  show ?thesis unfolding Client party_proc.simps
    by (rule rg_await [OF request_promises [OF assms]]) (auto intro!: rg.rg_Ret stable_kept)
qed (use safe.fits_party [OF assms, of p] in \<open>auto simp: conforms_def elim: rg_weaken\<close>)

lemma engine_promises:
  assumes "st_svc A = svc" and "st_geo A = G" and "st_bench A = B" and "registered svc sha1 w"
    and "pool_steps prog (w, map (party_proc A) parties) (w', ps')"
    and "i < length parties" and "parties ! i = Client D request" and "ps' ! i = Ret (Some a)"
  shows "promise_kept orders entries (order_request A request) a w'"
proof -
  let ?Q = "\<lambda>i r w. \<forall>D request a. parties ! i = Client D request \<longrightarrow> r = Some a \<longrightarrow>
      promise_kept orders entries (order_request A request) a w"
  have "disciplined.holding prog ?Q (\<lambda>_ _ _. True) (w, map (party_proc A) parties)"
    unfolding disciplined.holding_def using party_promises [OF assms(1-3)] assms(4) by auto
  from disciplined.finished_returned [OF assms(5) this, of i] assms(6-8) show ?thesis by simp
qed

end

section \<open>Properties\<close>

text \<open>
  Claim C4.  A request that was answered \<open>202\<close> with an order id is never forgotten.  Whatever
  other requests, workers and shutdowns do from then on, and whatever of it fails, the order of
  that id is in the database, for the event, the seat and the user that were asked for, and its
  message is in the order stream: still to be handed out, or on the pending list, or settled,
  and then the order is booked.
\<close>

theorem accepted_order_kept:
  assumes "engine_api S pttl elapse (st_svc A) sha1 entries undelivered pending seats orders events (st_geo A) (st_bench A)"
    and "registered (st_svc A) sha1 w" and "consistent seats orders entries undelivered pending w"
    and "pool_steps (elsewhere entries undelivered pending) (w, map (party_proc A) parties) (w', ps')"
    and "i < length parties" and "parties ! i = Client D request" and "ps' ! i = Ret (Some a)" and "order_answer j a"
  shows "\<exists>rq row e p u. order_request A request rq \<and>
    orders (w_db w') (oc_holdId p) = Some row \<and> ord_id row = j \<and> ord_eventId row = rq_eventId rq \<and>
    ord_seatId row = rq_seatId rq \<and> ord_userId row = rq_userId rq \<and>
    e \<in> set (entries (w_redis w')) \<and> entry_payload e = Some p \<and> oc_orderId p = j \<and> undelivered (w_redis w') = Some u \<and>
    (fst e \<in> set u \<or> fst e \<in> pending (w_redis w') \<or> ord_status row = BOOKED)"
proof -
  note steps = pool_steps_mono [OF assms(4) elsewhere_progress]
  have "promise_kept orders entries (order_request A request) a w'"
    by (rule engine_api.engine_promises [OF assms(1) refl refl refl assms(2) steps assms(5-7)])
  with assms(8) obtain rq e p row where o: "order_request A request rq" "orders (w_db w') (oc_holdId p) = Some row" "ord_id row = j"
      "ord_eventId row = rq_eventId rq" "ord_seatId row = rq_seatId rq" "ord_userId row = rq_userId rq"
    and e: "e \<in> set (entries (w_redis w'))" "entry_payload e = Some p" "oc_orderId p = j"
    unfolding promise_kept_def order_accepted_def order_recorded_def by blast
  have "consistent seats orders entries undelivered pending w'"
    by (rule progress_chain(4) [OF engine_api.engine_chain [OF assms(1) refl refl refl assms(2,4)] assms(3)])
  then obtain u where u: "undelivered (w_redis w') = Some u"
    and kept: "fst e \<in> set u \<or> fst e \<in> pending (w_redis w') \<or> booked orders (oc_holdId p) (w_db w')"
    using e unfolding consistent_def none_lost_def entry_settled_def by force
  with o e have "fst e \<in> set u \<or> fst e \<in> pending (w_redis w') \<or> ord_status row = BOOKED" by (auto simp: booked_def)
  with o e u show ?thesis by blast
qed

theorem accepted_order_kept_witness:
  "\<exists>w' a j h row. pool_steps (elsewhere ref_entries rs_undelivered (\<lambda>r. set (rs_pel r)))
      (ref_world, map (party_proc ref_app) ref_parties) (w', [Ret (Some a), Ret None, Ret None]) \<and>
    order_answer j a \<and> ref_orders (w_db w') h = Some row \<and> ord_id row = j"
proof -
  obtain w' a j where s: "pool_steps (elsewhere ref_entries rs_undelivered (\<lambda>r. set (rs_pel r)))
      (ref_world, map (party_proc ref_app) ref_parties) (w', [Ret (Some a), Ret None, Ret None])"
    and a: "order_answer j a" using ref_parties_run unfolding order_answer_def by blast
  have reg: "registered (st_svc ref_app) ref_sha1 ref_world" by (simp add: ref_app_def ref_registered)
  have i: "0 < length ref_parties" "ref_parties ! 0 = Client (sample_draws\<lparr>dw_uuid := \<lambda>_. ''h1''\<rparr>) ref_order_http"
    by (simp_all add: ref_parties_def)
  from accepted_order_kept [OF ref_app_api reg ref_world_consistent s i _ a] have
    "\<exists>h row. ref_orders (w_db w') h = Some row \<and> ord_id row = j" by auto
  with s a show ?thesis by blast
qed

end
