(* ===== verification/Socket_Process.thy ===== *)
theory Socket_Process imports Websocket Rely_Guarantee begin

text \<open>
  A started WebSocket server: \<open>startWebSocketServer\<close> and the \<open>close\<close> it returns, with the
  adapter that feeds it.  The sockets and rooms are the state of \<open>Websocket\<close>, the adapter that of
  \<open>Seat_Events\<close>; here are the listeners on the HTTP server, the timer of the heartbeat and the
  \<open>ws\<close> server itself, which takes no upgrade once it is closing and calls back when its last
  client is gone.  Between two awaits anything may happen that the library or Redis reports.
\<close>

section \<open>The state\<close>

text \<open>
  \<open>sp_listening\<close>: the handlers of \<open>upgrade\<close> and \<open>connection\<close> are installed.  The only listener
  the adapter gets is \<open>onSeatEvent\<close> of this server.
\<close>

record ('s, 'k) socket_process =
  sp_adapter :: "('s, unit) adapter"
  sp_server :: "'k ws_server"
  sp_listening :: bool
  sp_heartbeat :: bool
  sp_closing :: bool

definition new_adapter :: "'s \<Rightarrow> ('s, 'l) adapter" where
  "new_adapter clients = \<lparr>ad_clients = clients, ad_listener = None, ad_connected = False, ad_handlers = 0\<rparr>"

primrec with_adapter :: "(('s, unit) adapter, 'a) proc \<Rightarrow> (('s, 'k) socket_process, 'a) proc" where
  "with_adapter (Ret a) = Ret a"
| "with_adapter (Throw e) = Throw e"
| "with_adapter (Act f) =
     Act (\<lambda>p. case map_prod id with_adapter (f (sp_adapter p)) of (a, q) \<Rightarrow> (p\<lparr>sp_adapter := a\<rparr>, q))"

section \<open>Start and close\<close>

definition startWebSocketServer :: "'s pubsub_clients \<Rightarrow> (('s, 'k) socket_process, unit) proc" where
  "startWebSocketServer C =
     await (modifies (\<lambda>p. p\<lparr>sp_server := ws_init, sp_closing := False\<rparr>)) (\<lambda>_.
     await (with_adapter (adapter_connect C ())) (\<lambda>_.
     modifies (\<lambda>p. p\<lparr>sp_listening := True, sp_heartbeat := True\<rparr>)))"

definition closeWebSocketServer :: "'s pubsub_clients \<Rightarrow> (('s, 'k) socket_process, unit) proc" where
  "closeWebSocketServer C =
     await (modifies (\<lambda>p. p\<lparr>sp_heartbeat := False, sp_server := close_sockets (sp_server p)\<rparr>)) (\<lambda>_.
     await (with_adapter (adapter_disconnect C)) (\<lambda>_.
     modifies (\<lambda>p. p\<lparr>sp_closing := True\<rparr>)))"

text \<open>The promise \<open>close\<close> waits for at its end is resolved when this holds.\<close>

definition ws_closed :: "('s, 'k) socket_process \<Rightarrow> bool" where
  "ws_closed p \<longleftrightarrow> sp_closing p \<and> ws_clients (sp_server p) = []"

section \<open>What is reported to it\<close>

text \<open>An upgrade of a new socket, with its URL; anything of a connected socket; a message on the channel; the timer.\<close>

datatype 'k report =
    Upgrade 'k "string option"
  | FromSocket "'k ws_event"
  | FromRedis string string
  | Timer

fun of_socket :: "'k ws_event \<Rightarrow> bool" where
  "of_socket (Pong s) = True"
| "of_socket (Data s data) = True"
| "of_socket (Closing s) = True"
| "of_socket (Closed s) = True"
| "of_socket e = False"

fun sp_handle ::
  "zod_formats \<Rightarrow> (string \<Rightarrow> string) \<Rightarrow> 'k report \<Rightarrow> ('s, 'k) socket_process \<Rightarrow> ('s, 'k) socket_process" where
  "sp_handle Z pathname (Upgrade s url) p =
     (if sp_listening p \<and> upgrade_accepted pathname url \<and> \<not> sp_closing p \<and> ws_states (sp_server p) s = None
      then p\<lparr>sp_server := ws_handle (Connected s) (sp_server p)\<rparr> else p)"
| "sp_handle Z pathname (FromSocket e) p = (if of_socket e then p\<lparr>sp_server := ws_handle e (sp_server p)\<rparr> else p)"
| "sp_handle Z pathname (FromRedis channel raw) p =
     p\<lparr>sp_server := fold (\<lambda>(l, event). ws_handle (SeatEvent event)) (dispatched Z (sp_adapter p) channel raw) (sp_server p)\<rparr>"
| "sp_handle Z pathname Timer p = (if sp_heartbeat p then p\<lparr>sp_server := ws_handle Heartbeat (sp_server p)\<rparr> else p)"

text \<open>The environment of \<open>startWebSocketServer\<close> and \<open>close\<close>: any report.\<close>

definition reported ::
  "zod_formats \<Rightarrow> (string \<Rightarrow> string) \<Rightarrow> ('s, 'k) socket_process \<Rightarrow> ('s, 'k) socket_process \<Rightarrow> bool" where
  "reported Z pathname p p' \<longleftrightarrow> (\<exists>report. p' = sp_handle Z pathname report p)"

lemma run_with_adapter [run_simps]:
  "run (with_adapter q) p = (case run q (sp_adapter p) of (a, x) \<Rightarrow> (p\<lparr>sp_adapter := a\<rparr>, x))"
proof (induction q arbitrary: p)
  case (Act f)
  obtain a q where f: "f (sp_adapter p) = (a, q)" by force
  with Act.IH [OF f, of "p\<lparr>sp_adapter := a\<rparr>"] show ?case by (simp add: run_Act split: prod.split)
qed simp_all

section \<open>The rooms stay right\<close>

lemma sp_handle_ok: "rooms_ok (sp_server p) \<Longrightarrow> rooms_ok (sp_server (sp_handle Z pathname r p))"
proof (cases r)
  case (FromSocket e)
  moreover assume "rooms_ok (sp_server p)"
  ultimately show ?thesis by (cases e) (auto intro!: ws_handle_ok simp del: ws_handle.simps)
next
  case (FromRedis channel raw)
  moreover assume "rooms_ok (sp_server p)"
  ultimately show ?thesis by (auto intro!: fold_ok onSeatEvent_ok)
qed (auto intro!: ws_handle_ok simp del: ws_handle.simps)

lemma ws_init_ok: "rooms_ok ws_init"
  by (simp add: rooms_ok_def in_room_def subscribed_def ws_init_def)

lemma close_sockets_ok: "rooms_ok srv \<Longrightarrow> rooms_ok (close_sockets srv)"
  using ws_handle_ok [of srv Shutdown] by simp

section \<open>Closing the sockets\<close>

lemma close_fold:
  "ws_clients (fold (\<lambda>socket s. (removeFromRooms socket s)\<lparr>ws_open := (ws_open s)(socket := False)\<rparr>) cs srv) = ws_clients srv \<and>
   ws_outbox (fold (\<lambda>socket s. (removeFromRooms socket s)\<lparr>ws_open := (ws_open s)(socket := False)\<rparr>) cs srv) = ws_outbox srv \<and>
   (ws_open (fold (\<lambda>socket s. (removeFromRooms socket s)\<lparr>ws_open := (ws_open s)(socket := False)\<rparr>) cs srv) s' \<longleftrightarrow>
     ws_open srv s' \<and> s' \<notin> set cs) \<and>
   (subscribed (fold (\<lambda>socket s. (removeFromRooms socket s)\<lparr>ws_open := (ws_open s)(socket := False)\<rparr>) cs srv) ev s' \<longleftrightarrow>
     subscribed srv ev s' \<and> s' \<notin> set cs)"
  by (induction cs arbitrary: srv) (auto simp: removeFromRooms_subscribed)

lemma close_sockets_effect:
  "ws_clients (close_sockets srv) = ws_clients srv" "ws_outbox (close_sockets srv) = ws_outbox srv"
  "ws_open (close_sockets srv) s \<longleftrightarrow> ws_open srv s \<and> s \<notin> set (ws_clients srv)"
  "subscribed (close_sockets srv) ev s \<longleftrightarrow> subscribed srv ev s \<and> s \<notin> set (ws_clients srv)"
  using close_fold [of "ws_clients srv" srv s ev] by (simp_all add: close_sockets_def)

section \<open>One process among reports\<close>

interpretation alone: compatible "\<lambda>i. if i = 0 then env else (\<lambda>_ _. True)" "\<lambda>i. if i = 0 then (\<lambda>_ _. True) else (\<lambda>_ _. False)" env for env
  by unfold_locales auto

lemma alone_finished:
  assumes "pool_steps env (w, [p]) (w', [rethrow r])" and "rg env (\<lambda>_ _. True) (\<lambda>a w. Q (Inr a) w) (\<lambda>e w. Q (Inl e) w) A p" and "A w"
  shows "Q r w'"
proof -
  have h: "alone.holding env (\<lambda>_ a w. Q (Inr a) w) (\<lambda>_ e w. Q (Inl e) w) (w, [p])"
    unfolding alone.holding_def using assms(2,3) by auto
  show ?thesis
  proof (cases r)
    case (Inl e)
    with alone.finished_threw [OF assms(1) h, of 0 e] show ?thesis by (simp add: rethrow_def)
  next
    case (Inr a)
    with alone.finished_returned [OF assms(1) h, of 0 a] show ?thesis by (simp add: rethrow_def)
  qed
qed

lemma with_adapter_await:
  fixes q :: "(('s, unit) adapter, 'a) proc" and k :: "'a \<Rightarrow> (('s, unit) adapter, 'b) proc"
  shows "with_adapter (await q k) = (await (with_adapter q) (\<lambda>x. with_adapter (k x)) :: (('s, 'k) socket_process, 'b) proc)"
proof (induction q)
  case (Act f)
  have "with_adapter (await (snd (f a)) k) = (await (with_adapter (snd (f a))) (\<lambda>x. with_adapter (k x)) :: (('s, 'k) socket_process, 'b) proc)" for a
    using Act.IH [of a "fst (f a)" "snd (f a)"] by simp
  then show ?case by (simp add: fun_eq_iff comp_def split_def map_prod_def)
qed simp_all

lemma with_adapter_actions:
  "with_adapter (modifies f) = modifies (\<lambda>p. p\<lparr>sp_adapter := f (sp_adapter p)\<rparr>)"
  "with_adapter (atomic g) = atomic (\<lambda>p. case g (sp_adapter p) of (a, x) \<Rightarrow> (p\<lparr>sp_adapter := a\<rparr>, x))"
  by (auto simp: modifies_def atomic_def rethrow_def fun_eq_iff split: prod.split sum.split)

section \<open>What a report can change\<close>

text \<open>A socket that is known, and connected unless it is not open.\<close>

definition tracked :: "('s, 'k) socket_process \<Rightarrow> 'k \<Rightarrow> bool" where
  "tracked p s \<longleftrightarrow> ws_states (sp_server p) s \<noteq> None \<and> (s \<in> set (ws_clients (sp_server p)) \<or> \<not> ws_open (sp_server p) s)"

lemma states_known:
  "ws_states srv s \<noteq> None \<Longrightarrow> ws_states (removeFromRooms s' srv) s \<noteq> None"
  "ws_states srv s \<noteq> None \<Longrightarrow> ws_states (beat s' srv) s \<noteq> None"
  "ws_states srv s \<noteq> None \<Longrightarrow> ws_states (on_message s' data srv) s \<noteq> None"
  "ws_states srv s \<noteq> None \<Longrightarrow> ws_states (on_pong s' srv) s \<noteq> None"
  by (auto simp: removeFromRooms_states beat_def on_message_def on_pong_def Let_def
      split: option.split WebSocketClientFrame.split simp del: stringify.simps)

lemma report_adapter: "sp_adapter (sp_handle Z pathname r p) = sp_adapter p \<and> sp_heartbeat (sp_handle Z pathname r p) = sp_heartbeat p \<and>
    sp_closing (sp_handle Z pathname r p) = sp_closing p \<and> sp_listening (sp_handle Z pathname r p) = sp_listening p"
  by (cases r) auto

text \<open>What no event of the server but its own can undo for a known socket.\<close>

definition socket_kept :: "'k \<Rightarrow> 'k ws_server \<Rightarrow> 'k ws_server \<Rightarrow> bool" where
  "socket_kept s srv srv' \<longleftrightarrow> (ws_states srv s \<noteq> None \<longrightarrow> ws_states srv' s \<noteq> None) \<and> set (ws_clients srv') = set (ws_clients srv) \<and>
     (ws_open srv' s \<longrightarrow> ws_open srv s)"

lemma socket_kept_refl [simp]: "socket_kept s srv srv"
  by (simp add: socket_kept_def)

lemma socket_kept_fold: "(\<And>x srv'. socket_kept s srv' (f x srv')) \<Longrightarrow> socket_kept s srv (fold f xs srv)"
proof (induction xs arbitrary: srv)
  case (Cons x xs)
  from Cons.prems have "socket_kept s srv (f x srv)" .
  moreover have "socket_kept s (f x srv) (fold f xs (f x srv))" by (rule Cons.IH) (rule Cons.prems)
  ultimately show ?case by (simp add: socket_kept_def)
qed simp

lemma ws_send_views [simp]: "ws_clients (ws_send s m srv) = ws_clients srv" "ws_open (ws_send s m srv) = ws_open srv"
  by (simp_all add: ws_send_def)

lemma on_message_views: "ws_clients (on_message s' data srv) = ws_clients srv" "ws_open (on_message s' data srv) = ws_open srv"
  by (auto simp: on_message_def Let_def split: option.split WebSocketClientFrame.split simp del: stringify.simps)

lemma beat_views: "ws_clients (beat s' srv) = ws_clients srv" "ws_open (beat s' srv) s \<longrightarrow> ws_open srv s"
  by (auto simp: beat_def Let_def split: option.splits if_splits)

lemma deliver_kept: "socket_kept s srv (onSeatEvent e srv)"
  by (auto simp: onSeatEvent_def Let_def split: option.split intro!: socket_kept_fold)
     (auto simp: socket_kept_def states_known)

lemma heartbeat_kept: "socket_kept s srv (heartbeat srv)"
  unfolding heartbeat_def
proof (rule socket_kept_fold)
  show "socket_kept s srv' (beat x srv')" for x and srv' :: "'a ws_server"
    using beat_views [of x srv'] states_known(2) [of srv' s x] by (simp add: socket_kept_def)
qed

lemma event_kept:
  assumes "of_socket e" and "ws_states srv s \<noteq> None"
  shows "ws_states (ws_handle e srv) s \<noteq> None"
    and "s \<in> set (ws_clients (ws_handle e srv)) \<longleftrightarrow> s \<in> set (ws_clients srv) \<and> e \<noteq> Closed s"
    and "ws_open (ws_handle e srv) s \<longleftrightarrow> ws_open srv s \<and> e \<noteq> Closed s \<and> e \<noteq> Closing s"
proof -
  have pong: "ws_clients (on_pong s' srv) = ws_clients srv" "ws_open (on_pong s' srv) = ws_open srv" for s'
    by (simp_all add: on_pong_def split: option.split)
  show "ws_states (ws_handle e srv) s \<noteq> None"
    using assms by (cases e) (simp_all add: states_known)
  show "s \<in> set (ws_clients (ws_handle e srv)) \<longleftrightarrow> s \<in> set (ws_clients srv) \<and> e \<noteq> Closed s"
    using assms(1) by (cases e) (auto simp: on_message_views pong)
  show "ws_open (ws_handle e srv) s \<longleftrightarrow> ws_open srv s \<and> e \<noteq> Closed s \<and> e \<noteq> Closing s"
    using assms(1) by (cases e) (auto simp: on_message_views pong)
qed

lemma tracked_report: "tracked p s \<Longrightarrow> tracked (sp_handle Z pathname r p) s"
proof (cases r)
  case (Upgrade s' url)
  moreover assume "tracked p s"
  ultimately show ?thesis by (auto simp: tracked_def on_connection_def)
next
  case (FromSocket e)
  assume "tracked p s"
  with FromSocket event_kept [of e "sp_server p" s] show ?thesis by (auto simp: tracked_def)
next
  case (FromRedis channel raw)
  have "socket_kept s (sp_server p) (sp_server (sp_handle Z pathname r p))"
    unfolding FromRedis by (auto intro!: socket_kept_fold deliver_kept)
  moreover assume "tracked p s"
  ultimately show ?thesis by (auto simp: tracked_def socket_kept_def)
next
  case Timer
  moreover assume "tracked p s"
  ultimately show ?thesis using heartbeat_kept [of s "sp_server p"] by (auto simp: tracked_def socket_kept_def)
qed

text \<open>Known and not open: it stays so.\<close>

definition shut :: "('s, 'k) socket_process \<Rightarrow> 'k \<Rightarrow> bool" where
  "shut p s \<longleftrightarrow> ws_states (sp_server p) s \<noteq> None \<and> \<not> ws_open (sp_server p) s"

lemma shut_report: "shut p s \<Longrightarrow> shut (sp_handle Z pathname r p) s"
proof (cases r)
  case (Upgrade s' url)
  moreover assume "shut p s"
  ultimately show ?thesis by (auto simp: shut_def on_connection_def)
next
  case (FromSocket e)
  assume "shut p s"
  with FromSocket event_kept [of e "sp_server p" s] show ?thesis by (auto simp: shut_def)
next
  case (FromRedis channel raw)
  have "socket_kept s (sp_server p) (sp_server (sp_handle Z pathname r p))"
    unfolding FromRedis by (auto intro!: socket_kept_fold deliver_kept)
  moreover assume "shut p s"
  ultimately show ?thesis by (auto simp: shut_def socket_kept_def)
next
  case Timer
  moreover assume "shut p s"
  ultimately show ?thesis using heartbeat_kept [of s "sp_server p"] by (auto simp: shut_def socket_kept_def)
qed

lemma close_sockets_shut:
  "tracked p s \<Longrightarrow> shut (p\<lparr>sp_heartbeat := False, sp_server := close_sockets (sp_server p)\<rparr>) s"
proof -
  assume t: "tracked p s"
  then have "ws_states (close_sockets (sp_server p)) s \<noteq> None"
    unfolding close_sockets_def
    by (intro fold_inv [where P = "\<lambda>srv. ws_states srv s \<noteq> None"]) (auto simp: tracked_def states_known)
  with t show ?thesis by (auto simp: shut_def tracked_def close_sockets_effect)
qed

section \<open>Closing beside anything\<close>

definition hushed :: "'k set \<Rightarrow> ('s, 'k) socket_process \<Rightarrow> bool" where
  "hushed K p \<longleftrightarrow> (\<forall>s \<in> K. shut p s) \<and> \<not> sp_heartbeat p \<and> ad_listener (sp_adapter p) = None \<and> \<not> ad_connected (sp_adapter p)"

lemma stable_tracked: "stable (reported Z pathname) (\<lambda>p. \<forall>s \<in> K. tracked p s)"
  by (rule stableI) (auto simp: reported_def tracked_report)

lemma stable_shut: "stable (reported Z pathname) (\<lambda>p. (\<forall>s \<in> K. shut p s) \<and> \<not> sp_heartbeat p)"
  by (rule stableI) (auto simp: reported_def shut_report report_adapter)

lemma stable_hushed: "stable (reported Z pathname) (\<lambda>p. hushed K p \<and> (c \<longrightarrow> sp_closing p))"
  by (rule stableI) (auto simp: reported_def hushed_def shut_report report_adapter)

lemma client_do_quiet:
  "rg (reported Z pathname) (\<lambda>_ _. True) (\<lambda>_ p. hushed K p \<and> (False \<longrightarrow> sp_closing p)) (\<lambda>_ p. hushed K p \<and> (False \<longrightarrow> sp_closing p))
    (\<lambda>p. hushed K p \<and> (False \<longrightarrow> sp_closing p)) (with_adapter (client_do c))"
  unfolding client_do_def with_adapter_actions
proof (rule rg_atomic, goal_cases)
  case (2 p p' x)
  then show ?case by (auto simp: hushed_def shut_def split: prod.splits)
next
  case (3 p p' e)
  then show ?case by (auto simp: hushed_def shut_def split: prod.splits)
qed (rule stable_hushed)+

lemma close_quiet:
  "rg (reported Z pathname) (\<lambda>_ _. True) (\<lambda>_ p. hushed K p \<and> (True \<longrightarrow> sp_closing p)) (\<lambda>_ p. hushed K p \<and> (False \<longrightarrow> sp_closing p))
    (\<lambda>p. \<forall>s \<in> K. tracked p s) (closeWebSocketServer C)"
  unfolding closeWebSocketServer_def adapter_disconnect_def with_adapter_await with_adapter_actions(1)
proof (rule rg_await)
  show "rg (reported Z pathname) (\<lambda>_ _. True) (\<lambda>_ p. (\<forall>s \<in> K. shut p s) \<and> \<not> sp_heartbeat p)
     (\<lambda>_ p. hushed K p \<and> (False \<longrightarrow> sp_closing p)) (\<lambda>p. \<forall>s \<in> K. tracked p s)
     (modifies (\<lambda>p. p\<lparr>sp_heartbeat := False, sp_server := close_sockets (sp_server p)\<rparr>))"
    by (rule rg_modifies [OF stable_tracked _ stable_shut]) (simp add: close_sockets_shut)
next
  show "rg (reported Z pathname) (\<lambda>_ _. True) (\<lambda>_ p. hushed K p \<and> (True \<longrightarrow> sp_closing p)) (\<lambda>_ p. hushed K p \<and> (False \<longrightarrow> sp_closing p))
     (\<lambda>p. (\<forall>s \<in> K. shut p s) \<and> \<not> sp_heartbeat p)
     (await (await (modifies (\<lambda>p. p\<lparr>sp_adapter := (sp_adapter p)\<lparr>ad_listener := None, ad_connected := False\<rparr>\<rparr>)) (\<lambda>x.
        await (with_adapter (client_do (\<lambda>s. if subscriber_status C s \<noteq> ''end'' then subscriber_quit C s else (s, Inr ())))) (\<lambda>x.
        with_adapter (client_do (\<lambda>s. if publisher_status C s \<noteq> ''end'' then publisher_quit C s else (s, Inr ()))))))
      (\<lambda>_. modifies (\<lambda>p. p\<lparr>sp_closing := True\<rparr>)))"
  proof (rule rg_await, rule rg_await)
    show "rg (reported Z pathname) (\<lambda>_ _. True) (\<lambda>_ p. hushed K p \<and> (False \<longrightarrow> sp_closing p)) (\<lambda>_ p. hushed K p \<and> (False \<longrightarrow> sp_closing p))
       (\<lambda>p. (\<forall>s \<in> K. shut p s) \<and> \<not> sp_heartbeat p)
       (modifies (\<lambda>p. p\<lparr>sp_adapter := (sp_adapter p)\<lparr>ad_listener := None, ad_connected := False\<rparr>\<rparr>))"
      by (rule rg_modifies [OF stable_shut _ stable_hushed]) (auto simp: hushed_def shut_def)
  next
    show "rg (reported Z pathname) (\<lambda>_ _. True) (\<lambda>_ p. hushed K p \<and> (False \<longrightarrow> sp_closing p)) (\<lambda>_ p. hushed K p \<and> (False \<longrightarrow> sp_closing p))
       (\<lambda>p. hushed K p \<and> (False \<longrightarrow> sp_closing p))
       (await (with_adapter (client_do (\<lambda>s. if subscriber_status C s \<noteq> ''end'' then subscriber_quit C s else (s, Inr ())))) (\<lambda>x.
        with_adapter (client_do (\<lambda>s. if publisher_status C s \<noteq> ''end'' then publisher_quit C s else (s, Inr ())))))"
      by (rule rg_await [OF client_do_quiet client_do_quiet])
  next
    show "rg (reported Z pathname) (\<lambda>_ _. True) (\<lambda>_ p. hushed K p \<and> (True \<longrightarrow> sp_closing p)) (\<lambda>_ p. hushed K p \<and> (False \<longrightarrow> sp_closing p))
       (\<lambda>p. hushed K p \<and> (False \<longrightarrow> sp_closing p)) (modifies (\<lambda>p. p\<lparr>sp_closing := True\<rparr>))"
      by (rule rg_modifies [OF stable_hushed _ stable_hushed]) (auto simp: hushed_def shut_def)
  qed
qed

text \<open>With no listener and no timer, messages and the timer do nothing.\<close>

lemma quiet_report:
  assumes "hushed K p"
  shows "sp_handle Z pathname (FromRedis channel raw) p = p" and "sp_handle Z pathname Timer p = p"
  using assms by (simp_all add: hushed_def dispatched_def handle_message_def)

lemma quiet_reports: "hushed K p \<Longrightarrow> hushed K (fold (sp_handle Z pathname) reports p)"
  by (induction reports arbitrary: p) (auto simp: hushed_def shut_report report_adapter)

lemma open_waits:
  assumes "hushed K p" and "ws_states (sp_server p) s \<noteq> None" and "s \<in> set (ws_clients (sp_server p))"
    and "FromSocket (Closed s) \<notin> set reports"
  shows "s \<in> set (ws_clients (sp_server (fold (sp_handle Z pathname) reports p))) \<and>
    (FromSocket (Closing s) \<notin> set reports \<longrightarrow> ws_open (sp_server p) s \<longrightarrow>
      ws_open (sp_server (fold (sp_handle Z pathname) reports p)) s)"
  using assms
proof (induction reports arbitrary: p)
  case (Cons r reports)
  let ?p = "sp_handle Z pathname r p"
  have "hushed K ?p" using quiet_reports [OF Cons.prems(1), of Z pathname "[r]"] by simp
  moreover have "ws_states (sp_server ?p) s \<noteq> None \<and> s \<in> set (ws_clients (sp_server ?p)) \<and>
      (r \<noteq> FromSocket (Closing s) \<longrightarrow> ws_open (sp_server p) s \<longrightarrow> ws_open (sp_server ?p) s)"
  proof (cases r)
    case (Upgrade s' url)
    with Cons.prems show ?thesis by (auto simp: on_connection_def)
  next
    case (FromSocket e)
    with Cons.prems event_kept [of e "sp_server p" s] show ?thesis by auto
  qed (use Cons.prems quiet_report [OF Cons.prems(1)] in simp_all)
  ultimately show ?case using Cons.IH [of ?p] Cons.prems(4) by auto
qed simp

section \<open>A server with clients that always answer\<close>

definition new_process :: "'s \<Rightarrow> ('s, 'k) socket_process" where
  "new_process clients = \<lparr>sp_adapter = new_adapter clients, sp_server = ws_init, sp_listening = False, sp_heartbeat = False,
     sp_closing = False\<rparr>"

definition willing_clients :: "string pubsub_clients" where
  "willing_clients = \<lparr>publisher_status = (\<lambda>s. s), subscriber_status = (\<lambda>s. s), publisher_connect = (\<lambda>s. (s, Inr ())),
     subscriber_connect = (\<lambda>s. (''ready'', Inr ())), subscriber_subscribe = (\<lambda>ch s. (s, Inr ())),
     publisher_quit = (\<lambda>s. (''end'', Inr ())), subscriber_quit = (\<lambda>s. (s, Inr ()))\<rparr>"

definition any_format :: zod_formats where
  "any_format = \<lparr>is_uuid = (\<lambda>_. True), is_datetime = (\<lambda>_. True)\<rparr>"

definition started :: "(string, nat) socket_process" where
  "started = fst (run (startWebSocketServer willing_clients) (new_process ''wait''))"

lemma started_run: "run (startWebSocketServer willing_clients) (new_process ''wait'') = (started, Inr ())"
  by (simp add: started_def startWebSocketServer_def adapter_connect_def subscribeToChannel_def willing_clients_def new_process_def
      new_adapter_def run_simps)

lemma started_fields: "sp_listening started" "\<not> sp_closing started" "sp_server started = ws_init"
  by (simp_all add: started_def startWebSocketServer_def adapter_connect_def subscribeToChannel_def willing_clients_def new_process_def
      new_adapter_def run_simps)

lemma close_first:
  "closeWebSocketServer C = Act (\<lambda>p. (p\<lparr>sp_heartbeat := False, sp_server := close_sockets (sp_server p)\<rparr>,
     await (with_adapter (adapter_disconnect C)) (\<lambda>_. modifies (\<lambda>p. p\<lparr>sp_closing := True\<rparr>))))"
  by (simp add: closeWebSocketServer_def modifies_def comp_def)

lemma willing_disconnect: "\<exists>a'. run (adapter_disconnect willing_clients) a = (a', Inr ())"
  by (cases "ad_clients a = ''end''") (simp_all add: adapter_disconnect_def willing_clients_def run_simps)

text \<open>A client that connects between the two halves of \<open>close\<close>.\<close>

lemma late_upgrade_run:
  "\<exists>p'. pool_steps (reported any_format id) (started, [closeWebSocketServer willing_clients]) (p', [Ret ()]) \<and>
    ws_clients (sp_server p') = [7] \<and> ws_open (sp_server p') 7 \<and> ws_states (sp_server p') 7 \<noteq> None"
proof -
  let ?rest = "await (with_adapter (adapter_disconnect willing_clients)) (\<lambda>_. modifies (\<lambda>p. p\<lparr>sp_closing := True\<rparr>))
    :: ((string, nat) socket_process, unit) proc"
  let ?p1 = "started\<lparr>sp_heartbeat := False, sp_server := close_sockets (sp_server started)\<rparr>"
  let ?p2 = "sp_handle any_format id (Upgrade 7 (Some ''/ws'')) ?p1"
  let ?env = "reported any_format id :: (string, nat) socket_process \<Rightarrow> _"
  have "pool_step ?env (started, [closeWebSocketServer willing_clients]) (?p1, [closeWebSocketServer willing_clients][0 := ?rest])"
    by (rule pool_run) (simp_all add: close_first)
  then have s1: "pool_steps ?env (started, [closeWebSocketServer willing_clients]) (?p1, [?rest])"
    by (simp add: pool_steps_def r_into_rtranclp)
  have "pool_step ?env (?p1, [?rest]) (?p2, [?rest])"
    by (rule pool_env) (auto simp only: reported_def)
  then have s2: "pool_steps ?env (?p1, [?rest]) (?p2, [?rest])" by (simp only: pool_steps_def r_into_rtranclp)
  obtain p' where r: "run ?rest ?p2 = (p', Inr ())" and srv: "sp_server p' = sp_server ?p2"
    using willing_disconnect [of "sp_adapter ?p2"] by (auto simp: run_simps simp del: sp_handle.simps)
  have "pool_steps ?env (?p2, [?rest]) (p', [?rest][0 := Ret ()])" by (rule pool_steps_run) (use r in simp_all)
  with s1 s2 have "pool_steps ?env (started, [closeWebSocketServer willing_clients]) (p', [Ret ()])"
    unfolding pool_steps_def by simp
  moreover have "ws_clients (sp_server ?p2) = [7] \<and> ws_open (sp_server ?p2) 7 \<and> ws_states (sp_server ?p2) 7 \<noteq> None"
    by (simp add: started_fields upgrade_accepted_def WEBSOCKET_PATH_def on_connection_def close_sockets_def ws_init_def set_add_def)
  ultimately show ?thesis using srv by auto
qed

section \<open>Properties\<close>

text \<open>
  Starting the WebSocket server of a new process.  If the backplane cannot be
  connected, nothing is installed: no upgrade is taken and no timer runs.  If it can, the server
  takes upgrades, starts without rooms, and hands every valid event of the channel to its
  sockets exactly once, in its public form.
\<close>

theorem socket_server_start:
  assumes "run (startWebSocketServer C) (new_process clients) = (p', x)"
  shows "sp_server p' = ws_init \<and>
    (case x of
       Inl e \<Rightarrow> \<not> sp_heartbeat p' \<and> (\<forall>s url. sp_handle Z pathname (Upgrade s url) p' = p')
     | Inr _ \<Rightarrow> sp_listening p' \<and> sp_heartbeat p' \<and> \<not> sp_closing p' \<and>
         (\<forall>event srv. sp_handle Z pathname (FromRedis WS_SEAT_EVENTS_CHANNEL (stringify (seat_event_json event))) (p'\<lparr>sp_server := srv\<rparr>) =
            p'\<lparr>sp_server := (if valid_event Z event then onSeatEvent (public_event event) srv else srv)\<rparr>))"
proof -
  obtain a y where c: "run (adapter_connect C ()) (new_adapter clients) = (a, y)" by force
  then have p': "p' = (new_process clients)\<lparr>sp_adapter := a, sp_listening := isInr y, sp_heartbeat := isInr y\<rparr>" and x: "x = y"
    using assms by (auto simp: startWebSocketServer_def run_simps new_process_def isInr_def split: sum.splits)
  note conn = adapter_connect_run [OF c]
  show ?thesis
  proof (cases y)
    case (Inl e)
    with p' x show ?thesis by (simp add: new_process_def isInr_def)
  next
    case (Inr u)
    with conn have "ad_listener a = Some ()" "ad_handlers a = 1" by (simp_all add: new_adapter_def)
    with p' x Inr show ?thesis
      by (simp add: new_process_def isInr_def dispatched_def handle_published del: stringify.simps)
  qed
qed

theorem socket_server_start_witness:
  "run (startWebSocketServer willing_clients) (new_process ''wait'') = (started, Inr ()) \<and> sp_listening started \<and> sp_heartbeat started"
  using socket_server_start [OF started_run, of any_format id] started_run by simp

text \<open>
  Claim C37.  Closing the WebSocket server beside whatever the library and Redis report
  meanwhile, and also when the adapter cannot be disconnected: afterwards no timer runs, no
  message of the channel reaches a socket any more, and none of the sockets that were connected
  when \<open>close\<close> was called is open.  If it comes to its end, no upgrade is taken from then on.
\<close>

theorem close_is_quiet:
  assumes "pool_steps (reported Z pathname) (p, [closeWebSocketServer C]) (p', [rethrow r])"
    and "\<forall>s \<in> set (ws_clients (sp_server p)). ws_states (sp_server p) s \<noteq> None"
  shows "sp_handle Z pathname Timer p' = p' \<and> (\<forall>channel raw. sp_handle Z pathname (FromRedis channel raw) p' = p') \<and>
    (\<forall>s \<in> set (ws_clients (sp_server p)). \<not> ws_open (sp_server p') s) \<and>
    (r = Inr () \<longrightarrow> sp_closing p' \<and> (\<forall>s url. sp_handle Z pathname (Upgrade s url) p' = p'))"
proof -
  let ?K = "set (ws_clients (sp_server p))"
  have "\<forall>s \<in> ?K. tracked p s" using assms(2) by (simp add: tracked_def)
  from alone_finished [where Q = "\<lambda>r p. hushed ?K p \<and> (isInr r \<longrightarrow> sp_closing p)" and A = "\<lambda>p. \<forall>s \<in> ?K. tracked p s", OF assms(1) _ this]
    close_quiet [of Z pathname ?K C]
  have q: "hushed ?K p'" and c: "isInr r \<longrightarrow> sp_closing p'" by (simp_all add: isInr_def)
  from q c quiet_report [OF q, of Z pathname] show ?thesis by (auto simp: hushed_def shut_def isInr_def)
qed

theorem close_is_quiet_witness:
  "\<exists>p'. pool_steps (reported any_format id) (started, [closeWebSocketServer willing_clients]) (p', [rethrow (Inr ())]) \<and>
    sp_handle any_format id (FromRedis WS_SEAT_EVENTS_CHANNEL ''{}'') p' = p'"
proof -
  obtain p' where s: "pool_steps (reported any_format id) (started, [closeWebSocketServer willing_clients]) (p', [rethrow (Inr ())])"
    using late_upgrade_run by (auto simp: rethrow_def)
  from close_is_quiet [OF s] s show ?thesis by (auto simp: started_fields ws_init_def)
qed

text \<open>
  Claim C38.  A client that is let in while \<open>close\<close> waits for the adapter is never told to leave:
  until it goes by itself the promise of \<open>close\<close> stays open, whatever else is reported, and the
  server, whose timer is off, does not terminate it.
\<close>

theorem late_client_blocks_close:
  assumes "pool_steps (reported Z pathname) (p, [closeWebSocketServer C]) (p', [Ret ()])"
    and "s \<in> set (ws_clients (sp_server p'))" and "ws_states (sp_server p') s \<noteq> None"
    and "FromSocket (Closed s) \<notin> set reports"
  shows "\<not> ws_closed (fold (sp_handle Z pathname) reports p') \<and>
    (FromSocket (Closing s) \<notin> set reports \<longrightarrow> ws_open (sp_server p') s \<longrightarrow>
       ws_open (sp_server (fold (sp_handle Z pathname) reports p')) s)"
proof -
  have "pool_steps (reported Z pathname) (p, [closeWebSocketServer C]) (p', [rethrow (Inr ())])"
    using assms(1) by (simp add: rethrow_def)
  moreover have "rg (reported Z pathname) (\<lambda>_ _. True) (\<lambda>_. hushed {}) (\<lambda>_. hushed {}) (\<lambda>p. \<forall>s \<in> {}. tracked p s) (closeWebSocketServer C)"
    by (rule rg_weaken [OF close_quiet]) auto
  ultimately have q: "hushed {} p'" by (rule alone_finished) simp
  from open_waits [OF q assms(3,2,4), of Z pathname] show ?thesis by (auto simp: ws_closed_def)
qed

theorem late_client_blocks_close_witness:
  "\<exists>p'. pool_steps (reported any_format id) (started, [closeWebSocketServer willing_clients]) (p', [Ret ()]) \<and>
    \<not> ws_closed (fold (sp_handle any_format id) [Timer, Timer] p') \<and>
    ws_open (sp_server (fold (sp_handle any_format id) [Timer, Timer] p')) 7"
proof -
  obtain p' where s: "pool_steps (reported any_format id) (started, [closeWebSocketServer willing_clients]) (p', [Ret ()])"
    and c: "ws_clients (sp_server p') = [7]" "ws_open (sp_server p') 7" "ws_states (sp_server p') 7 \<noteq> None"
    using late_upgrade_run by auto
  have "7 \<in> set (ws_clients (sp_server p'))" using c by simp
  from late_client_blocks_close [OF s this c(3), of "[Timer, Timer]"] s c(2) show ?thesis by auto
qed

end
