(* ===== verification/Seed.thy ===== *)
theory Seed imports Geo begin

text \<open>
  The data of \<open>src/prisma/seed.ts\<close>: the thousand venues and the hundred seats of the demo event.
  All coordinates have at most six decimals, so the exact rationals are what \<open>toFixed(6)\<close>
  gives.  Writing them to the database is left out.
\<close>

section \<open>Venues\<close>

record venue_cluster =
  vc_latitude :: rat
  vc_longitude :: rat
  vc_name :: string

definition venueClusters :: "venue_cluster list" where
  "venueClusters =
     [\<lparr>vc_latitude = 248607 / 10000, vc_longitude = 670011 / 10000, vc_name = ''Karachi''\<rparr>,
      \<lparr>vc_latitude = 315204 / 10000, vc_longitude = 743587 / 10000, vc_name = ''Lahore''\<rparr>,
      \<lparr>vc_latitude = 336844 / 10000, vc_longitude = 730479 / 10000, vc_name = ''Islamabad''\<rparr>,
      \<lparr>vc_latitude = 252048 / 10000, vc_longitude = 552708 / 10000, vc_name = ''Dubai''\<rparr>,
      \<lparr>vc_latitude = 407128 / 10000, vc_longitude = - 74006 / 1000, vc_name = ''New York''\<rparr>,
      \<lparr>vc_latitude = 515074 / 10000, vc_longitude = - 1278 / 10000, vc_name = ''London''\<rparr>]"

definition padStart :: "nat \<Rightarrow> char \<Rightarrow> string \<Rightarrow> string" where
  "padStart n c s = replicate (n - length s) c @ s"

definition build_venue :: "nat \<Rightarrow> venue_row" where
  "build_venue index =
     (let cluster = venueClusters ! (index mod length venueClusters);
          ring = (index div length venueClusters) mod 10;
          offset = (of_nat ring - 9 / 2) * (12 / 1000);
          label = padStart 4 CHR ''0'' (show_nat (index + 1))
      in \<lparr>vn_id = ''phase-6-venue-'' @ label, vn_name = vc_name cluster @ '' Concert Venue '' @ label,
          vn_latitude = vc_latitude cluster + offset, vn_longitude = vc_longitude cluster + offset\<rparr>)"

definition buildVenues :: "venue_row list" where
  "buildVenues = map build_venue [0..<1000]"

section \<open>Seats\<close>

definition seed_seat :: "string \<Rightarrow> nat \<Rightarrow> nat \<Rightarrow> nat \<Rightarrow> seat_row" where
  "seed_seat eventId sectionIndex rowIndex seatNumber =
     \<lparr>seat_id = eventId @ ''-'' @ show_nat sectionIndex @ ''-'' @ show_nat rowIndex @ ''-'' @ show_nat seatNumber,
      seat_eventId = eventId, seat_section = ''SECTION-'' @ show_nat sectionIndex,
      seat_row_label = ''ROW-'' @ show_nat rowIndex, seat_number = show_nat seatNumber, seat_status = AVAILABLE\<rparr>"

definition seed_seats :: "string \<Rightarrow> seat_row list" where
  "seed_seats eventId =
     concat (map (\<lambda>sectionIndex. concat (map (\<lambda>rowIndex. map (seed_seat eventId sectionIndex rowIndex) [1..<11]) [1..<6])) [1..<3])"

section \<open>The seeded data is well formed\<close>

lemma read_padded: "fst (read_digits 0 (padStart n CHR ''0'' (show_nat k))) = k"
proof -
  have "read_digits 0 (replicate m CHR ''0'' @ s) = read_digits 0 s" for m s
    by (induction m) (simp_all add: digit_val_def)
  then show ?thesis by (simp add: padStart_def read_show_nat_self)
qed

theorem venue_ids_distinct: "distinct (map vn_id buildVenues)"
proof -
  have "inj_on (vn_id \<circ> build_venue) (set [0..<1000])"
  proof (rule inj_onI)
    fix i j
    assume "(vn_id \<circ> build_venue) i = (vn_id \<circ> build_venue) j"
    then have "padStart 4 CHR ''0'' (show_nat (i + 1)) = padStart 4 CHR ''0'' (show_nat (j + 1))"
      by (simp add: build_venue_def Let_def)
    then show "i = j" using read_padded [of 4 "i + 1"] read_padded [of 4 "j + 1"] by simp
  qed
  then show ?thesis by (simp add: buildVenues_def distinct_map)
qed

text \<open>\<open>GEOADD\<close> takes longitudes up to 180 and latitudes up to 85.05112878 degrees.\<close>

theorem venues_indexable:
  "\<forall>v \<in> set buildVenues. \<bar>vn_latitude v\<bar> \<le> 85 \<and> \<bar>vn_longitude v\<bar> \<le> 180"
proof -
  have "\<bar>vn_latitude (build_venue i)\<bar> \<le> 85 \<and> \<bar>vn_longitude (build_venue i)\<bar> \<le> 180" for i
  proof -
    have len: "length venueClusters = 6" by (simp add: venueClusters_def)
    have "list_all (\<lambda>c. \<bar>vc_latitude c\<bar> \<le> 84 \<and> \<bar>vc_longitude c\<bar> \<le> 179) venueClusters"
      by (simp add: venueClusters_def)
    then have c: "\<bar>vc_latitude (venueClusters ! (i mod 6))\<bar> \<le> 84" "\<bar>vc_longitude (venueClusters ! (i mod 6))\<bar> \<le> 179"
      using len by (auto simp: list_all_length)
    have "(i div 6) mod 10 \<le> 9" by simp
    then have "of_nat ((i div 6) mod 10) \<le> (9 :: rat)" by (metis of_nat_le_iff of_nat_numeral)
    then have "\<bar>(of_nat ((i div 6) mod 10) - 9 / 2) * (12 / 1000) :: rat\<bar> \<le> 1" by (simp add: abs_if)
    then obtain d where d: "d = (of_nat ((i div 6) mod 10) - 9 / 2) * (12 / 1000 :: rat)" "\<bar>d\<bar> \<le> 1" by blast
    have "\<bar>x + d\<bar> \<le> b + 1" if "\<bar>x\<bar> \<le> b" for x b using that d(2) abs_triangle_ineq [of x d] by linarith
    from this [OF c(1)] this [OF c(2)] show ?thesis by (simp only: build_venue_def Let_def venue_row.simps len d(1) [symmetric]) simp
  qed
  then show ?thesis by (auto simp: buildVenues_def)
qed

theorem seed_seats_available:
  "length (seed_seats ev) = 100 \<and> (\<forall>s \<in> set (seed_seats ev). seat_eventId s = ev \<and> seat_status s = AVAILABLE)"
  by (auto simp: seed_seats_def seed_seat_def upt_rec)

end
