(* ===== verification/Lifecycle.thy ===== *)
theory Lifecycle imports Controllers Lua_Loader begin

text \<open>
  How the processes start and stop: \<open>src/src/config/env.ts\<close>, \<open>redis.config.ts\<close>,
  \<open>database.config.ts\<close>, \<open>src/src/server.ts\<close> and \<open>src/src/workers/worker-entrypoint.ts\<close>.
  The clients' connection commands and the start and stop of the WebSocket and HTTP servers
  are parameters; log lines are left out.
\<close>

section \<open>Environment\<close>

record Env =
  NODE_ENV :: node_env
  PORT :: number
  DATABASE_URL :: string
  REDIS_URL :: string
  JWT_SECRET :: string
  RATE_LIMIT_WINDOW_MS :: int
  RATE_LIMIT_MAX_REQUESTS :: int

definition z_node_env :: "string option \<Rightarrow> node_env option" where
  "z_node_env v =
     (case v of
        None \<Rightarrow> Some Development
      | Some s \<Rightarrow>
          (if s = ''development'' then Some Development
           else if s = ''production'' then Some Production
           else if s = ''test'' then Some Test
           else None))"

text \<open>\<open>z.string().min(n)\<close> and \<open>z.string().url().default(d)\<close>; \<open>is_url\<close> is the check of zod.\<close>

definition z_min_length :: "nat \<Rightarrow> string option \<Rightarrow> string option" where
  "z_min_length n v = (case v of Some s \<Rightarrow> if n \<le> length s then Some s else None | None \<Rightarrow> None)"

definition z_url :: "(string \<Rightarrow> bool) \<Rightarrow> string \<Rightarrow> string option \<Rightarrow> string option" where
  "z_url is_url d v = (case v of None \<Rightarrow> Some d | Some s \<Rightarrow> if is_url s then Some s else None)"

definition env_number :: "number \<Rightarrow> string option \<Rightarrow> number" where
  "env_number d v = (case v of None \<Rightarrow> d | Some s \<Rightarrow> js_Number s)"

text \<open>Numbers of JavaScript that a 53-bit integer represents, as \<open>int()\<close> asks for.\<close>

definition z_positive :: "number \<Rightarrow> int option" where
  "z_positive x =
     (case x of
        Fin v \<Rightarrow> (if of_int \<lfloor>v\<rfloor> = v \<and> 0 < v \<and> v < 2 ^ 53 then Some \<lfloor>v\<rfloor> else None)
      | _ \<Rightarrow> None)"

definition z_finite :: "number \<Rightarrow> number option" where
  "z_finite x = (case x of Fin v \<Rightarrow> Some x | _ \<Rightarrow> None)"

text \<open>\<open>None\<close>: the issues are printed and the process exits with code 1.\<close>

definition parseEnv :: "(string \<Rightarrow> bool) \<Rightarrow> (string \<Rightarrow> string option) \<Rightarrow> Env option" where
  "parseEnv is_url process_env = do {
     node \<leftarrow> z_node_env (process_env ''NODE_ENV'');
     port \<leftarrow> z_finite (env_number (Fin 5000) (process_env ''PORT''));
     database_url \<leftarrow> z_min_length 1 (process_env ''DATABASE_URL'');
     redis_url \<leftarrow> z_url is_url ''redis://localhost:6379'' (process_env ''REDIS_URL'');
     secret \<leftarrow> z_min_length 16 (process_env ''JWT_SECRET'');
     window \<leftarrow> z_positive (env_number (Fin 60000) (process_env ''RATE_LIMIT_WINDOW_MS''));
     maximum \<leftarrow> z_positive (env_number (Fin 100) (process_env ''RATE_LIMIT_MAX_REQUESTS''));
     Some \<lparr>NODE_ENV = node, PORT = port, DATABASE_URL = database_url, REDIS_URL = redis_url, JWT_SECRET = secret,
       RATE_LIMIT_WINDOW_MS = window, RATE_LIMIT_MAX_REQUESTS = maximum\<rparr>}"

lemma z_positive_pos: "z_positive x = Some n \<Longrightarrow> 0 < n"
  by (auto simp: z_positive_def split: number.splits if_splits)

lemma parseEnv_limits:
  "parseEnv is_url process_env = Some env \<Longrightarrow> 0 < RATE_LIMIT_WINDOW_MS env \<and> 0 < RATE_LIMIT_MAX_REQUESTS env"
  by (auto simp: parseEnv_def z_positive_pos split: option.splits bind_splits)

section \<open>A process\<close>

text \<open>
  \<open>ps_status\<close> is the status of the shared Redis client, \<open>ps_exit\<close> the code given to
  \<open>process.exit\<close>, which is the last statement of every function that calls it.
\<close>

record ('r, 'd) process_state =
  ps_world :: "('r, 'd) world"
  ps_status :: string
  ps_shuttingDown :: bool
  ps_signals :: bool
  ps_listening :: "number option"
  ps_closing :: bool
  ps_exit :: "int option"

record ('r, 'd) platform =
  pf_svc :: "('r, 'd) services"
  pf_geo :: "('r, 'd) geo_services"
  pf_connect :: "string \<Rightarrow> 'r \<Rightarrow> string \<times> 'r \<times> (exn + unit)"
  pf_ping :: "string \<Rightarrow> 'r \<Rightarrow> string \<times> 'r \<times> (exn + unit)"
  pf_quit :: "string \<Rightarrow> 'r \<Rightarrow> string \<times> 'r \<times> (exn + unit)"
  pf_select_1 :: "'d \<Rightarrow> exn + unit"
  pf_db_disconnect :: "'d \<Rightarrow> exn + unit"
  pf_pool_end :: "'d \<Rightarrow> exn + unit"
  pf_ws_start :: "(('r, 'd) world, unit) proc"
  pf_ws_close :: "(('r, 'd) world, unit) proc"

text \<open>A function of the shared world inside a process.\<close>

primrec in_process :: "(('r, 'd) world, 'a) proc \<Rightarrow> (('r, 'd) process_state, 'a) proc" where
  "in_process (Ret a) = Ret a"
| "in_process (Throw e) = Throw e"
| "in_process (Act f) =
     Act (\<lambda>p. case map_prod id in_process (f (ps_world p)) of (w, q) \<Rightarrow> (p\<lparr>ps_world := w\<rparr>, q))"

lemma run_in_process [run_simps]:
  "run (in_process q) p = (case run q (ps_world p) of (w, x) \<Rightarrow> (p\<lparr>ps_world := w\<rparr>, x))"
proof (induction q arbitrary: p)
  case (Act f)
  obtain w q where f: "f (ps_world p) = (w, q)" by force
  with Act.IH [OF f, of "p\<lparr>ps_world := w\<rparr>"] show ?case by (simp add: run_Act split: prod.split)
qed simp_all

definition connection_do ::
  "(string \<Rightarrow> 'r \<Rightarrow> string \<times> 'r \<times> (exn + 'a)) \<Rightarrow> (('r, 'd) process_state, 'a) proc" where
  "connection_do c = atomic (\<lambda>p.
     case c (ps_status p) (w_redis (ps_world p)) of
       (st, r, x) \<Rightarrow> (p\<lparr>ps_status := st, ps_world := (ps_world p)\<lparr>w_redis := r\<rparr>\<rparr>, x))"

definition exit_process :: "int \<Rightarrow> (('r, 'd) process_state, unit) proc" where
  "exit_process code = modifies (\<lambda>p. p\<lparr>ps_exit := Some code\<rparr>)"

lemma run_connection_do [run_simps]:
  "run (connection_do c) p = (case c (ps_status p) (w_redis (ps_world p)) of
     (st, r, x) \<Rightarrow> (p\<lparr>ps_status := st, ps_world := (ps_world p)\<lparr>w_redis := r\<rparr>\<rparr>, x))"
  by (simp add: connection_do_def run_atomic)

section \<open>Connections\<close>

definition connectRedis :: "('r, 'd) platform \<Rightarrow> (('r, 'd) process_state, unit) proc" where
  "connectRedis F =
     catch
       (await (connection_do (pf_connect F)) (\<lambda>_.
        await (connection_do (pf_ping F)) (\<lambda>_.
        in_process (loadLuaScripts (pf_svc F)))))
       (\<lambda>error.
          await (modifies (\<lambda>p. if ps_status p \<noteq> ''end'' then p\<lparr>ps_status := ''end''\<rparr> else p)) (\<lambda>_.
          Throw error))"

definition disconnectRedis :: "('r, 'd) platform \<Rightarrow> (('r, 'd) process_state, unit) proc" where
  "disconnectRedis F =
     catch
       (await (reads ps_status) (\<lambda>status.
        if status = ''ready'' then connection_do (pf_quit F)
        else if status \<noteq> ''end'' then modifies (\<lambda>p. p\<lparr>ps_status := ''end''\<rparr>)
        else Ret ()))
       (\<lambda>error. Ret ())"

definition connectDatabase :: "('r, 'd) platform \<Rightarrow> (('r, 'd) process_state, bool) proc" where
  "connectDatabase F =
     catch (await (in_process (db_read (pf_select_1 F))) (\<lambda>_. Ret True)) (\<lambda>error. Ret False)"

definition disconnectDatabase :: "('r, 'd) platform \<Rightarrow> (('r, 'd) process_state, unit) proc" where
  "disconnectDatabase F =
     catch
       (await (in_process (db_read (pf_db_disconnect F))) (\<lambda>_. in_process (db_read (pf_pool_end F))))
       (\<lambda>error. Ret ())"

section \<open>The HTTP server process\<close>

definition startServer :: "('r, 'd) platform \<Rightarrow> Env \<Rightarrow> (('r, 'd) process_state, unit) proc" where
  "startServer F env =
     await (connectDatabase F) (\<lambda>_.
     await (connectRedis F) (\<lambda>_.
     await (in_process (syncVenuesToGeoIndex (pf_geo F))) (\<lambda>_.
     await (in_process (pf_ws_start F)) (\<lambda>_.
     modifies (\<lambda>p. p\<lparr>ps_listening := Some (PORT env), ps_signals := True\<rparr>)))))"

text \<open>
  A signal: the awaited steps, then \<open>server.close\<close> and the timer.  What follows are the three
  events that end the process.
\<close>

definition server_gracefulShutdown :: "('r, 'd) platform \<Rightarrow> (('r, 'd) process_state, unit) proc" where
  "server_gracefulShutdown F =
     await (catch
       (await (in_process (pf_ws_close F)) (\<lambda>_.
        await (disconnectRedis F) (\<lambda>_.
        disconnectDatabase F)))
       (\<lambda>err. Ret ())) (\<lambda>_.
     modifies (\<lambda>p. p\<lparr>ps_closing := True\<rparr>))"

definition server_closed :: "exn option \<Rightarrow> (('r, 'd) process_state, unit) proc" where
  "server_closed err = exit_process (if err \<noteq> None then 1 else 0)"

definition shutdown_timeout :: "(('r, 'd) process_state, unit) proc" where
  "shutdown_timeout = exit_process 1"

definition uncaught :: "exn \<Rightarrow> (('r, 'd) process_state, unit) proc" where
  "uncaught error = exit_process 1"

section \<open>The worker process\<close>

definition worker_gracefulShutdown :: "('r, 'd) platform \<Rightarrow> (('r, 'd) process_state, unit) proc" where
  "worker_gracefulShutdown F =
     await (atomic (\<lambda>p. (p\<lparr>ps_shuttingDown := True\<rparr>, Inr (ps_shuttingDown p)))) (\<lambda>shuttingDown.
     if shuttingDown then Ret ()
     else
       await (in_process stopOrderConsumer) (\<lambda>_.
       await (disconnectRedis F) (\<lambda>_.
       await (disconnectDatabase F) (\<lambda>_.
       exit_process 0))))"

text \<open>\<open>consume\<close> is \<open>startOrderConsumer\<close> with its bound; \<open>startWorker().catch(...)\<close> is the main program.\<close>

definition startWorker ::
  "('r, 'd) platform \<Rightarrow> (('r, 'd) world, unit option) proc \<Rightarrow> (('r, 'd) process_state, unit option) proc" where
  "startWorker F consume =
     await (connectDatabase F) (\<lambda>_.
     await (connectRedis F) (\<lambda>_.
     await (modifies (\<lambda>p. p\<lparr>ps_signals := True\<rparr>)) (\<lambda>_.
     in_process consume)))"

definition worker_main ::
  "('r, 'd) platform \<Rightarrow> (('r, 'd) world, unit option) proc \<Rightarrow> (('r, 'd) process_state, unit option) proc" where
  "worker_main F consume =
     catch (startWorker F consume) (\<lambda>error.
       await (disconnectRedis F) (\<lambda>_.
       await (disconnectDatabase F) (\<lambda>_.
       await (exit_process 1) (\<lambda>_. Ret None))))"

section \<open>What stopping does\<close>

lemma disconnectRedis_run:
  "\<exists>st r. run (disconnectRedis F) p = (p\<lparr>ps_status := st, ps_world := (ps_world p)\<lparr>w_redis := r\<rparr>\<rparr>, Inr ())"
proof -
  have same: "p = p\<lparr>ps_status := ps_status p, ps_world := (ps_world p)\<lparr>w_redis := w_redis (ps_world p)\<rparr>\<rparr>" by simp
  obtain st r x where q: "pf_quit F (ps_status p) (w_redis (ps_world p)) = (st, r, x)" by (cases "pf_quit F (ps_status p) (w_redis (ps_world p))")
  consider "ps_status p = ''ready''" | "ps_status p = ''end''" | "ps_status p \<noteq> ''ready''" "ps_status p \<noteq> ''end''" by blast
  then show ?thesis
  proof cases
    case 1
    with q have "run (disconnectRedis F) p = (p\<lparr>ps_status := st, ps_world := (ps_world p)\<lparr>w_redis := r\<rparr>\<rparr>, Inr ())"
      by (cases x) (simp_all add: disconnectRedis_def run_simps)
    then show ?thesis by blast
  next
    case 2
    then have "run (disconnectRedis F) p = (p, Inr ())" by (simp add: disconnectRedis_def run_simps)
    with same show ?thesis by metis
  next
    case 3
    then have "run (disconnectRedis F) p =
        (p\<lparr>ps_status := ''end'', ps_world := (ps_world p)\<lparr>w_redis := w_redis (ps_world p)\<rparr>\<rparr>, Inr ())"
      by (simp add: disconnectRedis_def run_simps)
    then show ?thesis by blast
  qed
qed

lemma disconnectDatabase_run [run_simps]: "run (disconnectDatabase F) p = (p, Inr ())"
  by (simp add: disconnectDatabase_def run_simps split: sum.split)

lemma connectDatabase_run [run_simps]: "run (connectDatabase F) p = (p, Inr (isInr (pf_select_1 F (w_db (ps_world p)))))"
  by (simp add: connectDatabase_def run_simps split: sum.split)

text \<open>
  The worker leaves on the first signal, whatever its connections answer, with code 0 and with
  the consumer told to stop; later signals do nothing.
\<close>

theorem worker_shutdown:
  "\<exists>p'. run (worker_gracefulShutdown F) p = (p', Inr ()) \<and>
    (if ps_shuttingDown p then p' = p
     else ps_exit p' = Some 0 \<and> \<not> w_consumer_running (ps_world p') \<and> w_db (ps_world p') = w_db (ps_world p))"
proof (cases "ps_shuttingDown p")
  case True
  then have "p\<lparr>ps_shuttingDown := True\<rparr> = p" by simp
  with True show ?thesis by (simp add: worker_gracefulShutdown_def run_simps)
next
  case False
  let ?p = "p\<lparr>ps_shuttingDown := True, ps_world := (ps_world p)\<lparr>w_consumer_running := False\<rparr>\<rparr>"
  obtain st r where "run (disconnectRedis F) ?p = (?p\<lparr>ps_status := st, ps_world := (ps_world ?p)\<lparr>w_redis := r\<rparr>\<rparr>, Inr ())"
    using disconnectRedis_run [of F ?p] by (elim exE) (rule that)
  with False show ?thesis
    by (simp add: worker_gracefulShutdown_def stopOrderConsumer_def exit_process_def run_simps)
qed

text \<open>
  The shutdown does not wait for the batch in work: whatever is left of it, the process can exit
  with code 0 before it goes on.  Its messages stay pending.
\<close>

theorem shutdown_cuts_batch:
  assumes "\<not> ps_shuttingDown p"
  shows "\<exists>p'. pool_steps env (p, [in_process batch, worker_gracefulShutdown F]) (p', [in_process batch, Ret ()]) \<and>
    ps_exit p' = Some 0 \<and> w_db (ps_world p') = w_db (ps_world p)"
proof -
  obtain p' where r: "run (worker_gracefulShutdown F) p = (p', Inr ())" and x: "ps_exit p' = Some 0" "w_db (ps_world p') = w_db (ps_world p)"
    using worker_shutdown [of F p] assms by auto
  have "pool_steps env (p, [in_process batch, worker_gracefulShutdown F])
      (p', [in_process batch, worker_gracefulShutdown F][1 := Ret ()])"
    by (rule pool_steps_run [OF r]) simp_all
  with x show ?thesis by auto
qed

text \<open>
  The answer of the database at start is ignored: the server starts, listens and takes signals
  in the same way whether it has a database or not.
\<close>

theorem start_ignores_database: "run (startServer (F\<lparr>pf_select_1 := f\<rparr>) env) p = run (startServer F env) p"
proof -
  have "connectRedis (F\<lparr>pf_select_1 := f\<rparr>) = connectRedis F" by (simp add: connectRedis_def)
  then show ?thesis by (simp add: startServer_def run_simps)
qed

text \<open>The graceful shutdown of the server never rejects; the process then waits for \<open>server.close\<close> or the timer.\<close>

theorem server_shutdown_closes:
  "\<exists>p'. run (server_gracefulShutdown F) p = (p', Inr ()) \<and> ps_closing p' \<and> ps_exit p' = ps_exit p"
proof -
  obtain w x where ws: "run (pf_ws_close F) (ps_world p) = (w, x)" by force
  show ?thesis
  proof (cases x)
    case (Inl e)
    with ws show ?thesis by (simp add: server_gracefulShutdown_def run_simps)
  next
    case (Inr u)
    obtain st r where "run (disconnectRedis F) (p\<lparr>ps_world := w\<rparr>) =
        (p\<lparr>ps_status := st, ps_world := w\<lparr>w_redis := r\<rparr>\<rparr>, Inr ())"
      using disconnectRedis_run [of F "p\<lparr>ps_world := w\<rparr>"] by auto
    with ws Inr show ?thesis by (simp add: server_gracefulShutdown_def run_simps)
  qed
qed

end
