(* ===== verification/Seed_Run.thy ===== *)
theory Seed_Run imports Seed Lifecycle Double_Booking begin

text \<open>
  The statements of \<open>src/prisma/seed.ts\<close> in their order, between the connections the script
  opens and closes.  The calls of Prisma are a record of operations; the interface \<open>seed_tables\<close>
  states what they do to the tables, with the referential actions of \<open>src/prisma/schema\<close>
  (\<open>Cascade\<close> from events to seats, \<open>SetNull\<close> from venues to events).
\<close>

section \<open>The program\<close>

record SeedEvent = event_row +
  sv_venueId :: "string option"
  sv_isActive :: bool

text \<open>\<open>deleteMany\<close> by a prefix of the id or by the event, \<open>createMany\<close>, \<open>upsert\<close> by the id.\<close>

record 'd seed_client =
  sd_event_deleteMany :: "string \<Rightarrow> 'd \<Rightarrow> 'd \<times> (exn + nat)"
  sd_venue_deleteMany :: "string \<Rightarrow> 'd \<Rightarrow> 'd \<times> (exn + nat)"
  sd_venue_createMany :: "venue_row list \<Rightarrow> 'd \<Rightarrow> 'd \<times> (exn + nat)"
  sd_event_createMany :: "SeedEvent list \<Rightarrow> 'd \<Rightarrow> 'd \<times> (exn + nat)"
  sd_event_upsert :: "string \<Rightarrow> SeedEvent \<Rightarrow> SeedEvent \<Rightarrow> 'd \<Rightarrow> 'd \<times> (exn + unit)"
  sd_seat_deleteMany :: "string \<Rightarrow> 'd \<Rightarrow> 'd \<times> (exn + nat)"
  sd_seat_createMany :: "seat_row list \<Rightarrow> 'd \<Rightarrow> 'd \<times> (exn + nat)"

definition seed_startsAt :: int where
  "seed_startsAt = 1797789600000"

definition seed_event :: "nat \<Rightarrow> venue_row \<Rightarrow> SeedEvent" where
  "seed_event index venue =
     \<lparr>evt_id = ''phase-6-event-'' @ padStart 4 CHR ''0'' (show_nat (index + 1)), evt_name = vn_name venue @ '' Live Festival'',
      evt_startsAt = seed_startsAt, sv_venueId = Some (vn_id venue), sv_isActive = True\<rparr>"

definition seed_events :: "venue_row list \<Rightarrow> SeedEvent list" where
  "seed_events venues = map (\<lambda>index. seed_event index (venues ! index)) [0..<length venues]"

definition demo_event_id :: string where
  "demo_event_id = ''phase-2-demo-event''"

text \<open>What the update and the creation of the demo event write.\<close>

definition demo_event :: "venue_row \<Rightarrow> SeedEvent" where
  "demo_event primaryVenue =
     \<lparr>evt_id = demo_event_id, evt_name = ''Phase 2 Demo Concert'', evt_startsAt = seed_startsAt,
      sv_venueId = Some (vn_id primaryVenue), sv_isActive = True\<rparr>"

definition seed_main :: "'d seed_client \<Rightarrow> ('r, 'd) geo_services \<Rightarrow> (('r, 'd) world, unit) proc" where
  "seed_main P G =
     (let eventId = demo_event_id; venues = buildVenues in
      case venues of
        [] \<Rightarrow> Throw (JsError ''Venue seed fixture is empty'')
      | primaryVenue # _ \<Rightarrow>
          await (db_do (sd_event_deleteMany P ''phase-6-event-'')) (\<lambda>_.
          await (db_do (sd_venue_deleteMany P ''phase-6-venue-'')) (\<lambda>_.
          await (db_do (sd_venue_createMany P venues)) (\<lambda>_.
          await (db_do (sd_event_createMany P (seed_events venues))) (\<lambda>_.
          await (db_do (sd_event_upsert P eventId (demo_event primaryVenue) (demo_event primaryVenue))) (\<lambda>_.
          await (db_do (sd_seat_deleteMany P eventId)) (\<lambda>_.
          await (db_do (sd_seat_createMany P (seed_seats eventId))) (\<lambda>_.
          await (syncVenuesToGeoIndex G) (\<lambda>_. Ret ())))))))))"

text \<open>The script: \<open>try\<close> with its \<open>finally\<close>.\<close>

definition seed_script ::
  "('r, 'd) platform \<Rightarrow> 'd seed_client \<Rightarrow> (('r, 'd) process_state, unit) proc" where
  "seed_script F P =
     finally_do
       (await (connectRedis F) (\<lambda>_. in_process (seed_main P (pf_geo F))))
       (await (disconnectRedis F) (\<lambda>_. disconnectDatabase F))"

section \<open>The tables\<close>

text \<open>Rows by their id; what is given is written over what is there.\<close>

definition with_rows :: "(string \<Rightarrow> 'a option) \<Rightarrow> ('a \<Rightarrow> string) \<Rightarrow> 'a list \<Rightarrow> string \<Rightarrow> 'a option" where
  "with_rows table key rows = table ++ map_of (map (\<lambda>row. (key row, row)) rows)"

definition except :: "(string \<Rightarrow> 'a option) \<Rightarrow> (string \<Rightarrow> 'a \<Rightarrow> bool) \<Rightarrow> string \<Rightarrow> 'a option" where
  "except table gone = (\<lambda>i. case table i of Some row \<Rightarrow> if gone i row then None else Some row | None \<Rightarrow> None)"

definition clear_venues :: "string \<Rightarrow> SeedEvent \<Rightarrow> SeedEvent" where
  "clear_venues p ev = (case sv_venueId ev of Some v \<Rightarrow> if is_prefix p v then ev\<lparr>sv_venueId := None\<rparr> else ev | None \<Rightarrow> ev)"

text \<open>\<open>createMany\<close> takes no id that is there already.  A statement that fails changes nothing.\<close>

locale seed_tables =
  fixes P :: "'d seed_client"
    and venues :: "'d \<Rightarrow> string \<Rightarrow> venue_row option"
    and listed :: "'d \<Rightarrow> string \<Rightarrow> SeedEvent option"
    and seats :: "'d \<Rightarrow> string \<Rightarrow> seat_row option"
    and orders :: "'d \<Rightarrow> string \<Rightarrow> order_row option"
  assumes event_deleteMany: "sd_event_deleteMany P p d = (d', Inr n) \<Longrightarrow>
      venues d' = venues d \<and> orders d' = orders d \<and> listed d' = except (listed d) (\<lambda>i _. is_prefix p i) \<and>
      seats d' = except (seats d) (\<lambda>_ s. is_prefix p (seat_eventId s))"
    and venue_deleteMany: "sd_venue_deleteMany P p d = (d', Inr n) \<Longrightarrow>
      venues d' = except (venues d) (\<lambda>i _. is_prefix p i) \<and> orders d' = orders d \<and>
      listed d' = (\<lambda>i. map_option (clear_venues p) (listed d i)) \<and> seats d' = seats d"
    and venue_createMany: "sd_venue_createMany P vs d = (d', Inr n) \<Longrightarrow>
      (\<forall>v \<in> set vs. venues d (vn_id v) = None) \<and> venues d' = with_rows (venues d) vn_id vs \<and> orders d' = orders d \<and> listed d' = listed d \<and> seats d' = seats d"
    and event_createMany: "sd_event_createMany P es d = (d', Inr n) \<Longrightarrow>
      (\<forall>e \<in> set es. listed d (evt_id e) = None) \<and> venues d' = venues d \<and> orders d' = orders d \<and>
      listed d' = with_rows (listed d) evt_id es \<and> seats d' = seats d"
    and event_upsert: "sd_event_upsert P i update create d = (d', Inr ()) \<Longrightarrow>
      venues d' = venues d \<and> orders d' = orders d \<and> seats d' = seats d \<and>
      listed d' = (listed d)(i \<mapsto> if listed d i = None then create else update\<lparr>evt_id := i\<rparr>)"
    and seat_deleteMany: "sd_seat_deleteMany P ev d = (d', Inr n) \<Longrightarrow>
      venues d' = venues d \<and> orders d' = orders d \<and> listed d' = listed d \<and>
      seats d' = except (seats d) (\<lambda>_ s. seat_eventId s = ev)"
    and seat_createMany: "sd_seat_createMany P ss d = (d', Inr n) \<Longrightarrow>
      (\<forall>s \<in> set ss. seats d (seat_id s) = None) \<and> venues d' = venues d \<and> orders d' = orders d \<and>
      listed d' = listed d \<and> seats d' = with_rows (seats d) seat_id ss"
    and seeding_fails: "sd_event_deleteMany P p d = (d', Inl e) \<or> sd_venue_deleteMany P p d = (d', Inl e) \<or>
      sd_venue_createMany P vs d = (d', Inl e) \<or> sd_event_createMany P es d = (d', Inl e) \<or>
      sd_event_upsert P i update create d = (d', Inl e) \<or> sd_seat_deleteMany P ev d = (d', Inl e) \<or>
      sd_seat_createMany P ss d = (d', Inl e) \<Longrightarrow> d' = d"

section \<open>Rows\<close>

lemma with_rows_in:
  "distinct (map key rows) \<Longrightarrow> row \<in> set rows \<Longrightarrow> with_rows table key rows (key row) = Some row"
  by (simp add: with_rows_def map_of_is_SomeI comp_def map_add_find_right)

lemma with_rows_out: "i \<notin> key ` set rows \<Longrightarrow> with_rows table key rows i = table i"
proof -
  assume "i \<notin> key ` set rows"
  then have "map_of (map (\<lambda>row. (key row, row)) rows) i = None" by (force simp: map_of_eq_None_iff)
  then show ?thesis by (simp add: with_rows_def map_add_def)
qed

lemma with_rows_cases:
  assumes "with_rows table key rows i = Some row"
  shows "row \<in> set rows \<and> key row = i \<or> i \<notin> key ` set rows \<and> table i = Some row"
proof (cases "i \<in> key ` set rows")
  case False
  with assms show ?thesis by (simp add: with_rows_out)
next
  case True
  have "map_of (map (\<lambda>row. (key row, row)) rows) i = None \<Longrightarrow> i \<notin> key ` set rows" by (simp add: map_of_eq_None_iff image_image)
  with True assms have "map_of (map (\<lambda>row. (key row, row)) rows) i = Some row" by (auto simp: with_rows_def map_add_Some_iff)
  from map_of_SomeD [OF this] show ?thesis by auto
qed

lemma with_rows_again: "with_rows (except (with_rows table key rows) gone) key rows = with_rows (except table gone) key rows"
  by (rule ext) (simp add: with_rows_def except_def map_add_def split: option.split)

lemma except_twice [simp]: "except (except table gone) gone = except table gone"
  by (rule ext) (simp add: except_def split: option.split)

lemma except_Some: "except table gone i = Some row \<longleftrightarrow> table i = Some row \<and> \<not> gone i row"
  by (auto simp: except_def split: option.splits if_splits)

section \<open>The rows of the seed\<close>

lemma seed_seat_ids_distinct: "distinct (map seat_id (seed_seats ev))"
proof -
  let ?labels = "concat (map (\<lambda>s. concat (map (\<lambda>r. map (\<lambda>n. show_nat s @ ''-'' @ show_nat r @ ''-'' @ show_nat n) [1..<11]) [1..<6])) [1..<3])"
  have ids: "map seat_id (seed_seats ev) = map (\<lambda>label. ev @ ''-'' @ label) ?labels"
    by (simp add: seed_seats_def seed_seat_def map_concat comp_def)
  have "distinct ?labels" by code_simp
  moreover have "inj_on (\<lambda>label. ev @ ''-'' @ label) A" for A by (rule inj_onI) simp
  ultimately show ?thesis unfolding ids distinct_map by blast
qed

lemma seed_event_ids_distinct: "distinct (map evt_id (seed_events vs))"
proof -
  have "inj_on (\<lambda>i. evt_id (seed_event i (vs ! i))) A" for A
  proof (rule inj_onI)
    fix i j
    assume "evt_id (seed_event i (vs ! i)) = evt_id (seed_event j (vs ! j))"
    then have "padStart 4 CHR ''0'' (show_nat (i + 1)) = padStart 4 CHR ''0'' (show_nat (j + 1))" by (simp add: seed_event_def)
    then show "i = j" using read_padded [of 4 "i + 1"] read_padded [of 4 "j + 1"] by simp
  qed
  then show ?thesis by (simp add: seed_events_def distinct_map comp_def)
qed

lemma seeded_prefixes:
  "v \<in> set buildVenues \<Longrightarrow> is_prefix ''phase-6-venue-'' (vn_id v)"
  "e \<in> set (seed_events vs) \<Longrightarrow> is_prefix ''phase-6-event-'' (evt_id e)"
  "\<not> is_prefix ''phase-6-event-'' demo_event_id"
  by (auto simp: buildVenues_def build_venue_def Let_def seed_events_def seed_event_def demo_event_id_def)

lemma buildVenues_first: "\<exists>vs. buildVenues = build_venue 0 # vs"
proof -
  have "[0..<1000 :: nat] = 0 # [Suc 0..<1000]" by (rule upt_conv_Cons) simp
  then show ?thesis unfolding buildVenues_def by (intro exI) (simp only: list.map)
qed

lemma clear_twice: "clear_venues p (clear_venues p e) = clear_venues p e"
  by (simp add: clear_venues_def split: option.split)

section \<open>What it writes\<close>

lemma db_do_then:
  assumes "run (await (db_do c) k) w = (w', Inr x)"
  obtains d a where "c (w_db w) = (d, Inr a)" "run (k a) (w\<lparr>w_db := d\<rparr>) = (w', Inr x)"
  using assms by (auto simp: run_simps split: prod.splits sum.splits)

definition removed_seat :: "string \<Rightarrow> seat_row \<Rightarrow> bool" where
  "removed_seat i s \<longleftrightarrow> is_prefix ''phase-6-event-'' (seat_eventId s) \<or> seat_eventId s = demo_event_id"

text \<open>The tables after a run, by those before it.\<close>

definition seeded ::
  "('d \<Rightarrow> string \<Rightarrow> venue_row option) \<Rightarrow> ('d \<Rightarrow> string \<Rightarrow> SeedEvent option) \<Rightarrow> ('d \<Rightarrow> string \<Rightarrow> seat_row option) \<Rightarrow>
   ('d \<Rightarrow> string \<Rightarrow> order_row option) \<Rightarrow> 'd \<Rightarrow> 'd \<Rightarrow> bool" where
  "seeded venues listed seats orders d d' \<longleftrightarrow>
     venues d' = with_rows (except (venues d) (\<lambda>i _. is_prefix ''phase-6-venue-'' i)) vn_id buildVenues \<and>
     listed d' = (with_rows (\<lambda>i. map_option (clear_venues ''phase-6-venue-'')
        (except (listed d) (\<lambda>i _. is_prefix ''phase-6-event-'' i) i)) evt_id (seed_events buildVenues))
        (demo_event_id \<mapsto> demo_event (build_venue 0)) \<and>
     seats d' = with_rows (except (seats d) removed_seat) seat_id (seed_seats demo_event_id) \<and>
     orders d' = orders d \<and>
     (\<forall>s \<in> set (seed_seats demo_event_id). except (seats d) removed_seat (seat_id s) = None)"

lemma removed_twice:
  "except (except t (\<lambda>_ s. is_prefix ''phase-6-event-'' (seat_eventId s))) (\<lambda>_ s. seat_eventId s = demo_event_id) = except t removed_seat"
  by (rule ext) (simp add: except_def removed_seat_def split: option.split)

context seed_tables begin

lemma seed_main_run:
  assumes "run (seed_main P G) w = (w', Inr ())"
  shows "seeded venues listed seats orders (w_db w) (w_db w')"
proof -
  obtain vs where vs: "buildVenues = build_venue 0 # vs" using buildVenues_first by blast
  have main: "seed_main P G =
     await (db_do (sd_event_deleteMany P ''phase-6-event-'')) (\<lambda>_.
     await (db_do (sd_venue_deleteMany P ''phase-6-venue-'')) (\<lambda>_.
     await (db_do (sd_venue_createMany P buildVenues)) (\<lambda>_.
     await (db_do (sd_event_createMany P (seed_events buildVenues))) (\<lambda>_.
     await (db_do (sd_event_upsert P demo_event_id (demo_event (build_venue 0)) (demo_event (build_venue 0)))) (\<lambda>_.
     await (db_do (sd_seat_deleteMany P demo_event_id)) (\<lambda>_.
     await (db_do (sd_seat_createMany P (seed_seats demo_event_id))) (\<lambda>_.
     await (syncVenuesToGeoIndex G) (\<lambda>_. Ret ()))))))))" by (simp add: seed_main_def vs Let_def)
  from assms [unfolded main] obtain d1 n1 d2 n2 d3 n3 d4 n4 d5 d6 n6 d7 n7 where
    s: "sd_event_deleteMany P ''phase-6-event-'' (w_db w) = (d1, Inr n1)" "sd_venue_deleteMany P ''phase-6-venue-'' d1 = (d2, Inr n2)"
    "sd_venue_createMany P buildVenues d2 = (d3, Inr n3)" "sd_event_createMany P (seed_events buildVenues) d3 = (d4, Inr n4)"
    "sd_event_upsert P demo_event_id (demo_event (build_venue 0)) (demo_event (build_venue 0)) d4 = (d5, Inr ())"
    "sd_seat_deleteMany P demo_event_id d5 = (d6, Inr n6)" "sd_seat_createMany P (seed_seats demo_event_id) d6 = (d7, Inr n7)"
    and g: "run (await (syncVenuesToGeoIndex G) (\<lambda>_. Ret ())) (w\<lparr>w_db := d7\<rparr>) = (w', Inr ())"
    by (elim db_do_then) simp
  have "w_db w' = d7" using g by (auto simp: syncVenuesToGeoIndex_def run_simps split: prod.splits sum.splits if_splits)
  with event_deleteMany [OF s(1)] venue_deleteMany [OF s(2)] venue_createMany [OF s(3)] event_createMany [OF s(4)]
    event_upsert [OF s(5)] seat_deleteMany [OF s(6)] seat_createMany [OF s(7)]
  show ?thesis unfolding seeded_def by (simp add: demo_event_def removed_twice)
qed

end

text \<open>Connecting and disconnecting leave the tables alone, so the script's outcome is that of \<open>main\<close>.\<close>

lemma load_each_db: "run (load_each svc names) w = (w', x) \<Longrightarrow> w_db w' = w_db w"
  by (induction names arbitrary: w) (auto simp: run_simps split: prod.splits sum.splits option.splits)

lemma connectRedis_db: "run (connectRedis F) p = (p', x) \<Longrightarrow> w_db (ps_world p') = w_db (ps_world p)"
  by (auto simp: connectRedis_def loadLuaScripts_def run_simps split: prod.splits sum.splits dest!: load_each_db)

lemma seed_script_runs:
  assumes "run (seed_script F P) p = (p', x)"
  shows "\<exists>p1 y. run (connectRedis F) p = (p1, y) \<and>
    (case y of Inl e \<Rightarrow> x = Inl e \<and> w_db (ps_world p') = w_db (ps_world p)
     | Inr _ \<Rightarrow> \<exists>w. run (seed_main P (pf_geo F)) (ps_world p1) = (w, x) \<and> w_db (ps_world p1) = w_db (ps_world p) \<and>
         w_db (ps_world p') = w_db w)"
proof -
  obtain p1 y where c: "run (connectRedis F) p = (p1, y)" by force
  have db: "w_db (ps_world p1) = w_db (ps_world p)" by (rule connectRedis_db [OF c])
  have off: "\<exists>q'. run (await (disconnectRedis F) (\<lambda>_. disconnectDatabase F)) q = (q', Inr ()) \<and> w_db (ps_world q') = w_db (ps_world q)" for q
    using disconnectRedis_run [of F q] by (auto simp: run_simps)
  show ?thesis
  proof (cases y)
    case (Inl e)
    obtain q' where "run (await (disconnectRedis F) (\<lambda>_. disconnectDatabase F)) p1 = (q', Inr ())" "w_db (ps_world q') = w_db (ps_world p1)"
      using off by blast
    with assms c Inl db show ?thesis by (auto simp: seed_script_def finally_do_def run_await run_settled run_rethrow)
  next
    case (Inr u)
    obtain w z where m: "run (seed_main P (pf_geo F)) (ps_world p1) = (w, z)" by force
    obtain q' where "run (await (disconnectRedis F) (\<lambda>_. disconnectDatabase F)) (p1\<lparr>ps_world := w\<rparr>) = (q', Inr ())"
      "w_db (ps_world q') = w_db w" using off [of "p1\<lparr>ps_world := w\<rparr>"] by auto
    with assms c Inr db m show ?thesis
      by (auto simp: seed_script_def finally_do_def run_await run_settled run_rethrow run_in_process)
  qed
qed

section \<open>On tables held in memory\<close>

record seed_db =
  tb_venues :: "string \<Rightarrow> venue_row option"
  tb_events :: "string \<Rightarrow> SeedEvent option"
  tb_seats :: "string \<Rightarrow> seat_row option"
  tb_orders :: "string \<Rightarrow> order_row option"

definition duplicate_id :: exn where
  "duplicate_id = JsError ''Unique constraint failed on the fields: (`id`)''"

definition ref_seed_client :: "seed_db seed_client" where
  "ref_seed_client = \<lparr>
     sd_event_deleteMany = (\<lambda>p d. (d\<lparr>tb_events := except (tb_events d) (\<lambda>i _. is_prefix p i),
       tb_seats := except (tb_seats d) (\<lambda>_ s. is_prefix p (seat_eventId s))\<rparr>, Inr 0)),
     sd_venue_deleteMany = (\<lambda>p d. (d\<lparr>tb_venues := except (tb_venues d) (\<lambda>i _. is_prefix p i),
       tb_events := (\<lambda>i. map_option (clear_venues p) (tb_events d i))\<rparr>, Inr 0)),
     sd_venue_createMany = (\<lambda>vs d. if list_all (\<lambda>v. tb_venues d (vn_id v) = None) vs
       then (d\<lparr>tb_venues := with_rows (tb_venues d) vn_id vs\<rparr>, Inr (length vs)) else (d, Inl duplicate_id)),
     sd_event_createMany = (\<lambda>es d. if list_all (\<lambda>e. tb_events d (evt_id e) = None) es
       then (d\<lparr>tb_events := with_rows (tb_events d) evt_id es\<rparr>, Inr (length es)) else (d, Inl duplicate_id)),
     sd_event_upsert = (\<lambda>i update create d.
       (d\<lparr>tb_events := (tb_events d)(i \<mapsto> if tb_events d i = None then create else update\<lparr>evt_id := i\<rparr>)\<rparr>, Inr ())),
     sd_seat_deleteMany = (\<lambda>ev d. (d\<lparr>tb_seats := except (tb_seats d) (\<lambda>_ s. seat_eventId s = ev)\<rparr>, Inr 0)),
     sd_seat_createMany = (\<lambda>ss d. if list_all (\<lambda>s. tb_seats d (seat_id s) = None) ss
       then (d\<lparr>tb_seats := with_rows (tb_seats d) seat_id ss\<rparr>, Inr (length ss)) else (d, Inl duplicate_id))\<rparr>"

interpretation ref_seed: seed_tables ref_seed_client tb_venues tb_events tb_seats tb_orders
  by unfold_locales (auto simp: ref_seed_client_def list_all_iff split: if_splits)

text \<open>A platform whose connections answer, and tables in which a demo seat is sold.\<close>

definition seed_platform :: "(ref_redis, seed_db) platform" where
  "seed_platform = \<lparr>pf_svc = \<lparr>redis = ref_client, prisma = undefined, scriptFile = scriptFile ref_services\<rparr>,
     pf_geo = sample_geo, pf_connect = (\<lambda>_ r. (''ready'', r, Inr ())), pf_ping = (\<lambda>s r. (s, r, Inr ())),
     pf_quit = (\<lambda>_ r. (''end'', r, Inr ())), pf_select_1 = (\<lambda>_. Inr ()), pf_db_disconnect = (\<lambda>_. Inr ()),
     pf_pool_end = (\<lambda>_. Inr ()), pf_ws_start = Ret (), pf_ws_close = Ret ()\<rparr>"

definition sold_demo_seat :: seat_row where
  "sold_demo_seat = (seed_seat demo_event_id 1 1 1)\<lparr>seat_status := SOLD\<rparr>"

definition demo_order :: order_row where
  "demo_order = \<lparr>ord_holdId = ''h1'', ord_eventId = demo_event_id, ord_seatId = seat_id sold_demo_seat, ord_userId = ''u1'',
     ord_expiresAt = 0, ord_status = BOOKED, ord_id = ''o1''\<rparr>"

definition sold_tables :: seed_db where
  "sold_tables = \<lparr>tb_venues = Map.empty, tb_events = [demo_event_id \<mapsto> demo_event (build_venue 0)],
     tb_seats = [seat_id sold_demo_seat \<mapsto> sold_demo_seat], tb_orders = [''h1'' \<mapsto> demo_order]\<rparr>"

definition seed_process :: "(ref_redis, seed_db) process_state" where
  "seed_process = \<lparr>ps_world = \<lparr>w_redis = ref_redis0, w_db = sold_tables, w_clock = 0, w_digests = Map.empty,
     w_adapter_connected = False, w_consumer_running = False, w_sent = []\<rparr>, ps_status = ''wait'', ps_shuttingDown = False,
     ps_signals = False, ps_listening = None, ps_closing = False, ps_exit = None\<rparr>"

text \<open>It succeeds on any tables whose seats are all of the demo event.\<close>

lemma ref_seed_run:
  assumes "\<And>i s. tb_seats (w_db (ps_world p)) i = Some s \<Longrightarrow> seat_eventId s = demo_event_id"
  shows "\<exists>p'. run (seed_script seed_platform ref_seed_client) p = (p', Inr ())"
proof -
  obtain p' x where r: "run (seed_script seed_platform ref_seed_client) p = (p', x)" by force
  obtain p1 where c: "run (connectRedis seed_platform) p = (p1, Inr ())"
    by (simp add: connectRedis_def loadLuaScripts_def scriptSources_def seed_platform_def ref_client_def run_simps)
  obtain vs where vs: "buildVenues = build_venue 0 # vs" using buildVenues_first by blast
  have db: "w_db (ps_world p1) = w_db (ps_world p)" by (rule connectRedis_db [OF c])
  let ?d = "w_db (ps_world p)"
  have v: "list_all (\<lambda>v. except (tb_venues ?d) (\<lambda>i _. is_prefix ''phase-6-venue-'' i) (vn_id v) = None) buildVenues"
    using seeded_prefixes(1) by (auto simp: list_all_iff except_def split: option.split)
  have e: "list_all (\<lambda>e. except (tb_events ?d) (\<lambda>i _. is_prefix ''phase-6-event-'' i) (evt_id e) = None) (seed_events buildVenues)"
    using seeded_prefixes(2) by (auto simp: list_all_iff except_def split: option.split)
  have s: "except (except (tb_seats ?d) g) (\<lambda>_ s. seat_eventId s = demo_event_id) i = None" for g i
    using assms by (auto simp: except_def split: option.split)
  have "\<exists>w. run (seed_main ref_seed_client (pf_geo seed_platform)) (ps_world p1) = (w, Inr ())"
    using v e s db unfolding vs
    by (simp add: seed_main_def vs Let_def ref_seed_client_def run_simps seed_platform_def sample_geo_def syncVenuesToGeoIndex_def list_all_iff)
  with seed_script_runs [OF r] c r show ?thesis by auto
qed

lemma seed_process_seats: "tb_seats (w_db (ps_world seed_process)) i = Some s \<Longrightarrow> seat_eventId s = demo_event_id"
  by (auto simp: seed_process_def sold_tables_def sold_demo_seat_def seed_seat_def split: if_splits)

lemma seed_process_run: "\<exists>p'. run (seed_script seed_platform ref_seed_client) seed_process = (p', Inr ())"
  by (rule ref_seed_run) (rule seed_process_seats)

section \<open>Properties\<close>

context seed_tables begin

lemma seed_script_seeds:
  assumes "run (seed_script F P) p = (p', Inr ())"
  shows "seeded venues listed seats orders (w_db (ps_world p)) (w_db (ps_world p'))"
proof -
  obtain p1 y where "run (connectRedis F) p = (p1, y)"
    and y: "case y of Inl e \<Rightarrow> Inr () = (Inl e :: exn + unit) \<and> w_db (ps_world p') = w_db (ps_world p)
       | Inr _ \<Rightarrow> \<exists>w. run (seed_main P (pf_geo F)) (ps_world p1) = (w, Inr ()) \<and> w_db (ps_world p1) = w_db (ps_world p) \<and>
           w_db (ps_world p') = w_db w"
    using seed_script_runs [OF assms] by blast
  then obtain w where "run (seed_main P (pf_geo F)) (ps_world p1) = (w, Inr ())" "w_db (ps_world p1) = w_db (ps_world p)"
    "w_db (ps_world p') = w_db w" by (cases y) auto
  with seed_main_run show ?thesis by metis
qed

end

lemma seeded_venues:
  assumes "seeded venues listed seats orders d d'"
  shows "v \<in> set buildVenues \<Longrightarrow> venues d' (vn_id v) = Some v"
    and "venues d' i = Some v \<Longrightarrow> is_prefix ''phase-6-venue-'' i \<Longrightarrow> v \<in> set buildVenues"
    and "\<not> is_prefix ''phase-6-venue-'' i \<Longrightarrow> venues d' i = venues d i"
proof -
  have e: "venues d' = with_rows (except (venues d) (\<lambda>i _. is_prefix ''phase-6-venue-'' i)) vn_id buildVenues"
    using assms by (simp add: seeded_def)
  show "venues d' (vn_id v) = Some v" if "v \<in> set buildVenues"
    unfolding e by (rule with_rows_in [OF venue_ids_distinct that])
  show "v \<in> set buildVenues" if "venues d' i = Some v" "is_prefix ''phase-6-venue-'' i"
    using with_rows_cases [OF that(1) [unfolded e]] that(2) by (auto simp: except_Some)
  show "venues d' i = venues d i" if "\<not> is_prefix ''phase-6-venue-'' i"
  proof -
    have "i \<notin> vn_id ` set buildVenues" using seeded_prefixes(1) that by auto
    then show ?thesis unfolding e by (simp add: with_rows_out) (simp add: that except_def split: option.split)
  qed
qed

lemma seeded_events:
  assumes "seeded venues listed seats orders d d'"
  shows "e \<in> set (seed_events buildVenues) \<Longrightarrow> listed d' (evt_id e) = Some e"
    and "listed d' demo_event_id = Some (demo_event (build_venue 0))"
    and "\<not> is_prefix ''phase-6-event-'' i \<Longrightarrow> i \<noteq> demo_event_id \<Longrightarrow>
      listed d' i = map_option (clear_venues ''phase-6-venue-'') (listed d i)"
    and "is_prefix ''phase-6-event-'' i \<Longrightarrow> i \<notin> evt_id ` set (seed_events buildVenues) \<Longrightarrow> listed d' i = None"
proof -
  have l: "listed d' = (with_rows (\<lambda>i. map_option (clear_venues ''phase-6-venue-'')
        (except (listed d) (\<lambda>i _. is_prefix ''phase-6-event-'' i) i)) evt_id (seed_events buildVenues))
        (demo_event_id \<mapsto> demo_event (build_venue 0))" using assms by (simp add: seeded_def)
  show "listed d' (evt_id e) = Some e" if "e \<in> set (seed_events buildVenues)"
  proof -
    have "evt_id e \<noteq> demo_event_id" using seeded_prefixes(2) [OF that] seeded_prefixes(3) by metis
    then show ?thesis unfolding l by (simp add: with_rows_in [OF seed_event_ids_distinct that])
  qed
  show "listed d' demo_event_id = Some (demo_event (build_venue 0))" by (simp add: l)
  show "listed d' i = map_option (clear_venues ''phase-6-venue-'') (listed d i)"
    if "\<not> is_prefix ''phase-6-event-'' i" "i \<noteq> demo_event_id"
  proof -
    have "i \<notin> evt_id ` set (seed_events buildVenues)" using seeded_prefixes(2) that(1) by auto
    with that show ?thesis unfolding l by (simp add: with_rows_out) (simp add: except_def split: option.split)
  qed
  show "listed d' i = None" if "is_prefix ''phase-6-event-'' i" "i \<notin> evt_id ` set (seed_events buildVenues)"
  proof -
    have "i \<noteq> demo_event_id" using that(1) seeded_prefixes(3) by metis
    with that show ?thesis unfolding l by (simp add: with_rows_out) (simp add: except_def split: option.split)
  qed
qed

lemma seeded_seats:
  assumes "seeded venues listed seats orders d d'"
  shows "s \<in> set (seed_seats demo_event_id) \<Longrightarrow> seats d' (seat_id s) = Some s"
    and "seats d' i = Some s \<Longrightarrow> seat_eventId s = demo_event_id \<Longrightarrow> s \<in> set (seed_seats demo_event_id) \<and> seat_status s = AVAILABLE"
    and "seats d i = Some s \<Longrightarrow> \<not> removed_seat i s \<Longrightarrow> seats d' i = Some s"
proof -
  have e: "seats d' = with_rows (except (seats d) removed_seat) seat_id (seed_seats demo_event_id)"
    and none: "\<forall>s \<in> set (seed_seats demo_event_id). except (seats d) removed_seat (seat_id s) = None"
    using assms by (simp_all add: seeded_def)
  show "seats d' (seat_id s) = Some s" if "s \<in> set (seed_seats demo_event_id)"
    unfolding e by (rule with_rows_in [OF seed_seat_ids_distinct that])
  show "s \<in> set (seed_seats demo_event_id) \<and> seat_status s = AVAILABLE"
    if "seats d' i = Some s" "seat_eventId s = demo_event_id"
    using with_rows_cases [OF that(1) [unfolded e]] that(2) seed_seats_available [of demo_event_id]
    by (auto simp: except_Some removed_seat_def)
  show "seats d' i = Some s" if "seats d i = Some s" "\<not> removed_seat i s"
  proof -
    have rest: "except (seats d) removed_seat i = Some s" using that by (simp add: except_Some)
    then have "i \<notin> seat_id ` set (seed_seats demo_event_id)" using none by force
    with rest show ?thesis unfolding e by (simp add: with_rows_out)
  qed
qed



text \<open>
  Seeding again changes nothing: after two runs that end well the tables are as
  after the first.
\<close>

theorem seed_idempotent:
  assumes "seed_tables P venues listed seats orders"
    and "run (seed_script F P) p = (p1, Inr ())" and "run (seed_script F P) p1 = (p2, Inr ())"
  shows "venues (w_db (ps_world p2)) = venues (w_db (ps_world p1)) \<and> listed (w_db (ps_world p2)) = listed (w_db (ps_world p1)) \<and>
    seats (w_db (ps_world p2)) = seats (w_db (ps_world p1)) \<and> orders (w_db (ps_world p2)) = orders (w_db (ps_world p1))"
proof -
  note one = seed_tables.seed_script_seeds [OF assms(1,2)] and two = seed_tables.seed_script_seeds [OF assms(1,3)]
  have "listed (w_db (ps_world p2)) i = listed (w_db (ps_world p1)) i" for i
  proof -
    consider "i = demo_event_id" | e where "e \<in> set (seed_events buildVenues)" "i = evt_id e"
      | "is_prefix ''phase-6-event-'' i" "i \<notin> evt_id ` set (seed_events buildVenues)"
      | "\<not> is_prefix ''phase-6-event-'' i" "i \<noteq> demo_event_id" by blast
    then show ?thesis
      by cases (simp_all add: seeded_events [OF one] seeded_events [OF two] option.map_comp comp_def clear_twice)
  qed
  moreover have "venues (w_db (ps_world p2)) = venues (w_db (ps_world p1))" "seats (w_db (ps_world p2)) = seats (w_db (ps_world p1))"
    "orders (w_db (ps_world p2)) = orders (w_db (ps_world p1))"
    using one two by (simp_all add: seeded_def with_rows_again)
  ultimately show ?thesis by blast
qed

theorem seed_idempotent_witness:
  "\<exists>p1 p2. run (seed_script seed_platform ref_seed_client) seed_process = (p1, Inr ()) \<and>
    run (seed_script seed_platform ref_seed_client) p1 = (p2, Inr ()) \<and>
    tb_seats (w_db (ps_world p2)) = tb_seats (w_db (ps_world p1))"
proof -
  obtain p1 where r1: "run (seed_script seed_platform ref_seed_client) seed_process = (p1, Inr ())"
    using seed_process_run by blast
  have "seat_eventId s = demo_event_id" if "tb_seats (w_db (ps_world p1)) i = Some s" for i s
  proof -
    have "tb_seats (w_db (ps_world p1)) = with_rows (except (tb_seats (w_db (ps_world seed_process))) removed_seat) seat_id (seed_seats demo_event_id)"
      using ref_seed.seed_script_seeds [OF r1] by (simp add: seeded_def)
    from with_rows_cases [OF that [unfolded this]] seed_seats_available [of demo_event_id] seed_process_seats
    show ?thesis by (auto simp: except_Some)
  qed
  then have "\<exists>p2. run (seed_script seed_platform ref_seed_client) p1 = (p2, Inr ())" by (rule ref_seed_run)
  then obtain p2 where r2: "run (seed_script seed_platform ref_seed_client) p1 = (p2, Inr ())" by blast
  from seed_idempotent [OF ref_seed.seed_tables_axioms r1 r2] r1 r2 show ?thesis by blast
qed

text \<open>
  Seeding forgets sales.  It gives the demo event fresh seats and keeps the orders, so
  when an order for that event was booked before, the tables are inconsistent after: the order
  is still booked and its seat is not sold, but on sale again or gone.
\<close>

theorem seed_forgets_sales:
  assumes "seed_tables P venues listed seats orders"
    and "run (seed_script F P) p = (p', Inr ())"
    and "orders (w_db (ps_world p)) h = Some row" and "ord_status row = BOOKED" and "ord_eventId row = demo_event_id"
  shows "orders (w_db (ps_world p')) h = Some row \<and> \<not> booked_sold seats orders (w_db (ps_world p')) \<and>
    (\<forall>s. seats (w_db (ps_world p')) (ord_seatId row) = Some s \<longrightarrow> seat_eventId s = ord_eventId row \<longrightarrow> seat_status s = AVAILABLE)"
proof -
  note seeded = seed_tables.seed_script_seeds [OF assms(1,2)]
  then have o: "orders (w_db (ps_world p')) h = Some row" using assms(3) by (simp add: seeded_def)
  have fresh: "seat_status s = AVAILABLE"
    if "seats (w_db (ps_world p')) (ord_seatId row) = Some s" "seat_eventId s = ord_eventId row" for s
    using seeded_seats(2) [OF seeded that(1)] that(2) assms(5) by simp
  then have "\<not> booked_sold seats orders (w_db (ps_world p'))"
    using o assms(4) unfolding booked_sold_def by (metis SeatState.distinct)
  with o fresh show ?thesis by blast
qed

theorem seed_forgets_sales_witness:
  "\<exists>p'. run (seed_script seed_platform ref_seed_client) seed_process = (p', Inr ()) \<and>
    booked_sold tb_seats tb_orders (w_db (ps_world seed_process)) \<and> \<not> booked_sold tb_seats tb_orders (w_db (ps_world p'))"
proof -
  obtain p' where r: "run (seed_script seed_platform ref_seed_client) seed_process = (p', Inr ())"
    using seed_process_run by blast
  have o: "tb_orders (w_db (ps_world seed_process)) ''h1'' = Some demo_order" "ord_status demo_order = BOOKED"
    "ord_eventId demo_order = demo_event_id" by (simp_all add: seed_process_def sold_tables_def demo_order_def)
  have "booked_sold tb_seats tb_orders (w_db (ps_world seed_process))"
    by (auto simp: booked_sold_def seed_process_def sold_tables_def demo_order_def sold_demo_seat_def seed_seat_def split: if_splits)
  with r seed_forgets_sales [OF ref_seed.seed_tables_axioms r o] show ?thesis by blast
qed

end
