(* ===== verification/Worker_Liveness.thy ===== *)
theory Worker_Liveness imports Double_Booking begin

text \<open>
  What the order worker achieves, and not only what it avoids: while its commands answer, and
  while buyers go on holding and ordering seats beside it, it books every order of its
  backlog that can be booked, however its batches interleave and whatever else is in
  the stream.
\<close>

section \<open>Commands that answer\<close>

text \<open>
  The contract of a back end whose commands do not fail, as far as the worker uses it.  An
  existing group is reported as \<open>BUSYGROUP\<close>; \<open>XREADGROUP\<close> hands out the oldest \<open>COUNT\<close>
  entries, all of them if there are fewer.
\<close>

locale answering_worker =
  engine S pttl elapse svc sha1 entries undelivered pending seats orders events
  for S :: "'r redis_server" and pttl and elapse and svc :: "('r, 'd) services" and sha1
    and entries and undelivered and pending and seats and orders and events +
  assumes finds: "\<exists>found. pc_order_findUnique (prisma svc) h d = Inr found"
    and moves_seat: "\<exists>d1 n. pc_seat_updateMany (prisma svc) sid ev HELD SOLD d = (d1, Inr n)"
    and books: "orders d h \<noteq> None \<Longrightarrow> \<exists>d1 row. pc_order_update (prisma svc) h BOOKED d = (d1, Inr row)"
    and commits: "body d = (d1, Inr ()) \<Longrightarrow> pc_transaction_void (prisma svc) body d = (d1, Inr ())"
    and acknowledges: "\<exists>r1 n. c_xack (redis svc) ORDER_STREAM_KEY ORDER_CONSUMER_GROUP i r = (r1, Inr n)"
    and claims: "\<exists>r1 batch. c_xautoclaim (redis svc) ORDER_STREAM_KEY ORDER_CONSUMER_GROUP c idle n r = (r1, Inr batch)"
    and hands_out: "undelivered r = Some u \<Longrightarrow>
      \<exists>r1 got. c_xreadgroup (redis svc) ORDER_STREAM_KEY ORDER_CONSUMER_GROUP c n b r = (r1, Inr got) \<and>
        undelivered r1 = Some (drop n u)"
    and group_exists: "undelivered r = Some u \<Longrightarrow>
      \<exists>r1 e. c_xgroup_create (redis svc) ORDER_STREAM_KEY ORDER_CONSUMER_GROUP r = (r1, Inl e) \<and>
        js_includes (exn_message e) ''BUSYGROUP''"

interpretation ref_worker:
  answering_worker ref_server ref_pttl ref_elapse ref_services ref_sha1 ref_entries rs_undelivered "\<lambda>r. set (rs_pel r)"
    ref_seats ref_orders rd_events
proof unfold_locales
  fix r :: ref_redis and u
  have "js_includes ''BUSYGROUP Consumer Group name already exists'' ''BUSYGROUP''" by code_simp
  then show "rs_undelivered r = Some u \<Longrightarrow> \<exists>r1 e. c_xgroup_create (redis ref_services) ORDER_STREAM_KEY ORDER_CONSUMER_GROUP r = (r1, Inl e) \<and>
      js_includes (exn_message e) ''BUSYGROUP''"
    by (simp add: ref_client_def)
qed (auto simp: ref_client_def ref_prisma_def ref_transaction_def split: option.split)

section \<open>Orders that can be booked\<close>

text \<open>
  The order of a payload waits for its settlement: it is not booked, its seat is held, and no
  other order is for that seat.
\<close>

definition bookable ::
  "('d \<Rightarrow> string \<Rightarrow> seat_row option) \<Rightarrow> ('d \<Rightarrow> string \<Rightarrow> order_row option) \<Rightarrow> OrderCreatedEventPayload \<Rightarrow> 'd \<Rightarrow> bool" where
  "bookable seats orders p d \<longleftrightarrow>
     (\<exists>row. orders d (oc_holdId p) = Some row \<and> ord_status row \<noteq> BOOKED) \<and>
     (\<exists>s. seats d (oc_seatId p) = Some s \<and> seat_eventId s = oc_eventId p \<and> seat_status s = HELD) \<and>
     (\<forall>h row. orders d h = Some row \<longrightarrow> ord_seatId row = oc_seatId p \<longrightarrow> h = oc_holdId p)"

definition sold_to ::
  "('d \<Rightarrow> string \<Rightarrow> seat_row option) \<Rightarrow> ('d \<Rightarrow> string \<Rightarrow> order_row option) \<Rightarrow> OrderCreatedEventPayload \<Rightarrow> 'd \<Rightarrow> bool" where
  "sold_to seats orders p d \<longleftrightarrow>
     booked orders (oc_holdId p) d \<and> (\<exists>s. seats d (oc_seatId p) = Some s \<and> seat_status s = SOLD)"

text \<open>The message of the entry is settled and acknowledged.\<close>

definition dealt_with ::
  "('d \<Rightarrow> string \<Rightarrow> seat_row option) \<Rightarrow> ('d \<Rightarrow> string \<Rightarrow> order_row option) \<Rightarrow> ('r \<Rightarrow> string set) \<Rightarrow>
   stream_entry \<Rightarrow> OrderCreatedEventPayload \<Rightarrow> ('r, 'd) world \<Rightarrow> bool" where
  "dealt_with seats orders pending e p w \<longleftrightarrow> sold_to seats orders p (w_db w) \<and> fst e \<notin> pending (w_redis w)"

definition on_course ::
  "('d \<Rightarrow> string \<Rightarrow> seat_row option) \<Rightarrow> ('d \<Rightarrow> string \<Rightarrow> order_row option) \<Rightarrow> ('r \<Rightarrow> stream_entry list) \<Rightarrow>
   ('r \<Rightarrow> string list option) \<Rightarrow> ('r \<Rightarrow> string set) \<Rightarrow> stream_entry \<Rightarrow> OrderCreatedEventPayload \<Rightarrow> ('r, 'd) world \<Rightarrow> bool" where
  "on_course seats orders entries undelivered pending e p w \<longleftrightarrow>
     consistent seats orders entries undelivered pending w \<and> e \<in> set (entries (w_redis w)) \<and>
     (bookable seats orders p (w_db w) \<or> sold_to seats orders p (w_db w))"

text \<open>The entry is among the next \<open>k\<close> that the group is handed, or is dealt with.\<close>

definition queued ::
  "('d \<Rightarrow> string \<Rightarrow> seat_row option) \<Rightarrow> ('d \<Rightarrow> string \<Rightarrow> order_row option) \<Rightarrow> ('r \<Rightarrow> string list option) \<Rightarrow>
   ('r \<Rightarrow> string set) \<Rightarrow> stream_entry \<Rightarrow> OrderCreatedEventPayload \<Rightarrow> nat \<Rightarrow> ('r, 'd) world \<Rightarrow> bool" where
  "queued seats orders undelivered pending e p k w \<longleftrightarrow>
     (\<exists>u. undelivered (w_redis w) = Some u \<and>
        (fst e \<in> set (take k u) \<or> dealt_with seats orders pending e p w))"

definition keeps_flag :: "('r, 'd) world \<Rightarrow> ('r, 'd) world \<Rightarrow> bool" where
  "keeps_flag w w' \<longleftrightarrow> w_consumer_running w' = w_consumer_running w"

text \<open>
  The moves the worker can bear: they are progress, leave the order on course and acknowledged
  messages acknowledged, only append to what is still to be handed out, and neither start nor stop a worker.
\<close>

definition harmless ::
  "('d \<Rightarrow> string \<Rightarrow> seat_row option) \<Rightarrow> ('d \<Rightarrow> string \<Rightarrow> order_row option) \<Rightarrow> ('r \<Rightarrow> stream_entry list) \<Rightarrow>
   ('r \<Rightarrow> string list option) \<Rightarrow> ('r \<Rightarrow> string set) \<Rightarrow> stream_entry \<Rightarrow> OrderCreatedEventPayload \<Rightarrow>
   ('r, 'd) world \<Rightarrow> ('r, 'd) world \<Rightarrow> bool" where
  "harmless seats orders entries undelivered pending e p w w' \<longleftrightarrow>
     progress seats orders entries undelivered pending w w' \<and>
     (on_course seats orders entries undelivered pending e p w \<longrightarrow> on_course seats orders entries undelivered pending e p w') \<and>
     (fst e \<notin> pending (w_redis w) \<longrightarrow> fst e \<notin> pending (w_redis w')) \<and>
     (\<forall>u. undelivered (w_redis w) = Some u \<longrightarrow> (\<exists>v. undelivered (w_redis w') = Some (u @ v)))"

lemma elsewhere_harmless:
  "elsewhere entries undelivered pending w w' \<Longrightarrow> harmless seats orders entries undelivered pending e p w w'"
  unfolding harmless_def
  by (intro conjI elsewhere_progress) (auto simp: elsewhere_def on_course_def consistent_def)

lemma harmless_progress:
  "harmless seats orders entries undelivered pending e p w w' \<Longrightarrow> progress seats orders entries undelivered pending w w'"
  by (simp add: harmless_def)

lemma keeps_flag_refl [simp]: "keeps_flag w w"
  by (simp add: keeps_flag_def)

lemma sold_to_progress:
  assumes "seats_progress seats d d'" and "orders_progress orders d d'" and "sold_to seats orders p d"
  shows "sold_to seats orders p d'"
proof -
  from assms(3) obtain s where "seats d (oc_seatId p) = Some s" "seat_status s = SOLD" by (auto simp: sold_to_def)
  with assms(1) have "\<exists>s. seats d' (oc_seatId p) = Some s \<and> seat_status s = SOLD" unfolding seats_progress_def by blast
  with orders_progress_booked [OF assms(2)] assms(3) show ?thesis by (simp add: sold_to_def)
qed

text \<open>The settlement of any order that the stream announces keeps a bookable order on course.\<close>

lemma settlement_beside:
  assumes b: "bookable seats orders p d" and settled: "order_settled seats orders q d d'"
    and p: "\<exists>row. orders d (oc_holdId p) = Some row \<and> ord_seatId row = oc_seatId p \<and> ord_eventId row = oc_eventId p"
    and q: "\<exists>row. orders d (oc_holdId q) = Some row \<and> ord_seatId row = oc_seatId q \<and> ord_eventId row = oc_eventId q"
  shows "bookable seats orders p d' \<or> sold_to seats orders p d'"
proof -
  from settled obtain s row where s: "seats d (oc_seatId q) = Some s" "seats d' = (seats d)(oc_seatId q \<mapsto> s\<lparr>seat_status := SOLD\<rparr>)"
    and o: "orders d (oc_holdId q) = Some row" "orders d' = (orders d)(oc_holdId q \<mapsto> row\<lparr>ord_status := BOOKED\<rparr>)"
    by (auto simp: order_settled_def)
  show ?thesis
  proof (cases "oc_holdId q = oc_holdId p")
    case True
    with p q have "oc_seatId q = oc_seatId p" by auto
    with True s o show ?thesis by (auto simp: sold_to_def booked_def)
  next
    case False
    with b q have "oc_seatId q \<noteq> oc_seatId p" unfolding bookable_def by metis
    with False b s(2) o q have "bookable seats orders p d'" by (auto simp: bookable_def)
    then show ?thesis ..
  qed
qed

text \<open>A new order takes a seat that is on sale, hence another one.\<close>

lemma placement_beside:
  assumes b: "bookable seats orders p d" and placed: "order_placed seats orders events rq hold expires row d d'"
  shows "bookable seats orders p d'"
proof -
  from placed obtain s where s: "seats d (rq_seatId rq) = Some s" "seat_status s = AVAILABLE"
    "seats d' = (seats d)(rq_seatId rq \<mapsto> s\<lparr>seat_status := HELD\<rparr>)"
    and o: "orders d hold = None" "orders d' = (orders d)(hold \<mapsto> row)" "ord_seatId row = rq_seatId rq"
    by (auto simp: order_placed_def order_data.truncate_def)
  from b s have "rq_seatId rq \<noteq> oc_seatId p" by (auto simp: bookable_def)
  with b s o show ?thesis by (auto simp: bookable_def)
qed

lemma reopening_beside:
  assumes "bookable seats orders p d" and "seat_reopened seats orders rq d d'" and "rq_seatId rq \<noteq> oc_seatId p"
  shows "bookable seats orders p d'"
  using assms by (auto simp: bookable_def seat_reopened_def split: option.splits if_splits)

text \<open>Only starting, leaving and stopping the loop touches the flag of the worker.\<close>

lemma flag_redis_do: "moves keeps_flag (redis_do c)"
  unfolding redis_do_def by (rule moves_atomic) (simp add: keeps_flag_def case_prod_beta)

lemma flag_db_do: "moves keeps_flag (db_do c)"
  unfolding db_do_def by (rule moves_atomic) (simp add: keeps_flag_def case_prod_beta)

lemma flag_db_read: "moves keeps_flag (db_read c)"
  unfolding db_read_def by (rule moves_atomic) simp

lemma flag_Date_now: "moves keeps_flag Date_now"
  unfolding Date_now_def by (rule moves_reads) simp

lemma flag_digest: "moves keeps_flag (getLuaScriptDigest nm)"
  unfolding getLuaScriptDigest_def by (rule moves_atomic) simp

lemma flag_adapter_publish: "moves keeps_flag (adapter_publishSeatEvent svc event)"
  unfolding adapter_publishSeatEvent_def
  by (rule moves_atomic) (simp add: keeps_flag_def Let_def split: prod.split sum.split del: stringify.simps)

lemmas flag_intros = flag_redis_do flag_db_do flag_db_read flag_Date_now flag_digest flag_adapter_publish

context engine begin

abbreviation course :: "stream_entry \<Rightarrow> OrderCreatedEventPayload \<Rightarrow> ('r, 'd) world \<Rightarrow> bool" where
  "course \<equiv> on_course seats orders entries undelivered pending"

abbreviation harm :: "stream_entry \<Rightarrow> OrderCreatedEventPayload \<Rightarrow> ('r, 'd) world \<Rightarrow> ('r, 'd) world \<Rightarrow> bool" where
  "harm \<equiv> harmless seats orders entries undelivered pending"

abbreviation beside :: "stream_entry \<Rightarrow> OrderCreatedEventPayload \<Rightarrow> ('r, 'd) world \<Rightarrow> ('r, 'd) world \<Rightarrow> bool" where
  "beside e p \<equiv> \<lambda>w w'. harm e p w w' \<and> keeps_flag w w'"

abbreviation dealt :: "stream_entry \<Rightarrow> OrderCreatedEventPayload \<Rightarrow> ('r, 'd) world \<Rightarrow> bool" where
  "dealt \<equiv> dealt_with seats orders pending"

lemma harm_prog: "harm e p w w' \<Longrightarrow> prog w w'"
  by (simp add: harmless_def)

lemma beside_prog: "beside e p w w' \<Longrightarrow> prog w w'"
  by (simp add: harmless_def)

lemma course_prog:
  assumes "course e p w" and "prog w w'"
    and "bookable seats orders p (w_db w) \<Longrightarrow> bookable seats orders p (w_db w') \<or> sold_to seats orders p (w_db w')"
  shows "course e p w'"
proof -
  from assms(2) have "seats_progress seats (w_db w) (w_db w')" "orders_progress orders (w_db w) (w_db w')"
    and "\<exists>es. entries (w_redis w') = entries (w_redis w) @ es" and "cons w \<longrightarrow> cons w'" by (simp_all add: progress_def)
  with assms(1,3) sold_to_progress show ?thesis unfolding on_course_def by (metis UnI1 set_append)
qed

lemma harm_database:
  assumes "prog w w'" and "w_redis w' = w_redis w"
    and "course e p w \<Longrightarrow> bookable seats orders p (w_db w) \<Longrightarrow> bookable seats orders p (w_db w') \<or> sold_to seats orders p (w_db w')"
  shows "harm e p w w'"
  using assms course_prog [OF _ assms(1)] by (auto simp: harmless_def)

lemma harm_stream:
  assumes "prog w w'" and "w_db w' = w_db w" and "fst e \<notin> pending (w_redis w) \<Longrightarrow> fst e \<notin> pending (w_redis w')"
    and "\<And>u. undelivered (w_redis w) = Some u \<Longrightarrow> \<exists>v. undelivered (w_redis w') = Some (u @ v)"
  shows "harm e p w w'"
  using assms course_prog [OF _ assms(1)] by (auto simp: harmless_def)

lemma harm_away: "away w w' \<Longrightarrow> harm e p w w'"
  by (rule elsewhere_harmless)

lemma harm_refl [simp]: "harm e p w w"
  by (simp add: harm_away)

lemma stable_course: "stable (beside e p) (course e p)"
  by (rule stableI) (simp add: harmless_def)

lemma stable_dealt: "stable (beside e p) (dealt e p)"
  by (rule stableI) (auto simp: harmless_def dealt_with_def progress_def intro: sold_to_progress)

lemma stable_beside: "stable prog A \<Longrightarrow> stable (beside e p) A"
  by (erule stable_antimono) (simp add: harmless_def)

lemma stable_sold: "stable prog (\<lambda>w. sold_to seats orders p (w_db w))"
  by (rule stableI) (auto simp: progress_def intro: sold_to_progress)

lemmas stable_sold_to = stable_beside [OF stable_sold]

text \<open>The order of the entry, as the database has it.\<close>

lemma course_order:
  assumes "course e p w" and "entry_payload e = Some p"
  shows "\<exists>row. orders (w_db w) (oc_holdId p) = Some row \<and> ord_seatId row = oc_seatId p \<and> ord_eventId row = oc_eventId p"
  using assms by (auto simp: on_course_def consistent_def entries_match_def)

end

section \<open>A message of a batch\<close>

context answering_worker begin

text \<open>A settlement that can succeed does.\<close>

lemma settlement_commits:
  assumes "bookable seats orders p d \<or> sold_to seats orders p d"
  shows "\<exists>d'. pc_transaction_void (prisma svc) (settle_transaction (prisma svc) p) d = (d', Inr ()) \<and>
    sold_to seats orders p d'"
proof -
  obtain found where f: "pc_order_findUnique (prisma svc) (oc_holdId p) d = Inr found" using finds by blast
  then have found: "found = orders d (oc_holdId p)" by (rule order_findUnique)
  show ?thesis
  proof (cases "booked orders (oc_holdId p) d")
    case True
    then have "sold_to seats orders p d" using assms by (auto simp: bookable_def booked_def)
    moreover have "settle_transaction (prisma svc) p d = (d, Inr ())"
      using True f found by (auto simp: settle_transaction_def booked_def)
    ultimately show ?thesis using commits by blast
  next
    case False
    with assms have b: "bookable seats orders p d" by (simp add: sold_to_def)
    then obtain row s where row: "orders d (oc_holdId p) = Some row" "ord_status row \<noteq> BOOKED"
      and s: "seats d (oc_seatId p) = Some s" "seat_eventId s = oc_eventId p" "seat_status s = HELD"
      by (auto simp: bookable_def)
    obtain d1 n where u: "pc_seat_updateMany (prisma svc) (oc_seatId p) (oc_eventId p) HELD SOLD d = (d1, Inr n)"
      using moves_seat by blast
    from seat_update [OF u] s have d1: "n = 1" "seats d1 = (seats d)(oc_seatId p \<mapsto> s\<lparr>seat_status := SOLD\<rparr>)" "orders d1 = orders d"
      by auto
    with row obtain d2 row2 where o: "pc_order_update (prisma svc) (oc_holdId p) BOOKED d1 = (d2, Inr row2)"
      using books [of d1 "oc_holdId p"] by auto
    have body: "settle_transaction (prisma svc) p d = (d2, Inr ())"
      using f found row u d1(1) o by (simp add: settle_transaction_def)
    moreover have "sold_to seats orders p d2" using order_update [OF o] d1 by (auto simp: sold_to_def booked_def)
    ultimately show ?thesis using commits by blast
  qed
qed

text \<open>What one message does to the order of the entry \<open>e\<close>, whether it is its own message or another.\<close>

abbreviation own :: "stream_entry \<Rightarrow> RedisStreamMessage \<Rightarrow> bool" where
  "own e m \<equiv> m = toMessage (flat_entry e)"

lemma settles_beside:
  assumes e: "entry_payload e = Some p" and m: "supported m" "parsePayload m = Inr q"
  shows "rg (beside e p) (beside e p)
    (\<lambda>_ w. (booked orders (oc_holdId q) (w_db w) \<and> from_stream entries m w) \<and> (own e m \<longrightarrow> sold_to seats orders p (w_db w)))
    (\<lambda>_ _. \<not> own e m) (\<lambda>w. from_stream entries m w \<and> (own e m \<longrightarrow> course e p w)) (settleOrder svc q)"
  unfolding settleOrder_def db_do_def
proof (rule rg_atomic, goal_cases)
  case (2 w w' u)
  then obtain d where tx: "pc_transaction_void (prisma svc) (settle_transaction (prisma svc) q) (w_db w) = (d, Inr ())"
    and w': "w' = w\<lparr>w_db := d\<rparr>" by (auto split: prod.splits)
  note pr = rg_atomic_move [OF rg_settleOrder [OF m, unfolded settleOrder_def db_do_def] conjunct1 [OF 2(1)] 2(2)]
  from settle_transaction_commits [OF tx] have b: "booked orders (oc_holdId q) d"
    and c: "d = w_db w \<or> order_settled seats orders q (w_db w) d" by (auto intro: order_settled_booked)
  have "bookable seats orders p d \<or> sold_to seats orders p d" if "course e p w" "bookable seats orders p (w_db w)"
  proof -
    have "cons w" using that(1) by (simp add: on_course_def)
    from c settlement_beside [OF that(2) _ course_order [OF that(1) e] from_stream_match [OF this conjunct1 [OF 2(1)] m]] that(2)
    show ?thesis by blast
  qed
  then have h: "harm e p w w'" using w' pr by (intro harm_database) simp_all
  moreover have "sold_to seats orders p d" if own: "own e m"
  proof -
    have "q = p" using own e m by (simp add: entry_payload_def)
    with settlement_commits [of p "w_db w"] 2(1) own tx show ?thesis by (auto simp: on_course_def)
  qed
  moreover have "from_stream entries m w'" using 2(1) w' by (simp add: from_stream_def)
  ultimately show ?case using b w' by (simp add: keeps_flag_def)
next
  case (3 w w' x)
  then obtain d where tx: "pc_transaction_void (prisma svc) (settle_transaction (prisma svc) q) (w_db w) = (d, Inl x)"
    and w': "w' = w\<lparr>w_db := d\<rparr>" by (auto split: prod.splits)
  have "d = w_db w" using settle_transaction_rejects [OF tx] by simp
  moreover have "\<not> own e m"
  proof
    assume own: "own e m"
    then have "q = p" using e m by (simp add: entry_payload_def)
    with settlement_commits [of p "w_db w"] 3(1) own tx show False by (auto simp: on_course_def)
  qed
  ultimately show ?case using w' by simp
qed (auto intro!: stable_intros stable_beside [OF stable_from_stream] stable_beside [OF stable_booked] stable_course stable_sold_to)

lemma beside_away:
  assumes "moves away q" and "moves keeps_flag q" and "stable prog A"
  shows "rg (beside e p) (beside e p) (\<lambda>_. A) (\<lambda>_. A) A q"
proof (rule moves_keep [OF moves_both [OF assms(1,2)] stable_beside [OF assms(3)]])
  show "stable (\<lambda>w w'. away w w' \<and> keeps_flag w w') A"
    by (rule stable_antimono [OF assms(3)]) (simp add: elsewhere_progress)
qed (simp add: harm_away)

lemma publishes_beside:
  assumes "stable prog A"
  shows "rg (beside e p) (beside e p) (\<lambda>_. A) E A (publish_booked svc i q)"
  unfolding publish_booked_def
proof (rule rg_catch)
  show "rg (beside e p) (beside e p) (\<lambda>_. A) (\<lambda>_. A) A
     (await Date_now (\<lambda>now. adapter_publishSeatEvent svc (seat_event i now (oc_orderId q)
          (Booked (oc_eventId q) (oc_seatId q) (oc_orderId q)))))"
    by (rule beside_away [OF moves_await [OF away_Date_now away_adapter_publish]
          moves_await [OF flag_Date_now flag_adapter_publish] assms])
qed (rule rg.rg_Ret [OF stable_beside [OF assms]])

lemma acks_beside:
  assumes e: "entry_payload e = Some p" and m: "supported m" "parsePayload m = Inr q"
  shows "rg (beside e p) (beside e p) (\<lambda>_ w. own e m \<longrightarrow> dealt e p w) (\<lambda>_ _. P)
    (\<lambda>w. (booked orders (oc_holdId q) (w_db w) \<and> from_stream entries m w) \<and> (own e m \<longrightarrow> sold_to seats orders p (w_db w)))
    (redis_do (c_xack (redis svc) ORDER_STREAM_KEY ORDER_CONSUMER_GROUP (msg_id m)))"
  unfolding redis_do_def
proof (rule rg_atomic, goal_cases)
  case (2 w w' n)
  then obtain r where x: "c_xack (redis svc) ORDER_STREAM_KEY ORDER_CONSUMER_GROUP (msg_id m) (w_redis w) = (r, Inr n)"
    and w': "w' = w\<lparr>w_redis := r\<rparr>" by (auto split: prod.splits)
  note pr = rg_atomic_move [OF rg_xack [OF m, unfolded redis_do_def] conjunct1 [OF 2(1)] 2(2)]
  have r: "undelivered r = undelivered (w_redis w)" "pending r = pending (w_redis w) - {msg_id m}"
    using xack_remote [OF x] by auto
  have "harm e p w w'" using w' r pr by (intro harm_stream) simp_all
  moreover have "own e m \<Longrightarrow> dealt e p w'"
    using 2(1) w' r by (simp add: dealt_with_def toMessage_def flat_entry_def)
  ultimately show ?case using w' by (simp add: keeps_flag_def)
next
  case (3 w w' x)
  with acknowledges [of "msg_id m" "w_redis w"] show ?case by auto
qed (auto intro!: stable_intros stable_beside [OF stable_from_stream] stable_beside [OF stable_booked] stable_dealt stable_sold_to)

lemma message_beside:
  assumes e: "entry_payload e = Some p"
  shows "rg (beside e p) (beside e p) (\<lambda>_ w. own e m \<longrightarrow> dealt e p w) (\<lambda>_ _. False)
    (\<lambda>w. from_stream entries m w \<and> (own e m \<longrightarrow> course e p w)) (processMessage svc i m)"
    (is "rg ?R ?R ?Q _ ?A _")
  unfolding processMessage_def
proof (rule rg_catch)
  fix x
  show "rg ?R ?R ?Q (\<lambda>_ _. False) (\<lambda>_. \<not> own e m) (Ret ())" by (rule rg.rg_Ret) auto
next
  have A: "stable ?R ?A" by (intro stable_intros stable_beside [OF stable_from_stream] stable_course)
  have other: "rg ?R ?R ?Q (\<lambda>_ _. \<not> own e m) ?A (Throw x)" if "\<not> own e m" for x
    using A that by (rule rg.rg_Throw)
  show "rg ?R ?R ?Q (\<lambda>_ _. \<not> own e m) ?A
     (if \<not> supported m then Throw (JsError (''Unsupported order event: '' @ msg_id m))
      else await (sync (parsePayload m)) (\<lambda>payload.
           await (settleOrder svc payload) (\<lambda>_.
           await (publish_booked svc i payload) (\<lambda>_.
           await (redis_do (c_xack (redis svc) ORDER_STREAM_KEY ORDER_CONSUMER_GROUP (msg_id m))) (\<lambda>_.
           Ret ())))))"
  proof (cases "supported m \<and> (\<exists>q. parsePayload m = Inr q)")
    case False
    then have "\<not> own e m" using e by (auto simp: entry_payload_def Let_def split: if_splits sum.splits)
    with other False show ?thesis by (cases "parsePayload m") (auto simp: sync_def rethrow_def)
  next
    case True
    then obtain q where m: "supported m" "parsePayload m = Inr q" by blast
    let ?B = "\<lambda>w. booked orders (oc_holdId q) (w_db w) \<and> from_stream entries m w"
    let ?C = "\<lambda>w. ?B w \<and> (own e m \<longrightarrow> sold_to seats orders p (w_db w))"
    have "rg ?R ?R ?Q (\<lambda>_ _. \<not> own e m) ?C (await (publish_booked svc i q) (\<lambda>_.
           await (redis_do (c_xack (redis svc) ORDER_STREAM_KEY ORDER_CONSUMER_GROUP (msg_id m))) (\<lambda>_. Ret ())))"
    proof (rule rg_await [OF publishes_beside])
      show "stable prog ?C" by (intro stable_intros stable_from_stream stable_booked stable_sold)
      show "rg ?R ?R ?Q (\<lambda>_ _. \<not> own e m) ?C
          (await (redis_do (c_xack (redis svc) ORDER_STREAM_KEY ORDER_CONSUMER_GROUP (msg_id m))) (\<lambda>_. Ret ()))"
        by (rule rg_await [OF acks_beside [OF e m]]) (rule rg.rg_Ret, intro stable_intros stable_dealt)
    qed
    from rg_await [OF settles_beside [OF e m] this] m show ?thesis by (simp add: sync_def rethrow_def)
  qed
qed

text \<open>A batch that contains the message deals with it.\<close>

lemma batch_beside:
  assumes e: "entry_payload e = Some p"
  shows "rg (beside e p) (beside e p) (\<lambda>_ w. toMessage (flat_entry e) \<in> set ms \<longrightarrow> dealt e p w) (\<lambda>_ _. False)
    (\<lambda>w. all_from_stream entries ms w \<and> course e p w) (process_batch svc sched uuid ms)"
proof -
  let ?R = "beside e p" and ?ps = "map (\<lambda>i. processMessage svc (uuid i) (ms ! i)) [0..<length ms]"
  let ?P = "\<lambda>i r w. isInr r \<and> (own e (ms ! i) \<longrightarrow> dealt e p w)"
  let ?post = "\<lambda>w. toMessage (flat_entry e) \<in> set ms \<longrightarrow> dealt e p w"
  let ?A = "\<lambda>i w. from_stream entries (ms ! i) w \<and> (own e (ms ! i) \<longrightarrow> course e p w)"
  have "rg ?R ?R (\<lambda>a. ?P i (Inr a)) (\<lambda>x. ?P i (Inl x)) (?A i) (?ps ! i)" if "i < length ?ps" for i
    using that by (simp add: rg_weaken [OF message_beside [OF e]])
  then have "rg ?R ?R (\<lambda>rs w. length rs = length ?ps \<and> (\<forall>i < length ?ps. ?P i (rs ! i) w)) (\<lambda>_ _. False)
      (\<lambda>w. \<forall>i < length ?ps. ?A i w) (par sched ?ps)"
    by (intro rg_par allI impI stable_intros stable_dealt)
  then have "rg ?R ?R (\<lambda>rs w. list_all isInr rs \<and> ?post w) (\<lambda>_ _. False)
      (\<lambda>w. all_from_stream entries ms w \<and> course e p w) (par sched ?ps)"
  proof (rule rg_conseq [OF rg_weaken])
    fix rs w
    assume "length rs = length ?ps \<and> (\<forall>i < length ?ps. ?P i (rs ! i) w)"
    then show "list_all isInr rs \<and> ?post w" by (auto simp: list_all_length in_set_conv_nth)
  qed (auto simp: all_from_stream_def intro!: stable_intros stable_beside [OF stable_all_from_stream [unfolded all_from_stream_def]] stable_course)
  then show ?thesis
    unfolding process_batch_def Promise_all_def
  proof (rule rg_await)
    fix rs :: "(exn + unit) list"
    have "find (\<lambda>r. \<not> isInr r) rs = None" if "list_all isInr rs" using that by (auto simp: find_None_iff list_all_iff)
    moreover have "stable ?R (\<lambda>w. list_all isInr rs \<and> ?post w)" by (intro stable_intros stable_dealt)
    ultimately show "rg ?R ?R (\<lambda>_. ?post) (\<lambda>_ _. False) (\<lambda>w. list_all isInr rs \<and> ?post w)
        (case find (\<lambda>r. \<not> isInr r) rs of Some (Inl x) \<Rightarrow> Throw x | _ \<Rightarrow> Ret (oks rs))"
      by (cases "list_all isInr rs") (auto intro: rg.rg_Ret rg_False)
  qed
qed

section \<open>The backlog\<close>

text \<open>One poll either hands the message to this worker or brings the entry nearer.\<close>

abbreviation waiting :: "stream_entry \<Rightarrow> OrderCreatedEventPayload \<Rightarrow> nat \<Rightarrow> ('r, 'd) world \<Rightarrow> bool" where
  "waiting e p k w \<equiv> queued seats orders undelivered pending e p k w \<and> course e p w"

lemma queued_harm:
  assumes q: "queued seats orders undelivered pending e p k w" and m: "harm e p w w'"
  shows "queued seats orders undelivered pending e p k w'"
proof -
  from q obtain u where u: "undelivered (w_redis w) = Some u" "fst e \<in> set (take k u) \<or> dealt e p w" by (auto simp: queued_def)
  from m u(1) obtain v where v: "undelivered (w_redis w') = Some (u @ v)" by (auto simp: harmless_def)
  have "dealt e p w \<Longrightarrow> dealt e p w'"
    using m by (auto simp: harmless_def dealt_with_def progress_def intro: sold_to_progress)
  with u(2) v show ?thesis by (auto simp: queued_def)
qed

lemma stable_queued: "stable (beside e p) (queued seats orders undelivered pending e p k)"
  by (rule stableI) (blast intro: queued_harm)

lemma claims_beside:
  "rg (beside e p) prog (\<lambda>ms w. all_from_stream entries ms w \<and> waiting e p k w) (\<lambda>_ _. False)
    (waiting e p k) (claimPendingMessages svc consumer)"
  unfolding claimPendingMessages_def
proof (rule rg_await)
  show "rg (beside e p) prog (\<lambda>batch w. all_from_stream entries (map toMessage batch) w \<and> waiting e p k w) (\<lambda>_ _. False)
    (waiting e p k) (redis_do (c_xautoclaim (redis svc) ORDER_STREAM_KEY ORDER_CONSUMER_GROUP consumer CLAIM_IDLE_MS BATCH_SIZE))"
    unfolding redis_do_def
  proof (rule rg_atomic, goal_cases)
    case (2 w w' batch)
    then obtain r where x: "c_xautoclaim (redis svc) ORDER_STREAM_KEY ORDER_CONSUMER_GROUP consumer CLAIM_IDLE_MS BATCH_SIZE
        (w_redis w) = (r, Inr batch)" and w': "w' = w\<lparr>w_redis := r\<rparr>" by (auto split: prod.splits)
    note c = xautoclaim_remote [OF x]
    then have "set batch \<subseteq> flat_entry ` set (entries (w_redis w'))"
      using batch_of_entries [of "entries (w_redis w)" "pending (w_redis w)"] w' by auto
    then have "all_from_stream entries (map toMessage batch) w'" by (rule messages_from_stream)
    moreover have b: "beside e p w w'" using c w' by (simp add: harm_away elsewhere_def keeps_flag_def)
    moreover have "waiting e p k w'" using 2(1) stableD [OF stable_queued _ b] stableD [OF stable_course _ b] by blast
    ultimately show ?case using beside_prog by blast
  next
    case (3 w w' x)
    with claims [of consumer CLAIM_IDLE_MS BATCH_SIZE "w_redis w"] show ?case by auto
  qed (auto intro!: stable_intros stable_queued stable_course stable_beside [OF stable_all_from_stream])
qed (auto intro!: rg.rg_Ret stable_intros stable_queued stable_course stable_beside [OF stable_all_from_stream])

lemma handed_out:
  assumes x: "c_xreadgroup (redis svc) ORDER_STREAM_KEY ORDER_CONSUMER_GROUP c n b r = (r1, Inr result)"
    and u: "undelivered r = Some u" and ru: "undelivered r1 = Some (drop n u)"
  shows "entries r1 = entries r" and "pending r1 = pending r \<union> set (take n u)"
    and "(case result of None \<Rightarrow> [] | Some streams \<Rightarrow> concat (map (\<lambda>stream. map toMessage (snd stream)) streams)) =
      map toMessage (batch_of (entries r) (set (take n u)))"
proof -
  note c = xreadgroup_remote [OF x]
  then show "entries r1 = entries r" by blast
  have same: "take m u = take n u" if "drop m u = drop n u" for m
    using that by (metis append_take_drop_id append_same_eq)
  have none: "take n u = []" if "drop n u = u" using same [of 0] that by simp
  have "pending r1 = pending r \<union> set (take n u) \<and>
    (case result of None \<Rightarrow> [] | Some streams \<Rightarrow> concat (map (\<lambda>stream. map toMessage (snd stream)) streams)) =
      map toMessage (batch_of (entries r) (set (take n u)))"
  proof (cases "result = None")
    case True
    with c have "undelivered r1 = undelivered r" "pending r1 = pending r" by auto
    moreover from this(1) u ru have none: "take n u = []" by (intro none) simp
    ultimately show ?thesis by (simp only: none batch_of_def True) simp
  next
    case False
    with c obtain v m where v: "undelivered r = Some v" "undelivered r1 = Some (drop m v)" "pending r1 = pending r \<union> set (take m v)"
      "result = Some [(ORDER_STREAM_KEY, batch_of (entries r) (set (take m v)))]" by auto
    then have "take m v = take n u" using u ru same [of m] by simp
    with v show ?thesis by simp
  qed
  then show "pending r1 = pending r \<union> set (take n u)"
    and "(case result of None \<Rightarrow> [] | Some streams \<Rightarrow> concat (map (\<lambda>stream. map toMessage (snd stream)) streams)) =
      map toMessage (batch_of (entries r) (set (take n u)))" by blast+
qed

lemma reads_beside:
  "rg (beside e p) prog
    (\<lambda>ms w. all_from_stream entries ms w \<and> course e p w \<and>
       (toMessage (flat_entry e) \<in> set ms \<and> undelivered (w_redis w) \<noteq> None \<or> queued seats orders undelivered pending e p k w)) (\<lambda>_ _. False)
    (waiting e p (BATCH_SIZE + k)) (readMessages svc consumer blockMs)"
  (is "rg _ _ ?Q _ _ _")
  unfolding readMessages_def
proof (rule rg_await)
  let ?ms = "\<lambda>result. case result of None \<Rightarrow> [] | Some streams \<Rightarrow> concat (map (\<lambda>stream. map toMessage (snd stream)) streams)"
  have undel: "stable (beside e p) (\<lambda>w. undelivered (w_redis w) \<noteq> None)"
    by (rule stableI) (auto simp: harmless_def)
  have Q: "stable (beside e p) (?Q ms)" for ms
    by (intro stable_intros undel stable_queued stable_course stable_beside [OF stable_all_from_stream])
  show "rg (beside e p) prog (\<lambda>result. ?Q (?ms result)) (\<lambda>_ _. False) (waiting e p (BATCH_SIZE + k))
    (redis_do (c_xreadgroup (redis svc) ORDER_STREAM_KEY ORDER_CONSUMER_GROUP consumer BATCH_SIZE blockMs))"
    unfolding redis_do_def
  proof (rule rg_atomic, goal_cases)
    case (2 w w' result)
    then obtain r where x: "c_xreadgroup (redis svc) ORDER_STREAM_KEY ORDER_CONSUMER_GROUP consumer BATCH_SIZE blockMs
        (w_redis w) = (r, Inr result)" and w': "w' = w\<lparr>w_redis := r\<rparr>" by (auto split: prod.splits)
    obtain u where u: "undelivered (w_redis w) = Some u"
      and q: "fst e \<in> set (take (BATCH_SIZE + k) u) \<or> dealt e p w" using 2(1) by (auto simp: queued_def)
    from hands_out [OF u, of consumer BATCH_SIZE blockMs] x have ru: "undelivered r = Some (drop BATCH_SIZE u)" by auto
    note r = handed_out [OF x u ru]
    have pr: "prog w w'" unfolding w' by (rule read_progress [OF r(1) u ru r(2)])
    have "all_from_stream entries (?ms result) w'"
      unfolding r(3) by (rule messages_from_stream) (use batch_of_entries w' r(1) in simp)
    moreover have c: "course e p w'" using 2(1) w' by (intro course_prog [OF _ pr]) simp_all
    moreover have "toMessage (flat_entry e) \<in> set (?ms result)" if "fst e \<in> set (take BATCH_SIZE u)"
      unfolding r(3) using that 2(1) by (auto simp: batch_of_def on_course_def)
    moreover have "queued seats orders undelivered pending e p k w'" if "fst e \<notin> set (take BATCH_SIZE u)"
      using that q ru r(2) w' by (auto simp: queued_def dealt_with_def take_add)
    ultimately show ?case using pr w' ru by auto
  next
    case (3 w w' x)
    then obtain u where "undelivered (w_redis w) = Some u" by (auto simp: queued_def)
    from hands_out [OF this, of consumer BATCH_SIZE blockMs] 3(2) show ?case by auto
  qed (intro stable_intros stable_queued stable_course Q)+
  fix result
  show "rg (beside e p) prog ?Q (\<lambda>_ _. False) (?Q (?ms result))
    (case result of None \<Rightarrow> Ret [] | Some streams \<Rightarrow> Ret (concat (map (\<lambda>stream. map toMessage (snd stream)) streams)))"
    by (cases result; simp only: option.case; rule rg.rg_Ret [OF Q]; assumption)
qed

abbreviation polled :: "stream_entry \<Rightarrow> OrderCreatedEventPayload \<Rightarrow> nat \<Rightarrow> RedisStreamMessage list \<Rightarrow> ('r, 'd) world \<Rightarrow> bool" where
  "polled e p k ms w \<equiv> all_from_stream entries ms w \<and> course e p w \<and>
     (toMessage (flat_entry e) \<in> set ms \<and> undelivered (w_redis w) \<noteq> None \<or> queued seats orders undelivered pending e p k w)"

abbreviation flag :: "('r, 'd) world \<Rightarrow> bool" where
  "flag \<equiv> w_consumer_running"

lemma stable_undelivered: "stable (beside e p) (\<lambda>w. undelivered (w_redis w) \<noteq> None)"
  by (rule stableI) (auto simp: harmless_def)

lemma stable_flag: "stable (beside e p) flag"
  by (rule stableI) (simp add: keeps_flag_def)

lemma stable_polled: "stable (beside e p) (polled e p k ms)"
  by (intro stable_intros stable_undelivered stable_queued stable_course stable_beside [OF stable_all_from_stream])

lemma flag_poll: "moves keeps_flag (poll svc consumer blockMs)"
  unfolding poll_def claimPendingMessages_def readMessages_def
  by (auto intro!: moves_intros flag_redis_do split: option.split)

lemma poll_beside:
  "rg (beside e p) prog (\<lambda>ms w. polled e p k ms w \<and> flag w) (\<lambda>_ _. False)
    (\<lambda>w. waiting e p (BATCH_SIZE + k) w \<and> flag w) (poll svc consumer blockMs)"
proof -
  have "rg (beside e p) prog (polled e p k) (\<lambda>_ _. False) (waiting e p (BATCH_SIZE + k)) (poll svc consumer blockMs)"
    unfolding poll_def
  proof (rule rg_await [OF claims_beside])
    fix claimed
    let ?all = "all_from_stream entries claimed"
    have "rg (beside e p) prog (\<lambda>fresh w. polled e p k fresh w \<and> ?all w) (\<lambda>_ _. False)
        (\<lambda>w. ?all w \<and> waiting e p (BATCH_SIZE + k) w) (readMessages svc consumer blockMs)"
      by (rule rg_conseq [OF rg_weaken [OF rg_keep [OF reads_beside stable_beside [OF stable_all_from_stream] stable_all_from_stream]]])
         (auto intro!: stable_intros stable_queued stable_course stable_beside [OF stable_all_from_stream])
    then show "rg (beside e p) prog (polled e p k) (\<lambda>_ _. False)
        (\<lambda>w. ?all w \<and> waiting e p (BATCH_SIZE + k) w)
        (await (readMessages svc consumer blockMs) (\<lambda>fresh. Ret (claimed @ fresh)))"
      by (rule rg_await)
         (rule rg.rg_Ret, intro stable_conj stable_polled stable_beside [OF stable_all_from_stream],
          auto intro: all_from_stream_append)
  qed
  from rg_both [OF this flag_poll]
  have "rg (beside e p) (\<lambda>w w'. prog w w' \<and> keeps_flag w w') (\<lambda>ms w. polled e p k ms w \<and> flag w) (\<lambda>_ w. False \<and> flag w)
    (\<lambda>w. waiting e p (BATCH_SIZE + k) w \<and> flag w) (poll svc consumer blockMs)"
    by (rule rg_keep) (rule stable_flag, rule stableI, simp add: keeps_flag_def)
  then show ?thesis by (rule rg_weaken) auto
qed

text \<open>The rest of a round: the batch, unless there is none.\<close>

lemma batch_round:
  assumes "entry_payload e = Some p"
  shows "rg (beside e p) prog (\<lambda>_ w. waiting e p k w \<and> flag w) (\<lambda>_ _. False)
    (\<lambda>w. polled e p k ms w \<and> flag w) (process_batch svc sched uuid ms)"
proof -
  let ?C = "\<lambda>w. polled e p k ms w \<and> flag w"
  have "rg (beside e p) (beside e p) (\<lambda>_ w. (toMessage (flat_entry e) \<in> set ms \<longrightarrow> dealt e p w) \<and> ?C w) (\<lambda>_ w. False \<and> ?C w)
      (\<lambda>w. (all_from_stream entries ms w \<and> course e p w) \<and> ?C w) (process_batch svc sched uuid ms)"
    by (rule rg_frame [OF batch_beside [OF assms]]) (intro stable_conj stable_polled stable_flag)
  then show ?thesis
  proof (rule rg_conseq [OF rg_weaken])
    fix a w
    assume "(toMessage (flat_entry e) \<in> set ms \<longrightarrow> dealt e p w) \<and> ?C w"
    then show "waiting e p k w \<and> flag w" by (auto simp: queued_def)
  qed (simp, rule beside_prog, assumption, rule stable_conj [OF stable_polled stable_flag], simp)
qed

lemma loop_beside:
  assumes e: "entry_payload e = Some p"
  shows "rg (beside e p) prog (\<lambda>r w. r = None \<and> dealt e p w) (\<lambda>_ _. False)
    (\<lambda>w. waiting e p (BATCH_SIZE * bound) w \<and> flag w) (consumer_loop svc consumer sched uuid bound)"
proof (induction bound)
  case 0
  have "rg (beside e p) prog (\<lambda>r w. r = None \<and> dealt e p w) (\<lambda>_ _. False) (\<lambda>w. waiting e p (BATCH_SIZE * 0) w \<and> flag w) (Ret None)"
    by (rule rg.rg_Ret, intro stable_conj stable_queued stable_course stable_flag) (auto simp: queued_def)
  then show ?case by simp
next
  case (Suc bound)
  let ?k = "BATCH_SIZE * bound"
  let ?A = "\<lambda>w. waiting e p (BATCH_SIZE + ?k) w \<and> flag w"
  let ?rest = "consumer_loop svc consumer sched uuid bound"
  have A: "stable (beside e p) ?A" by (intro stable_intros stable_queued stable_course stable_flag)
  have round: "rg (beside e p) prog (\<lambda>r w. r = None \<and> dealt e p w) (\<lambda>_ _. False) (\<lambda>w. polled e p ?k ms w \<and> flag w)
      (if length ms = 0 then ?rest else await (process_batch svc (sched bound) (uuid bound) ms) (\<lambda>_. ?rest))" for ms
  proof (cases "ms = []")
    case True
    have "rg (beside e p) prog (\<lambda>r w. r = None \<and> dealt e p w) (\<lambda>_ _. False) (\<lambda>w. polled e p ?k [] w \<and> flag w) ?rest"
      by (rule rg_conseq [OF Suc stable_conj [OF stable_polled stable_flag]]) auto
    with True show ?thesis by simp
  next
    case False
    from rg_await [OF batch_round [OF e] Suc] False show ?thesis by simp
  qed
  have flag: "rg (beside e p) prog (\<lambda>b w. b \<and> ?A w) (\<lambda>_ _. False) ?A (reads flag)"
    by (rule rg_reads [OF A], simp, rule stable_conj [OF stable_const A])
  have "rg (beside e p) prog (\<lambda>r w. r = None \<and> dealt e p w) (\<lambda>_ _. False) ?A
    (await (reads flag) (\<lambda>consumerRunning.
     if \<not> consumerRunning then Ret (Some ())
     else await (poll svc consumer POLL_BLOCK_MS) (\<lambda>messages.
       if length messages = 0 then ?rest else await (process_batch svc (sched bound) (uuid bound) messages) (\<lambda>_. ?rest))))"
  proof (rule rg_await [OF flag])
    fix b
    show "rg (beside e p) prog (\<lambda>r w. r = None \<and> dealt e p w) (\<lambda>_ _. False) (\<lambda>w. b \<and> ?A w)
      (if \<not> b then Ret (Some ()) else await (poll svc consumer POLL_BLOCK_MS) (\<lambda>messages.
         if length messages = 0 then ?rest else await (process_batch svc (sched bound) (uuid bound) messages) (\<lambda>_. ?rest)))"
      using rg_await [OF poll_beside round] by (cases b) (auto intro: rg_False)
  qed
  then show ?case by simp
qed

text \<open>The whole call, from the flag to the end of the loop.\<close>

lemma initialize_beside:
  "rg (beside e p) prog (\<lambda>_ w. waiting e p k w \<and> flag w) (\<lambda>_ _. False) (\<lambda>w. waiting e p k w \<and> flag w)
    (initializeOrderConsumerGroup svc)"
proof -
  let ?A = "\<lambda>w. waiting e p k w \<and> flag w"
  have A: "stable (beside e p) ?A" by (intro stable_conj stable_queued stable_course stable_flag)
  show ?thesis
    unfolding initializeOrderConsumerGroup_def
  proof (rule rg_catch)
    show "rg (beside e p) prog (\<lambda>_. ?A) (\<lambda>x w. js_includes (exn_message x) ''BUSYGROUP'' \<and> ?A w) ?A
      (redis_do (c_xgroup_create (redis svc) ORDER_STREAM_KEY ORDER_CONSUMER_GROUP))"
      unfolding redis_do_def
    proof (rule rg_atomic [OF A], goal_cases)
      case (1 w w' x)
      then obtain u where u: "undelivered (w_redis w) = Some u" by (auto simp: queued_def)
      with group_exists [OF u] 1(2) show ?case by auto
    next
      case (2 w w' x)
      then obtain u where u: "undelivered (w_redis w) = Some u" by (auto simp: queued_def)
      from 2 obtain r where g: "c_xgroup_create (redis svc) ORDER_STREAM_KEY ORDER_CONSUMER_GROUP (w_redis w) = (r, Inl x)"
        and w': "w' = w\<lparr>w_redis := r\<rparr>" by (auto split: prod.splits)
      from group_exists [OF u] g have busy: "js_includes (exn_message x) ''BUSYGROUP''" by auto
      with xgroup_remote [OF g] w' have b: "beside e p w w'" by (simp add: harm_away elsewhere_def keeps_flag_def)
      from busy stableD [OF A 2(1) b] beside_prog [OF b] show ?case by blast
    qed (intro A stable_conj stable_const)+
    fix x
    show "rg (beside e p) prog (\<lambda>_. ?A) (\<lambda>_ _. False) (\<lambda>w. js_includes (exn_message x) ''BUSYGROUP'' \<and> ?A w)
      (if \<not> js_includes (exn_message x) ''BUSYGROUP'' then Throw x else Ret ())"
      using A by (auto intro!: rg.rg_Ret stable_conj intro: rg_False)
  qed
qed

lemma start_beside:
  assumes e: "entry_payload e = Some p"
  shows "rg (beside e p) prog (\<lambda>_. dealt e p) (\<lambda>_ _. False)
    (\<lambda>w. waiting e p (BATCH_SIZE * bound) w \<and> \<not> flag w) (startOrderConsumer svc consumer sched uuid bound)"
proof -
  let ?W = "waiting e p (BATCH_SIZE * bound)"
  let ?A = "\<lambda>w. ?W w \<and> flag w"
  have W: "stable (beside e p) ?W" by (intro stable_conj stable_queued stable_course)
  have off: "stable (beside e p) (\<lambda>w. \<not> flag w)" by (rule stableI) (simp add: keeps_flag_def)
  have A: "stable (beside e p) ?A" by (rule stable_conj [OF W stable_flag])
  have flagged: "rg (beside e p) prog (\<lambda>old w. \<not> old \<and> ?A w) (\<lambda>_ _. False) (\<lambda>w. ?W w \<and> \<not> flag w)
      (atomic (\<lambda>w. (w\<lparr>w_consumer_running := True\<rparr>, Inr (flag w))))"
  proof (rule rg_atomic [OF stable_conj [OF W off]], goal_cases)
    case (1 w w' old)
    then have w': "w' = w\<lparr>w_consumer_running := True\<rparr>" "\<not> old" by auto
    then have "harm e p w w'" by (simp add: harm_away elsewhere_def)
    with 1(1) queued_harm [of e p "BATCH_SIZE * bound" w w'] w' show ?case by (auto simp: harmless_def)
  qed (simp, rule stable_conj [OF stable_const A], rule stable_const)
  have rest: "rg (beside e p) prog (\<lambda>_. dealt e p) (\<lambda>_ _. False) ?A (finally_do (consumer_loop svc consumer sched uuid bound)
         (modifies (\<lambda>w. w\<lparr>w_consumer_running := False\<rparr>)))"
    unfolding finally_do_def
  proof (rule rg_await)
    show "rg (beside e p) prog (\<lambda>r w. r = Inr None \<and> dealt e p w) (\<lambda>_ _. False) ?A (settled (consumer_loop svc consumer sched uuid bound))"
      by (rule rg_settled [OF loop_beside [OF e]]) auto
    fix r :: "exn + unit option"
    have "rg (beside e p) prog (\<lambda>_ w. r = Inr None \<and> dealt e p w) (\<lambda>_ _. False) (\<lambda>w. r = Inr None \<and> dealt e p w)
        (modifies (\<lambda>w. w\<lparr>w_consumer_running := False\<rparr>))"
      by (rule rg_modifies) (intro stable_intros stable_dealt | simp add: same_views_progress dealt_with_def)+
    then show "rg (beside e p) prog (\<lambda>_. dealt e p) (\<lambda>_ _. False) (\<lambda>w. r = Inr None \<and> dealt e p w)
        (await (modifies (\<lambda>w. w\<lparr>w_consumer_running := False\<rparr>)) (\<lambda>_. rethrow r))"
      by (rule rg_await) (rule rg_rethrow, auto intro!: stable_intros stable_dealt)
  qed
  show ?thesis
    unfolding startOrderConsumer_def
  proof (rule rg_await [OF flagged])
    fix old
    show "rg (beside e p) prog (\<lambda>_. dealt e p) (\<lambda>_ _. False) (\<lambda>w. \<not> old \<and> ?A w)
      (if old then Ret (Some ())
       else await (initializeOrderConsumerGroup svc) (\<lambda>_. finally_do (consumer_loop svc consumer sched uuid bound)
         (modifies (\<lambda>w. w\<lparr>w_consumer_running := False\<rparr>))))"
      using rg_await [OF initialize_beside rest] by (cases old) (simp_all add: rg_False)
  qed
qed

end

end
