(* ===== verification/Backlog.thy ===== *)
theory Backlog imports Worker_Liveness begin

text \<open>
  The buyers beside the worker, and the liveness of the order stream: the worker of
  \<open>Worker_Liveness\<close> in one pool with any number of holds, orders and releases.
\<close>

section \<open>The buyers beside the worker\<close>

text \<open>Holds, orders, and releases of other seats than \<open>sid\<close>.\<close>

fun spares :: "string \<Rightarrow> operation \<Rightarrow> bool" where
  "spares sid (OpHold payload uuid) = True"
| "spares sid (OpOrder payload uuid) = True"
| "spares sid (OpRelease payload uuid) =
     (case normalizeHoldRequest payload of Inl x \<Rightarrow> True | Inr request \<Rightarrow> rq_seatId request \<noteq> sid)"
| "spares sid operation = False"

context engine begin

abbreviation lets :: "stream_entry \<Rightarrow> OrderCreatedEventPayload \<Rightarrow> ('r, 'd) world \<Rightarrow> ('r, 'd) world \<Rightarrow> bool" where
  "lets e p w w' \<equiv>
     (bookable seats orders p (w_db w) \<longrightarrow> bookable seats orders p (w_db w')) \<and>
     (fst e \<notin> pending (w_redis w) \<longrightarrow> fst e \<notin> pending (w_redis w')) \<and>
     (\<forall>u. undelivered (w_redis w) = Some u \<longrightarrow> (\<exists>v. undelivered (w_redis w') = Some (u @ v)))"

lemma harm_lets: "prog w w' \<Longrightarrow> lets e p w w' \<Longrightarrow> harm e p w w'"
  using course_prog [of e p w w'] by (auto simp: harmless_def)

lemma lets_away: "moves away q \<Longrightarrow> moves (lets e p) q"
  by (erule moves_mono) (simp add: elsewhere_def)

lemma lets_transaction:
  "moves (lets e p) (db_do (pc_transaction_order (prisma svc) (create_order_transaction (prisma svc) rq ex)))"
  unfolding db_do_def
proof (rule moves_atomic)
  fix w :: "('r, 'd) world"
  obtain d x where tx: "pc_transaction_order (prisma svc) (create_order_transaction (prisma svc) rq ex) (w_db w) = (d, x)" by force
  have "bookable seats orders p (w_db w) \<Longrightarrow> bookable seats orders p d"
    using create_order_rejected [of rq ex "w_db w" d] placement_beside [OF _ create_order_committed] tx by (cases x) auto
  with tx show "lets e p w (fst (case pc_transaction_order (prisma svc) (create_order_transaction (prisma svc) rq ex) (w_db w) of
      (d, x) \<Rightarrow> (w\<lparr>w_db := d\<rparr>, x)))" by simp
qed

lemma lets_xadd: "moves (lets e p) (redis_do (c_xadd (redis svc) ORDER_STREAM_KEY fs))"
  unfolding redis_do_def
proof (rule moves_atomic)
  fix w :: "('r, 'd) world"
  obtain r x where a: "c_xadd (redis svc) ORDER_STREAM_KEY fs (w_redis w) = (r, x)" by force
  with xadd_remote [OF a] show "lets e p w (fst (case c_xadd (redis svc) ORDER_STREAM_KEY fs (w_redis w) of
      (r, x) \<Rightarrow> (w\<lparr>w_redis := r\<rparr>, x)))" by auto
qed

lemma lets_reopen:
  fixes rq :: HoldSeatRequest
  assumes "rq_seatId rq \<noteq> oc_seatId p"
  shows "moves (lets e p) (db_do (pc_seat_updateMany (prisma svc) (rq_seatId rq) (rq_eventId rq) HELD AVAILABLE))"
  unfolding db_do_def
proof (rule moves_atomic)
  fix w :: "('r, 'd) world"
  obtain d x where u: "pc_seat_updateMany (prisma svc) (rq_seatId rq) (rq_eventId rq) HELD AVAILABLE (w_db w) = (d, x)" by force
  have "bookable seats orders p d" if b: "bookable seats orders p (w_db w)"
  proof (cases x)
    case (Inl y)
    with seat_update_fail [OF u [unfolded Inl]] b show ?thesis by simp
  next
    case (Inr n)
    have "seat_reopened seats orders rq (w_db w) d"
      using seat_update [OF u [unfolded Inr]] by (auto simp: seat_reopened_def split: option.splits if_splits)
    from reopening_beside [OF b this assms] show ?thesis .
  qed
  with u show "lets e p w (fst (case pc_seat_updateMany (prisma svc) (rq_seatId rq) (rq_eventId rq) HELD AVAILABLE (w_db w) of
      (d, x) \<Rightarrow> (w\<lparr>w_db := d\<rparr>, x)))" by simp
qed

lemma lets_place_order: "moves (lets e p) (place_order svc uuid rq ex)"
  unfolding place_order_def
  by (intro moves_await moves_Ret lets_transaction lets_xadd lets_away away_Date_now away_publish)

abbreviation spared :: "stream_entry \<Rightarrow> OrderCreatedEventPayload \<Rightarrow> (('r, 'd) world, 'a) proc \<Rightarrow> bool" where
  "spared e p q \<equiv> rg prog (harm e p) (\<lambda>_ _. True) (\<lambda>_ _. True) (registered svc sha1) q"

lemma spared_ok: "ok (registered svc sha1) q \<Longrightarrow> moves (lets e p) q \<Longrightarrow> spared e p q"
  by (rule rg_weaken [OF rg_both]) (auto intro: harm_lets)

lemma spared_quietly: "quietly (registered svc sha1) q \<Longrightarrow> spared e p q"
  by (erule rg_weaken) (auto intro: harm_away)

lemma spared_await:
  assumes "spared e p q" and "\<And>x. spared e p (k x)"
  shows "spared e p (await q k)"
proof (rule rg_await [OF _ assms(2)])
  have "stable (harm e p) (registered svc sha1)" by (rule stable_antimono [OF stable_registered harm_prog])
  from rg_keep [OF assms(1) stable_registered this]
  have "rg prog (harm e p) (\<lambda>_. registered svc sha1) (\<lambda>_. registered svc sha1) (registered svc sha1) q" by simp
  then show "rg prog (harm e p) (\<lambda>_. registered svc sha1) (\<lambda>_ _. True) (registered svc sha1) q"
    by (rule rg_weaken) simp_all
qed

lemma spared_away: "moves away q \<Longrightarrow> spared e p q"
  by (rule spared_quietly [OF quietly_moves [OF _ stable_registered]])

lemma spared_Throw: "spared e p (Throw x)"
  by (rule spared_away [OF moves_Throw])

lemma spared_holdSeat: "spared e p (holdSeat svc uuid payload)"
  unfolding holdSeat_def
  by (intro spared_await spared_away [OF moves_sync] spared_away [OF away_open_seat] spared_quietly [OF acquire_quietly]
      spared_away [OF away_answer_hold])

lemma spared_createOrder: "spared e p (createOrder svc uuid payload)"
proof -
  have "spared e p (place_order svc uuid rq ex)" for rq ex
    by (rule spared_ok [OF rg_conseq [OF ok_place_order stable_registered] lets_place_order]) simp
  then show ?thesis
    unfolding createOrder_def
    by (intro spared_await spared_away [OF moves_sync] spared_away [OF away_open_seat] spared_quietly [OF acquire_quietly])
       (auto intro: spared_Throw)
qed

lemma spared_releaseSeat:
  assumes "\<And>rq. normalizeHoldRequest payload = Inr rq \<Longrightarrow> rq_seatId rq \<noteq> oc_seatId p"
  shows "spared e p (releaseSeat svc uuid payload)"
proof (cases "normalizeHoldRequest payload")
  case (Inl x)
  then show ?thesis by (simp add: releaseSeat_def sync_def rethrow_def spared_Throw)
next
  case (Inr rq)
  then have "rq_seatId rq \<noteq> oc_seatId p" by (rule assms)
  then have "spared e p (db_do (pc_seat_updateMany (prisma svc) (rq_seatId rq) (rq_eventId rq) HELD AVAILABLE))"
    by (intro spared_ok ok_moves moves_reopen stable_registered lets_reopen)
  then have tail: "spared e p (await (db_do (pc_seat_updateMany (prisma svc) (rq_seatId rq) (rq_eventId rq) HELD AVAILABLE)) (\<lambda>_.
       await Date_now (\<lambda>now.
       await (publishSeatEvent svc (seat_event (uuid 0) now (pl_holdId payload)
                (Released (rq_eventId rq) (rq_seatId rq) (pl_holdId payload) ''released''))) (\<lambda>_.
       Ret \<lparr>rel_eventId = rq_eventId rq, rel_seatId = rq_seatId rq, rel_holdId = pl_holdId payload\<rparr>))))"
    by (intro spared_await spared_away [OF away_Date_now] spared_away [OF away_publish] spared_away [OF moves_Ret])
  have read: "\<And>k f. (\<And>x. spared e p (k x)) \<Longrightarrow> spared e p (await (db_read f) k)"
    by (rule spared_await [OF spared_away [OF away_db_read]])
  have script: "\<And>k ev sid user h. (\<And>x. spared e p (k x)) \<Longrightarrow> spared e p (await (releaseSeatHold svc ev sid user h) k)"
    by (rule spared_await [OF spared_quietly [OF release_quietly]])
  show ?thesis
    unfolding releaseSeat_def
    by (simp add: Inr sync_def rethrow_def) (auto intro!: read script spared_Throw tail)
qed

lemma spared_then_done: "spared e p q \<Longrightarrow> spared e p (await q (\<lambda>_. Ret ()))"
  by (rule spared_await [OF _ spared_away [OF moves_Ret]])

lemma spared_perform: "spares (oc_seatId p) operation \<Longrightarrow> spared e p (perform svc operation)"
  by (cases operation)
     (auto intro!: spared_then_done spared_holdSeat spared_createOrder spared_releaseSeat split: sum.splits)

lemma flag_acquire: "moves keeps_flag (acquireSeatHold svc h ev sid user ttl)"
  unfolding acquireSeatHold_def getLuaScriptSource_def Let_def by (auto intro!: moves_intros flag_intros)

lemma flag_release: "moves keeps_flag (releaseSeatHold svc ev sid user h)"
  unfolding releaseSeatHold_def getLuaScriptSource_def Let_def by (auto intro!: moves_intros flag_intros)

lemma flag_publish: "moves keeps_flag (publishSeatEvent svc event)"
  unfolding publishSeatEvent_def by (intro moves_intros flag_intros)

lemma flag_open_seat: "moves keeps_flag (open_seat svc rq)"
  unfolding open_seat_def
  by (rule moves_await [OF flag_db_read]) (auto intro: moves_intros split: option.split prod.split list.split)

lemma flag_perform: "spares sid operation \<Longrightarrow> moves keeps_flag (perform svc operation)"
  by (cases operation)
     (auto simp: holdSeat_def createOrder_def releaseSeat_def answer_hold_def place_order_def Let_def
       intro!: moves_intros flag_intros flag_acquire flag_release flag_publish flag_open_seat)

end

text \<open>The worker relies on harmless moves and makes any progress; with the others it is the other way round.\<close>

interpretation backlog: compatible
  "\<lambda>i w w'. if i = 0 then harmless seats orders entries undelivered pending e p w w' \<and> keeps_flag w w'
     else progress seats orders entries undelivered pending w w'"
  "\<lambda>i w w'. if i = 0 then progress seats orders entries undelivered pending w w'
     else harmless seats orders entries undelivered pending e p w w' \<and> keeps_flag w w'"
  "\<lambda>w w'. elsewhere entries undelivered pending w w' \<and> keeps_flag w w'"
  for seats orders entries undelivered pending e p
  by unfold_locales (auto simp: elsewhere_progress elsewhere_harmless harmless_progress split: if_splits)

context answering_worker begin

lemma worker_settles:
  assumes "registered svc sha1 w" and "cons w" and "\<not> w_consumer_running w"
    and "e \<in> set (entries (w_redis w))" and e: "entry_payload e = Some p"
    and "undelivered (w_redis w) = Some u" and "fst e \<in> set (take (BATCH_SIZE * bound) u)"
    and "bookable seats orders p (w_db w)" and others: "\<forall>operation \<in> set ops. spares (oc_seatId p) operation"
    and steps: "pool_steps (\<lambda>w w'. away w w' \<and> keeps_flag w w')
      (w, map (perform svc) (OpConsume consumer sched uuid bound # ops)) (w', q # ps')"
  shows "(\<forall>x. q \<noteq> Throw x) \<and> (q = Ret () \<longrightarrow> dealt e p w')"
proof -
  let ?ps = "map (perform svc) (OpConsume consumer sched uuid bound # ops)"
  let ?W = "\<lambda>w. waiting e p (BATCH_SIZE * bound) w \<and> \<not> flag w"
  let ?R = "\<lambda>i w w'. if i = 0 then beside e p w w' else prog w w'"
  let ?G = "\<lambda>i w w'. if i = 0 then prog w w' else beside e p w w'"
  let ?Q = "\<lambda>(i :: nat) (_ :: unit) w. i = 0 \<longrightarrow> dealt e p w" and ?E = "\<lambda>i (_ :: exn) (_ :: ('r, 'd) world). i \<noteq> (0 :: nat)"
  have worker: "rg (beside e p) prog (\<lambda>_. dealt e p) (\<lambda>_ _. False) ?W (perform svc (OpConsume consumer sched uuid bound))"
    unfolding perform.simps by (rule rg_await [OF start_beside [OF e]]) (rule rg.rg_Ret [OF stable_dealt])
  have start: "?W w" using assms by (simp add: queued_def on_course_def)
  have "\<exists>A. A w \<and> rg (?R i) (?G i) (?Q i) (?E i) A (?ps ! i)" if i: "i < length ?ps" for i
  proof (cases i)
    case 0
    with worker start show ?thesis by (intro exI [of _ ?W]) simp
  next
    case (Suc j)
    then have o: "spares (oc_seatId p) (ops ! j)" "?ps ! i = perform svc (ops ! j)" using others i by auto
    have "rg prog (beside e p) (\<lambda>_ _. True) (\<lambda>_ _. True) (registered svc sha1) (perform svc (ops ! j))"
      by (rule rg_both [OF spared_perform flag_perform]) (rule o(1))+
    with Suc o(2) assms(1) show ?thesis by (intro exI [of _ "registered svc sha1"]) simp
  qed
  then have h: "backlog.holding seats orders entries undelivered pending e p ?Q ?E (w, ?ps)"
    unfolding backlog.holding_def by simp
  have len: "0 < length ?ps" by simp
  have "q \<noteq> Throw x" for x using backlog.finished_threw [OF steps h len] by auto
  moreover have "q = Ret () \<Longrightarrow> dealt e p w'" using backlog.finished_returned [OF steps h len] by auto
  ultimately show ?thesis by blast
qed

text \<open>From every state that is reached the worker can run to its end.\<close>

lemma worker_finishes:
  assumes "registered svc sha1 w" and "cons w" and "\<not> w_consumer_running w"
    and "e \<in> set (entries (w_redis w))" and "entry_payload e = Some p"
    and "undelivered (w_redis w) = Some u" and "fst e \<in> set (take (BATCH_SIZE * bound) u)"
    and "bookable seats orders p (w_db w)" and "\<forall>operation \<in> set ops. spares (oc_seatId p) operation"
    and steps: "pool_steps (\<lambda>w w'. away w w' \<and> keeps_flag w w')
      (w, map (perform svc) (OpConsume consumer sched uuid bound # ops)) (w', q # ps')"
  shows "\<exists>w''. pool_steps (\<lambda>w w'. away w w' \<and> keeps_flag w w') (w', q # ps') (w'', Ret () # ps')"
proof -
  let ?env = "\<lambda>w w'. away w w' \<and> keeps_flag w w'"
  obtain w'' r where "run q w' = (w'', r)" by force
  then have end_run: "pool_steps ?env (w', q # ps') (w'', rethrow r # ps')"
    using pool_steps_settle [of q w' w'' r 0 "q # ps'" ?env] by simp
  with steps have "pool_steps ?env (w, map (perform svc) (OpConsume consumer sched uuid bound # ops)) (w'', rethrow r # ps')"
    unfolding pool_steps_def by (rule rtranclp_trans)
  from worker_settles [OF assms(1-9) this] have "\<forall>x. (rethrow r :: (('r, 'd) world, unit) proc) \<noteq> Throw x" by blast
  then have "(rethrow r :: (('r, 'd) world, unit) proc) = Ret ()" by (cases r) (auto simp: rethrow_def)
  with end_run show ?thesis by auto
qed

end

section \<open>The property\<close>

text \<open>
  Claim C5.  The worker books every order of its backlog that can be booked.  Let the commands
  of the worker answer and let the entry of an order be among the next \<open>10 * bound\<close> the group is to be
  handed, its order unbooked, its seat held and in no other order.  Then a consumer that makes
  \<open>bound\<close> polls, with any interleaving of its batches, any other messages in the stream, and
  any number of buyers holding, ordering and releasing other seats beside it, never throws, can
  always run to its end, and when it has ended the order is booked, its seat is sold, and its message
  is acknowledged.
\<close>

theorem worker_books_backlog:
  assumes "answering_worker S pttl elapse svc sha1 entries undelivered pending seats orders events"
    and "registered svc sha1 w" and "consistent seats orders entries undelivered pending w" and "\<not> w_consumer_running w"
    and "e \<in> set (entries (w_redis w))" and "entry_payload e = Some p"
    and "undelivered (w_redis w) = Some u" and "fst e \<in> set (take (BATCH_SIZE * bound) u)"
    and "bookable seats orders p (w_db w)" and "\<forall>operation \<in> set ops. spares (oc_seatId p) operation"
    and "pool_steps (\<lambda>w w'. elsewhere entries undelivered pending w w' \<and> keeps_flag w w')
      (w, map (perform svc) (OpConsume consumer sched uuid bound # ops)) (w', q # ps')"
  shows "(\<forall>x. q \<noteq> Throw x) \<and>
    (\<exists>w''. pool_steps (\<lambda>w w'. elsewhere entries undelivered pending w w' \<and> keeps_flag w w') (w', q # ps') (w'', Ret () # ps')) \<and>
    (q = Ret () \<longrightarrow>
       booked orders (oc_holdId p) (w_db w') \<and> (\<exists>s. seats (w_db w') (oc_seatId p) = Some s \<and> seat_status s = SOLD) \<and>
       fst e \<notin> pending (w_redis w'))"
  using answering_worker.worker_settles [OF assms] answering_worker.worker_finishes [OF assms]
  by (simp add: dealt_with_def sold_to_def)

lemma ref_ordered_pool:
  "pool_steps (elsewhere ref_entries rs_undelivered (\<lambda>r. set (rs_pel r)))
    (ref_world, map (perform ref_services) [OpOrder (ref_payload ''ev'' ''s1'' ''u1'') (\<lambda>n. ''h1'')]) (ref_ordered, [Ret ()])"
proof -
  obtain answer where "run (createOrder ref_services (\<lambda>n. ''h1'') (ref_payload ''ev'' ''s1'' ''u1'')) ref_world
    = (ref_ordered, Inr answer)" using ref_ordered_run by blast
  then have "run (perform ref_services (OpOrder (ref_payload ''ev'' ''s1'' ''u1'') (\<lambda>n. ''h1''))) ref_world = (ref_ordered, Inr ())"
    by (simp add: run_await)
  from pool_steps_run [OF this, of 0 "map (perform ref_services) [OpOrder (ref_payload ''ev'' ''s1'' ''u1'') (\<lambda>n. ''h1'')]"]
  show ?thesis by simp
qed

lemma ref_ordered_state:
  "registered ref_services ref_sha1 ref_ordered" "ref_consistent ref_ordered" "\<not> w_consumer_running ref_ordered"
proof -
  show "registered ref_services ref_sha1 ref_ordered"
    by (rule ref_engine.operations_invariant [OF ref_registered ref_ordered_pool, where I = "registered ref_services ref_sha1"])
       (auto simp: registered_def progress_def ref_world_def)
  show "ref_consistent ref_ordered"
    by (rule ref_engine.operations_consistent [OF ref_registered ref_world_consistent ref_ordered_pool])
  have "keeps_flag\<^sup>*\<^sup>* ref_world ref_ordered"
  proof -
    obtain answer where r: "run (createOrder ref_services (\<lambda>n. ''h1'') (ref_payload ''ev'' ''s1'' ''u1'')) ref_world
      = (ref_ordered, Inr answer)" using ref_ordered_run by blast
    then have "run (perform ref_services (OpOrder (ref_payload ''ev'' ''s1'' ''u1'') (\<lambda>n. ''h1''))) ref_world = (ref_ordered, Inr ())"
      by (simp add: run_await)
    with ref_engine.flag_perform [of "''s2''"] show ?thesis by (intro moves_run) (auto simp del: perform.simps)
  qed
  then have "w_consumer_running ref_ordered = w_consumer_running ref_world"
    by (induction rule: rtranclp_induct) (auto simp: keeps_flag_def)
  then show "\<not> w_consumer_running ref_ordered" by (simp add: ref_world_def)
qed

text \<open>The order of the reference world, and its entry.\<close>

lemma ref_backlog:
  "\<exists>e p. ref_entries (w_redis ref_ordered) = [e] \<and> rs_undelivered (w_redis ref_ordered) = Some [fst e] \<and>
    entry_payload e = Some p \<and> oc_holdId p = ''h1'' \<and> oc_seatId p = ''s1'' \<and> bookable ref_seats ref_orders p (w_db ref_ordered)"
proof -
  obtain e where e: "ref_entries (w_redis ref_ordered) = [e]" "rs_undelivered (w_redis ref_ordered) = Some [fst e]"
    using ref_ordered_stream by blast
  obtain p row s where f: "supported ref_message" "parsePayload ref_message = Inr p" "oc_holdId p = ''h1''" "oc_seatId p = ''s1''"
    "ref_orders (w_db ref_delivered) ''h1'' = Some row" "ord_status row = PROCESSING"
    "ref_seats (w_db ref_delivered) ''s1'' = Some s" "seat_eventId s = oc_eventId p" "seat_status s = HELD"
    using ref_delivered_facts by blast
  have "entry_payload e = Some p" using f(1,2) e(1) by (simp add: entry_payload_def ref_message_def)
  have "w_db ref_delivered = w_db ref_ordered" by (simp add: ref_delivered_def)
  moreover have only: "h = ''h1''" if "ref_orders (w_db ref_ordered) h = Some row'" for h row'
  proof -
    obtain answer where r: "run (createOrder ref_services (\<lambda>n. ''h1'') (ref_payload ''ev'' ''s1'' ''u1'')) ref_world
      = (ref_ordered, Inr answer)" using ref_ordered_run by blast
    from ref_engine.createOrder_returns [OF ref_registered ref_seat_keys_ok r] obtain row''
      where "ref_orders (w_db ref_ordered) = (ref_orders (w_db ref_world))(''h1'' \<mapsto> row'')"
      by (auto simp: order_placed_def)
    with that show ?thesis by (auto simp: ref_world_def ref_db0_def ref_orders_def split: if_splits)
  qed
  ultimately have "bookable ref_seats ref_orders p (w_db ref_ordered)"
    unfolding bookable_def using f(3-9) by (metis OrderStatus.distinct(1))
  with e f(3,4) \<open>entry_payload e = Some p\<close> show ?thesis by blast
qed

theorem worker_books_backlog_witness:
  "\<exists>w'. pool_steps (\<lambda>w w'. elsewhere ref_entries rs_undelivered (\<lambda>r. set (rs_pel r)) w w' \<and> keeps_flag w w')
      (ref_ordered, map (perform ref_services) [OpConsume ''c'' (\<lambda>n. []) (\<lambda>n m. ''m1'') 1]) (w', [Ret ()]) \<and>
    booked ref_orders ''h1'' (w_db w') \<and> (\<exists>s. ref_seats (w_db w') ''s1'' = Some s \<and> seat_status s = SOLD)"
proof -
  let ?env = "\<lambda>w w'. elsewhere ref_entries rs_undelivered (\<lambda>r. set (rs_pel r)) w w' \<and> keeps_flag w w'"
  let ?ps = "map (perform ref_services) [OpConsume ''c'' (\<lambda>n. []) (\<lambda>n m. ''m1'') 1]"
  obtain e p where b: "ref_entries (w_redis ref_ordered) = [e]" "rs_undelivered (w_redis ref_ordered) = Some [fst e]"
    "entry_payload e = Some p" "oc_holdId p = ''h1''" "oc_seatId p = ''s1''" "bookable ref_seats ref_orders p (w_db ref_ordered)"
    using ref_backlog by blast
  have e: "e \<in> set (ref_entries (w_redis ref_ordered))" "fst e \<in> set (take (BATCH_SIZE * 1) [fst e])"
    using b(1) by (simp_all add: BATCH_SIZE_def)
  have sp: "\<forall>operation \<in> set []. spares (oc_seatId p) operation" by simp
  note law = worker_books_backlog [OF ref_worker.answering_worker_axioms ref_ordered_state e(1) b(3,2) e(2) b(6) sp]
  obtain w' where s: "pool_steps ?env (ref_ordered, ?ps) (w', [Ret ()])"
    using law [where consumer = "''c''" and sched = "\<lambda>n. []" and uuid = "\<lambda>n m. ''m1''" and w' = ref_ordered
      and q = "hd ?ps" and ps' = "[]"] by auto
  with law [OF s] b(4,5) show ?thesis by auto
qed

end
