(* ===== verification/Engine_Refinement.thy ===== *)
theory Engine_Refinement imports Engine_Safety begin

text \<open>
  The running engine implements the booking system of \<open>Booking_System\<close>: seen through
  \<open>booking_of\<close>, every step of every interleaving of requests, workers and shutdowns is one step
  of that system, or none.
\<close>

lemma consistent_booking_safe:
  assumes "consistent seats orders entries undelivered pending w"
  shows "booking_safe (booking_of seats orders (w_db w))"
proof -
  have sold: "booked_sold seats orders (w_db w)" and once: "booked_once orders (w_db w)"
    using assms by (simp_all add: consistent_def)
  show ?thesis
    unfolding booking_safe_def
  proof (intro conjI allI impI)
    fix h sid
    assume "bk_order (booking_of seats orders (w_db w)) h = Some (sid, True)"
    then obtain row where "orders (w_db w) h = Some row" "ord_seatId row = sid" "ord_status row = BOOKED" by auto
    with sold show "bk_seat (booking_of seats orders (w_db w)) sid = Some SOLD" by (fastforce simp: booked_sold_def)
  next
    fix h h' sid
    assume "bk_order (booking_of seats orders (w_db w)) h = Some (sid, True)"
      and "bk_order (booking_of seats orders (w_db w)) h' = Some (sid, True)"
    with once show "h = h'" by (auto simp: booked_once_def)
  qed
qed

context engine_api begin

lemma step_refines:
  assumes "st_svc A = svc" and "st_geo A = G" and "st_bench A = B" and "registered svc sha1 w" and "cons w"
    and steps: "pool_steps away (w, map (party_proc A) parties) (w1, ps1)" and step: "pool_step away (w1, ps1) (w2, ps2)"
  shows "booking_step\<^sup>=\<^sup>= (booking_of seats orders (w_db w1)) (booking_of seats orders (w_db w2))"
proof -
  have "cons w1" by (rule progress_chain(4) [OF engine_chain [OF assms(1-4) steps] assms(5)])
  moreover have "prog (fst (w1, ps1)) (fst (w2, ps2))"
    by (rule safe.engine_step [OF assms(1-4) pool_steps_mono [OF steps elsewhere_progress] pool_step_mono [OF step elsewhere_progress]])
  ultimately show ?thesis by (simp add: progress_def)
qed

lemma run_refines:
  assumes "st_svc A = svc" and "st_geo A = G" and "st_bench A = B" and "registered svc sha1 w" and "cons w"
    and "pool_steps away (w, map (party_proc A) parties) (w', ps')"
  shows "booking_step\<^sup>*\<^sup>* (booking_of seats orders (w_db w)) (booking_of seats orders (w_db w'))"
proof -
  have "prog\<^sup>*\<^sup>* w w'" by (rule engine_chain [OF assms(1-4,6)])
  then have "cons w' \<and> booking_step\<^sup>*\<^sup>* (booking_of seats orders (w_db w)) (booking_of seats orders (w_db w'))"
  proof (induction rule: rtranclp_induct)
    case (step v v')
    then have "cons v' \<and> booking_step\<^sup>=\<^sup>= (booking_of seats orders (w_db v)) (booking_of seats orders (w_db v'))"
      by (simp add: progress_def)
    with step.IH show ?case by (auto intro: rtranclp.rtrancl_into_rtrancl)
  qed (use assms(5) in simp)
  then show ?thesis ..
qed

end

section \<open>The property\<close>

text \<open>
  Claim C6.  The engine refines the booking system.  From a consistent state, and whatever
  requests, workers and shutdowns run in whatever interleaving with whatever failures, the seats
  and orders of the database have got where they are by placing orders on seats on sale,
  booking orders whose seat is held, and opening held seats again; and every next step of the
  engine is one of these moves or leaves seats and orders alone.  So every booked order has its seat
  sold and is the only booked one of that seat.
\<close>

theorem engine_refines_booking:
  assumes "engine_api S pttl elapse (st_svc A) sha1 entries undelivered pending seats orders events (st_geo A) (st_bench A)"
    and "registered (st_svc A) sha1 w" and "consistent seats orders entries undelivered pending w"
    and "pool_steps (elsewhere entries undelivered pending) (w, map (party_proc A) parties) (w1, ps1)"
  shows "booking_step\<^sup>*\<^sup>* (booking_of seats orders (w_db w)) (booking_of seats orders (w_db w1)) \<and>
    booking_safe (booking_of seats orders (w_db w1)) \<and>
    (\<forall>w2 ps2. pool_step (elsewhere entries undelivered pending) (w1, ps1) (w2, ps2) \<longrightarrow>
       booking_step\<^sup>=\<^sup>= (booking_of seats orders (w_db w1)) (booking_of seats orders (w_db w2)))"
  using engine_api.run_refines [OF assms(1) refl refl refl assms(2-4)]
    engine_api.step_refines [OF assms(1) refl refl refl assms(2-4)]
    booking_run_safe [OF _ consistent_booking_safe [OF assms(3)]] by blast

theorem engine_refines_booking_witness:
  "\<exists>w' a. pool_steps (elsewhere ref_entries rs_undelivered (\<lambda>r. set (rs_pel r)))
      (ref_world, map (party_proc ref_app) ref_parties) (w', [Ret (Some a), Ret None, Ret None]) \<and>
    booking_step\<^sup>*\<^sup>* (booking_of ref_seats ref_orders (w_db ref_world)) (booking_of ref_seats ref_orders (w_db w')) \<and>
    bk_order (booking_of ref_seats ref_orders (w_db ref_world)) ''h1'' = None \<and>
    bk_order (booking_of ref_seats ref_orders (w_db w')) ''h1'' \<noteq> None"
proof -
  obtain w' a where s: "pool_steps (elsewhere ref_entries rs_undelivered (\<lambda>r. set (rs_pel r)))
      (ref_world, map (party_proc ref_app) ref_parties) (w', [Ret (Some a), Ret None, Ret None])"
    and b: "booked ref_orders ''h1'' (w_db w')" using ref_parties_run by blast
  have "registered (st_svc ref_app) ref_sha1 ref_world" by (simp add: ref_app_def ref_registered)
  from engine_refines_booking [OF ref_app_api this ref_world_consistent s]
  have "booking_step\<^sup>*\<^sup>* (booking_of ref_seats ref_orders (w_db ref_world)) (booking_of ref_seats ref_orders (w_db w'))" ..
  moreover have "bk_order (booking_of ref_seats ref_orders (w_db ref_world)) ''h1'' = None"
    by (simp add: ref_orders_def ref_world_def ref_db0_def)
  moreover have "bk_order (booking_of ref_seats ref_orders (w_db w')) ''h1'' \<noteq> None" using b by (auto simp: booked_def)
  ultimately show ?thesis using s by blast
qed

end
