(* ===== verification/Startup.thy ===== *)
theory Startup imports Lifecycle Engine_Refinement begin

text \<open>
  From the start of the server process to the requests it serves: what \<open>startServer\<close> has done
  when it returns is what the properties of the running engine ask of the world they start in.
\<close>

section \<open>The contract\<close>

text \<open>
  Connecting, \<open>PING\<close>, \<open>SCRIPT LOAD\<close> and the pipeline of \<open>GEOADD\<close> do not touch the order stream, and
  starting the WebSocket server touches neither the stream nor the tables nor the digests.
\<close>

locale server_platform =
  engine_api S pttl elapse svc sha1 entries undelivered pending seats orders events G B
  for S :: "'r redis_server" and pttl and elapse and svc :: "('r, 'd) services" and sha1
    and entries and undelivered and pending and seats and orders and events
    and G :: "('r, 'd) geo_services" and B :: "('r, 'd) bench_services" +
  fixes F :: "('r, 'd) platform"
  assumes platform_services: "pf_svc F = svc" "pf_geo F = G"
    and connect_remote: "pf_connect F st r = (st', r', joined) \<Longrightarrow> same_stream entries undelivered pending r r'"
    and ping_remote: "pf_ping F st r = (st', r', pong) \<Longrightarrow> same_stream entries undelivered pending r r'"
    and script_load_stream: "c_script_load (redis svc) text r = (r', digest) \<Longrightarrow> same_stream entries undelivered pending r r'"
    and pipeline_remote: "geo_pipeline G commands r = (r', added) \<Longrightarrow> same_stream entries undelivered pending r r'"
    and sockets_started: "run (pf_ws_start F) w = (w', started) \<Longrightarrow> elsewhere entries undelivered pending w w'"

text \<open>The application the process serves is configured by its environment.\<close>

definition app_of_env :: "('r, 'd) platform \<Rightarrow> Env \<Rightarrow> ('r, 'd) app_setup \<Rightarrow> bool" where
  "app_of_env F env A \<longleftrightarrow>
     st_svc A = pf_svc F \<and> st_geo A = pf_geo F \<and> st_env A = NODE_ENV env \<and>
     st_windowMs A = RATE_LIMIT_WINDOW_MS env \<and> st_maxRequests A = RATE_LIMIT_MAX_REQUESTS env"

text \<open>The same orders, seats and stream; the digests may have been filled in.\<close>

definition same_business ::
  "('r \<Rightarrow> stream_entry list) \<Rightarrow> ('r \<Rightarrow> string list option) \<Rightarrow> ('r \<Rightarrow> string set) \<Rightarrow>
   ('r, 'd) world \<Rightarrow> ('r, 'd) world \<Rightarrow> bool" where
  "same_business entries undelivered pending w w' \<longleftrightarrow>
     w_db w' = w_db w \<and> same_stream entries undelivered pending (w_redis w) (w_redis w')"

lemma same_business_refl [simp]: "same_business entries undelivered pending w w"
  by (simp add: same_business_def)

lemma same_business_trans [trans]:
  "same_business entries undelivered pending w v \<Longrightarrow> same_business entries undelivered pending v u \<Longrightarrow>
    same_business entries undelivered pending w u"
  by (simp add: same_business_def same_stream_def)

lemma elsewhere_business: "elsewhere entries undelivered pending w w' \<Longrightarrow> same_business entries undelivered pending w w'"
  by (simp add: elsewhere_def same_business_def same_stream_def)

lemma same_business_consistent:
  "same_business entries undelivered pending w w' \<Longrightarrow> consistent seats orders entries undelivered pending w \<Longrightarrow>
    consistent seats orders entries undelivered pending w'"
  by (simp add: same_business_def same_stream_def consistent_def)

section \<open>The steps of the start\<close>

context server_platform begin

abbreviation business :: "('r, 'd) world \<Rightarrow> ('r, 'd) world \<Rightarrow> bool" where
  "business \<equiv> same_business entries undelivered pending"

lemma load_each_business: "run (load_each svc names) w = (w', x) \<Longrightarrow> business w w'"
proof (induction names arbitrary: w)
  case (Cons name names)
  show ?case
  proof (cases "scriptFile svc name")
    case (Inl e)
    with Cons.prems show ?thesis by (simp add: run_simps)
  next
    case (Inr src)
    obtain r y where ld: "c_script_load (redis svc) src (w_redis w) = (r, y)" by force
    have b: "business w (w\<lparr>w_redis := r\<rparr>)" "business w (w\<lparr>w_redis := r, w_digests := ds\<rparr>)" for ds
      using script_load_stream [OF ld] by (simp_all add: same_business_def)
    show ?thesis
    proof (cases "\<exists>d. y = Inr (Some d)")
      case True
      then obtain d where "y = Inr (Some d)" by blast
      with Cons.prems Inr ld have "run (load_each svc names) (w\<lparr>w_redis := r, w_digests := (w_digests w)(name \<mapsto> d)\<rparr>) = (w', x)"
        by (simp add: run_simps)
      from same_business_trans [OF b(2) Cons.IH [OF this]] show ?thesis .
    next
      case False
      with Cons.prems Inr ld have "w' = w\<lparr>w_redis := r\<rparr>"
        by (auto simp: run_simps split: sum.splits option.splits)
      with b(1) show ?thesis by simp
    qed
  qed
qed simp

lemma connectRedis_starts:
  assumes "run (connectRedis F) p = (p', x)"
  shows "business (ps_world p) (ps_world p') \<and> (x = Inr () \<longrightarrow> registered svc sha1 (ps_world p')) \<and>
    ps_listening p' = ps_listening p"
proof -
  obtain st r a where c: "pf_connect F (ps_status p) (w_redis (ps_world p)) = (st, r, a)"
    by (cases "pf_connect F (ps_status p) (w_redis (ps_world p))")
  note b1 = connect_remote [OF c]
  obtain st2 r2 a2 where g: "pf_ping F st r = (st2, r2, a2)" by (cases "pf_ping F st r")
  note b2 = ping_remote [OF g]
  let ?w = "(ps_world p)\<lparr>w_redis := r2\<rparr>"
  obtain w3 y where l: "run (loadLuaScripts svc) ?w = (w3, y)" by force
  have b3: "business ?w w3" using load_each_business l unfolding loadLuaScripts_def .
  from b1 b2 b3 have b: "business (ps_world p) w3" "business (ps_world p) ?w" "business (ps_world p) ((ps_world p)\<lparr>w_redis := r\<rparr>)"
    by (auto simp: same_business_def same_stream_def)
  have "y = Inr () \<Longrightarrow> registered svc sha1 w3" using loadLuaScripts_registers l by simp
  with assms c g l b show ?thesis
    by (cases a; cases a2; cases y) (auto simp: connectRedis_def platform_services run_simps)
qed

lemma sync_business: "run (syncVenuesToGeoIndex G) w = (w', x) \<Longrightarrow> business w w' \<and> w_digests w' = w_digests w"
  using pipeline_remote by (auto simp: syncVenuesToGeoIndex_def run_simps same_business_def split: prod.splits sum.splits if_splits)

lemma startServer_starts:
  assumes "run (startServer F env) p = (p', x)"
  shows "business (ps_world p) (ps_world p') \<and>
    (case x of
       Inr _ \<Rightarrow> registered svc sha1 (ps_world p') \<and> ps_listening p' = Some (PORT env)
     | Inl e \<Rightarrow> ps_listening p' = ps_listening p)"
proof -
  obtain p1 y where c: "run (connectRedis F) p = (p1, y)" by force
  note s1 = connectRedis_starts [OF c]
  show ?thesis
  proof (cases y)
    case (Inl e)
    with assms c s1 show ?thesis by (auto simp: startServer_def run_simps)
  next
    case (Inr u)
    obtain w2 z where g: "run (syncVenuesToGeoIndex G) (ps_world p1) = (w2, z)" by force
    note s2 = sync_business [OF g]
    obtain w3 v where k: "run (pf_ws_start F) w2 = (w3, v)" by force
    note s3 = sockets_started [OF k]
    have "business (ps_world p) w3" "business (ps_world p) w2"
      using s1 s2 elsewhere_business [OF s3] same_business_trans by blast+
    moreover have "registered svc sha1 w3" using s1 s2 s3 Inr by (simp add: registered_def elsewhere_def)
    ultimately show ?thesis
      using assms c g k s1 Inr by (cases z; cases v) (auto simp: startServer_def platform_services run_simps)
  qed
qed

end

section \<open>It holds of the reference store\<close>

definition ref_platform :: "(ref_redis, ref_db) platform" where
  "ref_platform = \<lparr>pf_svc = ref_services, pf_geo = sample_geo,
     pf_connect = (\<lambda>_ r. (''ready'', r, Inr ())), pf_ping = (\<lambda>s r. (s, r, Inr ())), pf_quit = (\<lambda>_ r. (''end'', r, Inr ())),
     pf_select_1 = (\<lambda>_. Inr ()), pf_db_disconnect = (\<lambda>_. Inr ()), pf_pool_end = (\<lambda>_. Inr ()),
     pf_ws_start = Ret (), pf_ws_close = Ret ()\<rparr>"

interpretation ref_server_platform:
  server_platform ref_server ref_pttl ref_elapse ref_services ref_sha1 ref_entries rs_undelivered
    "\<lambda>r. set (rs_pel r)" ref_seats ref_orders rd_events sample_geo ref_bench ref_platform
proof unfold_locales
  show "c_script_load (redis ref_services) src r = (r', digest) \<Longrightarrow>
      same_stream ref_entries rs_undelivered (\<lambda>r. set (rs_pel r)) r r'" for src r r' digest
    by (auto simp: same_stream_def ref_client_def ref_entries_def)
qed (auto simp: ref_platform_def sample_geo_def)

definition ref_environment :: "string \<Rightarrow> string option" where
  "ref_environment = [''DATABASE_URL'' \<mapsto> ''postgres://db'', ''JWT_SECRET'' \<mapsto> ''0123456789abcdef'', ''NODE_ENV'' \<mapsto> ''production'']"

definition ref_env :: Env where
  "ref_env = \<lparr>NODE_ENV = Production, PORT = Fin 5000, DATABASE_URL = ''postgres://db'', REDIS_URL = ''redis://localhost:6379'',
     JWT_SECRET = ''0123456789abcdef'', RATE_LIMIT_WINDOW_MS = 60000, RATE_LIMIT_MAX_REQUESTS = 100\<rparr>"

lemma ref_env_parsed: "parseEnv is_url ref_environment = Some ref_env"
  by (simp add: parseEnv_def ref_environment_def ref_env_def z_node_env_def z_finite_def env_number_def z_min_length_def
      z_url_def z_positive_def)

text \<open>A process that has not started yet, on the reference world without digests.\<close>

definition ref_process :: "(ref_redis, ref_db) process_state" where
  "ref_process = \<lparr>ps_world = ref_world\<lparr>w_digests := Map.empty\<rparr>, ps_status = ''wait'', ps_shuttingDown = False,
     ps_signals = False, ps_listening = None, ps_closing = False, ps_exit = None\<rparr>"

lemma ref_process_starts:
  "\<exists>p'. run (startServer ref_platform ref_env) ref_process = (p', Inr ()) \<and> ps_world p' = ref_world"
proof -
  have digests: "[slidingWindow \<mapsto> ref_sha1 (ref_text slidingWindow), LuaScriptName.releaseMutex \<mapsto> ref_sha1 (ref_text LuaScriptName.releaseMutex),
      atomicSeatLock \<mapsto> ref_sha1 (ref_text atomicSeatLock), releaseSeatScript \<mapsto> ref_sha1 (ref_text releaseSeatScript)] =
      (\<lambda>nm. Some (ref_sha1 (ref_text nm)))"
  proof
    fix nm
    show "([slidingWindow \<mapsto> ref_sha1 (ref_text slidingWindow), LuaScriptName.releaseMutex \<mapsto> ref_sha1 (ref_text LuaScriptName.releaseMutex),
      atomicSeatLock \<mapsto> ref_sha1 (ref_text atomicSeatLock), releaseSeatScript \<mapsto> ref_sha1 (ref_text releaseSeatScript)]) nm =
      Some (ref_sha1 (ref_text nm))" by (cases nm) simp_all
  qed
  have "(ref_redis0\<lparr>rs_cached := True\<rparr>) = ref_redis0" by (simp add: ref_redis0_def)
  with digests show ?thesis
    by (simp add: startServer_def connectRedis_def loadLuaScripts_def scriptSources_def ref_platform_def ref_client_def
        syncVenuesToGeoIndex_def sample_geo_def run_simps ref_process_def ref_world_def)
qed

section \<open>The property\<close>

text \<open>
  A server that could not start does not listen, and has left orders, seats and stream alone.
\<close>

theorem failed_start_is_silent:
  assumes "server_platform S pttl elapse svc sha1 entries undelivered pending seats orders events G B F"
    and "run (startServer F env) p = (p', Inl e)"
  shows "ps_listening p' = ps_listening p \<and> same_business entries undelivered pending (ps_world p) (ps_world p')"
  using server_platform.startServer_starts [OF assms] by simp

text \<open>
  Claim C40.  A started server is safe.  When the environment is accepted and \<open>startServer\<close> returns,
  the process listens on the configured port, with positive bounds for the limiter, with the digest of every script
  registered, and with orders, seats and stream as they were.  From there the requests, workers and
  shutdowns of the application that it serves, in any interleaving, keep the system consistent
  and book no seat twice.
\<close>

theorem started_server_is_safe:
  assumes "server_platform S pttl elapse svc sha1 entries undelivered pending seats orders events G (st_bench A) F"
    and "parseEnv is_url process_env = Some env" and "app_of_env F env A"
    and "consistent seats orders entries undelivered pending (ps_world p)" and "run (startServer F env) p = (p', Inr ())"
    and "pool_steps (elsewhere entries undelivered pending) (ps_world p', map (party_proc A) parties) (w', ps')"
  shows "ps_listening p' = Some (PORT env) \<and> 0 < st_windowMs A \<and> 0 < st_maxRequests A \<and> registered svc sha1 (ps_world p') \<and>
    w_db (ps_world p') = w_db (ps_world p) \<and> entries (w_redis (ps_world p')) = entries (w_redis (ps_world p)) \<and>
    consistent seats orders entries undelivered pending w' \<and> booking_safe (booking_of seats orders (w_db w'))"
proof -
  have A: "st_svc A = svc" "st_geo A = G"
    using assms(3) server_platform.platform_services [OF assms(1)] by (simp_all add: app_of_env_def)
  have b: "same_business entries undelivered pending (ps_world p) (ps_world p')"
    and l: "ps_listening p' = Some (PORT env)" "registered svc sha1 (ps_world p')"
    using server_platform.startServer_starts [OF assms(1,5)] by simp_all
  have limits: "0 < st_windowMs A" "0 < st_maxRequests A"
    using parseEnv_limits [OF assms(2)] assms(3) by (simp_all add: app_of_env_def)
  have eng: "engine_api S pttl elapse svc sha1 entries undelivered pending seats orders events G (st_bench A)"
    using assms(1) by (rule server_platform.axioms(1))
  have c: "consistent seats orders entries undelivered pending w'"
    by (rule progress_chain(4) [OF engine_api.engine_chain [OF eng A refl l(2) assms(6)] same_business_consistent [OF b assms(4)]])
  with consistent_booking_safe [OF c] l limits b show ?thesis by (simp add: same_business_def same_stream_def)
qed

theorem started_server_is_safe_witness:
  "\<exists>p' w' a. run (startServer ref_platform ref_env) ref_process = (p', Inr ()) \<and> ps_listening p' = Some (Fin 5000) \<and>
    pool_steps (elsewhere ref_entries rs_undelivered (\<lambda>r. set (rs_pel r)))
      (ps_world p', map (party_proc ref_app) ref_parties) (w', [Ret (Some a), Ret None, Ret None]) \<and>
    booked ref_orders ''h1'' (w_db w') \<and> booking_safe (booking_of ref_seats ref_orders (w_db w'))"
proof -
  obtain p' where r: "run (startServer ref_platform ref_env) ref_process = (p', Inr ())" and p': "ps_world p' = ref_world"
    using ref_process_starts by blast
  obtain w' a where s: "pool_steps (elsewhere ref_entries rs_undelivered (\<lambda>r. set (rs_pel r)))
      (ps_world p', map (party_proc ref_app) ref_parties) (w', [Ret (Some a), Ret None, Ret None])"
    and b: "booked ref_orders ''h1'' (w_db w')" using ref_parties_run p' by auto
  have "app_of_env ref_platform ref_env ref_app" by (simp add: app_of_env_def ref_platform_def ref_app_def ref_env_def)
  moreover have "server_platform ref_server ref_pttl ref_elapse ref_services ref_sha1 ref_entries rs_undelivered
    (\<lambda>r. set (rs_pel r)) ref_seats ref_orders rd_events sample_geo (st_bench ref_app) ref_platform"
    using ref_server_platform.server_platform_axioms by (simp add: ref_app_def)
  moreover have "ref_consistent (ps_world ref_process)"
    using ref_world_consistent by (simp add: ref_process_def consistent_def)
  ultimately show ?thesis
    using started_server_is_safe [OF _ ref_env_parsed _ _ r s] r s b by (auto simp: ref_env_def)
qed

end
