(* ===== verification/Spec2Isabelle.thy ===== *)
theory Spec2Isabelle
  imports Seat_Contest Stampede_Contest Broadcast Http_Contest Type_Soundness Order_Promise Socket_Process Seed_Run Backlog Startup
begin

text \<open>
  A verification development for the distributed ticket engine: an HTTP service on Express that
  lets buyers hold and order event seats, with Redis for holds, rate limits, caches, the
  order stream and the WebSocket backplane, and PostgreSQL for the durable state.

  The parts and how they interact.  A request passes the body parser, the rate limiter (a Lua
  script on a sorted set) and a route; its handler validates it and calls a service.  A hold
  is a key of Redis, taken by a Lua script; an order takes a hold, moves the seat row from
  AVAILABLE to HELD, records a PROCESSING order and appends an entry to a Redis stream; a
  worker reads the entry, moves the seat to SOLD and the order to BOOKED in one transaction,
  and acknowledges it.  Each step publishes a seat event, which the adapters of all processes
  hand to their WebSocket rooms.  Seating maps are read through a cache with a mutex.

  \<^item> Foundations.  \<open>Prelude\<close> (shared lemmas, decimal numerals, string methods of
    JavaScript), \<open>Errors\<close> (\<open>utils/custom-errors.ts\<close> and \<open>middlewares/error.middleware.ts\<close>),
    \<open>Json\<close> (\<open>JSON.stringify\<close> and \<open>JSON.parse\<close>, with their round trip), \<open>Types\<close>
    (\<open>types/ticket.types.ts\<close>, \<open>types/events.types.ts\<close>, the Prisma rows).
  \<^item> Asynchronous functions.  \<open>Proc\<close> models an \<open>async\<close> function as a resumption that performs
    one indivisible action between two \<open>await\<close>s; \<open>run\<close> executes it alone, \<open>pool_steps\<close>
    interleaves any number of them with an environment, \<open>par\<close> is \<open>Promise.all\<close> and
    \<open>Promise.allSettled\<close> under a schedule, and every such run is a path of the pool.
    \<open>Rely_Guarantee\<close> lifts a judgement on single functions to every interleaving; \<open>Ghost\<close>
    adds history variables to it; \<open>Invariant_Logic\<close> is its instance for a discipline that
    everybody keeps, with one rule for each construct of the functions.
  \<^item> What the engine is built on.  \<open>Services\<close>, \<open>Lua_Scripts\<close> and \<open>Streams\<close> hold the Redis
    client, the Redis server and the Prisma client as records of operations on an
    uninterpreted state, and the contracts the sources rely on as locales: \<open>redis_strings\<close>,
    \<open>redis_remote\<close>, \<open>redis_streams\<close>, \<open>prisma_tables\<close> and their union \<open>engine\<close>, \<open>redis_zsets\<close>
    in \<open>Rate_Limiter\<close>, \<open>shield\<close> in \<open>Stampede\<close>, \<open>redis_api\<close> and \<open>engine_api\<close> for the whole API in
    \<open>Store_Typing\<close> and \<open>Engine_Safety\<close>, \<open>seed_tables\<close> in \<open>Seed_Run\<close>,
    \<open>server_platform\<close> in \<open>Startup\<close>.  Every command may fail, executed or not, except in
    \<open>answering_worker\<close> of \<open>Worker_Liveness\<close>, where the commands of the worker answer.
    \<open>Ref_Store\<close> is a concrete store that meets all of them.
  \<^item> Scripts.  \<open>Lua_Scripts\<close> is \<open>scripts/lua/*.lua\<close>, each a function of the server state,
    since Redis runs a script without interruption; \<open>Lua_Loader\<close> is \<open>scripts/lua-loader.ts\<close>.
  \<^item> Seat holds.  \<open>Seat_Lock\<close> is \<open>services/redis-lock.service.ts\<close>: when an attempt wins,
    what a failure leaves behind, who may release, when a hold ends.  \<open>Seat_Contest\<close> proves that
    of any number of concurrent attempts exactly one wins.
  \<^item> Orders.  \<open>Ticket\<close> is \<open>services/ticket.service.ts\<close>: the effect of \<open>holdSeat\<close>,
    \<open>createOrder\<close> and \<open>releaseSeat\<close> on database, keys, stream and backplane, on every
    branch, and what every failure leaves behind.  \<open>Order_Worker\<close> is
    \<open>workers/stream-consumer.worker.ts\<close>: parsing, settlement, acknowledgement, redelivery, the
    polling loop.  \<open>Double_Booking\<close> runs all of them together, interleaved: no seat is booked
    twice, SOLD and BOOKED are final, no entry of the stream is lost.  \<open>Worker_Liveness\<close> and
    \<open>Backlog\<close> are about progress: the worker books every order of its backlog that can be booked.
  \<^item> The abstract specification.  \<open>Booking_System\<close> is what the engine promises its buyers: seats
    and orders, and three moves (place an order on a seat on sale, book an order whose seat is
    held, open a held seat).  Safety and finality are proved there once; \<open>Double_Booking\<close> maps
    the tables to it with \<open>booking_of\<close> and shows that each action of a service is one move or none.
  \<^item> Seating maps.  \<open>Stampede\<close> is \<open>services/stampede.service.ts\<close>: what a read answers and
    leaves behind, how long it waits, whose mutex it releases.  \<open>Stampede_Contest\<close> proves that at
    most one of any number of concurrent readers loads from the database.
  \<^item> HTTP.  \<open>Http\<close> (requests, \<open>encodeURIComponent\<close>), \<open>Rate_Limiter\<close> (\<open>middlewares/rateLimiter.ts\<close>,
    refinement of a log of requests and the bound that follows), \<open>Controllers\<close>
    (\<open>controllers/*.ts\<close>), \<open>App\<close> (\<open>app.ts\<close>, \<open>routes/*.ts\<close>: every request is answered, by whom).
    \<open>Http_Contest\<close> carries the exclusion of the seat lock up to the answers of concurrent
    \<open>POST /api/v1/tickets/hold\<close> requests.
  \<^item> The running engine.  \<open>Engine_Logic\<close> goes once through every service, handler, the limiter,
    the routes and the workers: its interface \<open>discipline\<close> lists the commands they send, and
    if each of them keeps a discipline, so does any number of HTTP requests, workers and
    shutdowns.  It is provided twice.  \<open>Api_Types\<close> has the TypeScript interfaces and the contracts
    of the routes, \<open>Store_Typing\<close> a typing of Redis that every command keeps, \<open>Type_Soundness\<close> what
    follows for answers, cached maps and messages.  \<open>Engine_Safety\<close> carries the moves of
    \<open>Double_Booking\<close> to whole requests, and \<open>Order_Promise\<close> follows an order from its answer 202.
    \<open>Engine_Refinement\<close> is the simulation: every step of the running engine is one of
    \<open>Booking_System\<close> or none.
  \<^item> Backplane.  \<open>Pubsub\<close> and \<open>Seat_Events\<close> are \<open>websocket/pubsub.adapter.ts\<close> and the schemas of
    \<open>types/events.types.ts\<close>; \<open>Websocket\<close> is \<open>websocket/socket.server.ts\<close> as a state machine.
    \<open>Broadcast\<close> has the invariant of its rooms, the way of an event from \<open>publishSeatEvent\<close>
    of one process to the sockets of another, the heartbeat and the life of an adapter.
    \<open>Socket_Process\<close> starts and closes the server beside whatever is reported to it.
  \<^item> Search and diagnostics.  \<open>Geo\<close> is \<open>services/geo.service.ts\<close>: order and bound of the results,
    the shapes of a reply.  \<open>Diagnostics\<close> is \<open>services/diagnostics.service.ts\<close>: what the
    benchmarks report follows from the contests above, through the schedules of \<open>par\<close>.
  \<^item> Processes.  \<open>Lifecycle\<close> is \<open>config/*.ts\<close>, \<open>server.ts\<close> and \<open>workers/worker-entrypoint.ts\<close>;
    \<open>Startup\<close> follows a server from the environment and \<open>startServer\<close> to the requests it serves;
    \<open>Seed\<close> is the data of \<open>prisma/seed.ts\<close>, \<open>Seed_Run\<close> its statements and the script.

  Conventions.  Values of \<open>randomUUID()\<close> are arguments, and so are the schedules of batches.
  Times are integers in milliseconds.  Numbers in JSON text are integers; other numbers are
  exact rationals with the special values of JavaScript (\<open>Geo\<close>).  Strings are 8-bit code
  units.  The transactions of Prisma run their callback on the current state and commit or
  reject; a transaction may reject for any reason of its own, which covers the aborts of
  concurrent transactions.

  Bounds.  \<open>consumer_loop\<close> has a bound on its polls and says \<open>None\<close> when it is reached; the
  properties of the worker hold for every bound, and \<open>worker_books_backlog\<close> says that \<open>bound\<close> polls
  reach the next \<open>BATCH_SIZE * bound\<close> entries of the backlog.  \<open>JSON_parse\<close> has the length of the text
  as fuel, which \<open>json_fuel_le\<close> shows to be enough for every printed value.  The waiting loop
  of the seating map and the draining loop of the benchmark have the bounds of the source
  (8 and 20 attempts).  \<open>par\<close> runs what a schedule leaves unfinished to its end, so no run
  of a batch is cut short.

  Not modelled.  Log lines; the response headers of \<open>helmet\<close> and \<open>cors\<close> and preflight requests;
  the matching of paths by Express, the body parser, the URL parser and the format checks
  and messages of zod, which are parameters; the connection handling of the Redis, PostgreSQL
  and WebSocket libraries beyond success and failure of their commands; rounding of
  doubles; \<open>logger.ts\<close>, \<open>prisma.config.ts\<close>, and the empty
  files \<open>payment.worker.ts\<close> and \<open>validate.middleware.ts\<close>.

  Not proved.  The exclusion of \<open>Http_Contest\<close> for requests of every kind, by the rules of
  \<open>Order_Promise\<close>; how the count of settled orders in the report of the order-stream benchmark relates to the stream;
  the expiry of a hold between two steps of one order; liveness of the worker when commands fail
  now and then.
\<close>

end
